(* ===== verification/Prelude.thy ===== *)
theory Prelude
  imports Main "HOL-Library.Word"
begin

text \<open>
  Shared vocabulary of the development: the machine types of the C++ sources, the result type in
  which an abort or an undefined access is a value, the C library calls on byte buffers
  (\<open>memcpy\<close>, \<open>strlen\<close>), the little-endian layout of integers in memory, and
  the lemma collections the components use.
\<close>

section \<open>Machine types\<close>

type_synonym byte = char
type_synonym u16 = "16 word"
type_synonym u32 = "32 word"
type_synonym u64 = "64 word"

abbreviation NUL :: byte where
  "NUL \<equiv> CHR 0x00"

abbreviation zeros :: "nat \<Rightarrow> byte list" where
  "zeros n \<equiv> replicate n NUL"

text \<open>Division of C++ on \<open>int\<close>: it truncates towards zero.\<close>

definition c_div :: "int \<Rightarrow> int \<Rightarrow> int" where
  "c_div a b = sgn a * sgn b * (\<bar>a\<bar> div \<bar>b\<bar>)"

lemma c_div_nonneg [simp]: "0 \<le> a \<Longrightarrow> 0 < b \<Longrightarrow> c_div a b = a div b"
  by (cases "a = 0") (simp_all add: c_div_def)

section \<open>Results\<close>

text \<open>
  What ends the process or leaves the defined behaviour of C++: a failed \<open>assert\<close>, an
  access outside an array, signed overflow, an uncaught \<open>std::out_of_range\<close> and the call
  of \<open>exit\<close>. A step of the program either faults or returns a value.
\<close>

datatype fault = Assert_failed | Out_of_bounds | Signed_overflow | Out_of_range | Exit_called

type_synonym 'a res = "fault + 'a"

definition res_bind :: "'a res \<Rightarrow> ('a \<Rightarrow> 'b res) \<Rightarrow> 'b res" where
  "res_bind r f = (case r of Inl e \<Rightarrow> Inl e | Inr x \<Rightarrow> f x)"

lemma res_bind_simps [simp]:
  "res_bind (Inl e) f = Inl e"
  "res_bind (Inr x) f = f x"
  by (simp_all add: res_bind_def)

lemma res_bind_eq_Inr: "res_bind r f = Inr y \<longleftrightarrow> (\<exists>x. r = Inr x \<and> f x = Inr y)"
  by (cases r) simp_all

lemma res_bind_cong [fundef_cong]:
  "r = r' \<Longrightarrow> (\<And>x. r' = Inr x \<Longrightarrow> f x = g x) \<Longrightarrow> res_bind r f = res_bind r' g"
  by (cases r') simp_all

section \<open>Byte buffers\<close>

text \<open>
  \<open>memcpy(out + off, src, length src)\<close> on an array of known length: writing past its end
  is the fault \<open>Out_of_bounds\<close>.
\<close>

definition memcpy_at :: "byte list \<Rightarrow> nat \<Rightarrow> byte list \<Rightarrow> byte list res" where
  "memcpy_at out off src =
     (if off + length src \<le> length out
      then Inr (take off out @ src @ drop (off + length src) out)
      else Inl Out_of_bounds)"

lemma memcpy_at_ok:
  "off + length src \<le> length out \<Longrightarrow>
   memcpy_at out off src = Inr (take off out @ src @ drop (off + length src) out)"
  by (simp add: memcpy_at_def)

text \<open>\<open>strlen\<close> of an array: running past its end is a fault.\<close>

definition strlen :: "byte list \<Rightarrow> nat res" where
  "strlen buf = (if NUL \<in> set buf then Inr (length (takeWhile (\<lambda>c. c \<noteq> NUL) buf))
                 else Inl Out_of_bounds)"

lemma strlen_prefix: "strlen (xs @ NUL # ys) = Inr (length (takeWhile (\<lambda>c. c \<noteq> NUL) xs))"
  by (simp add: strlen_def takeWhile_tail)

section \<open>Little-endian integers\<close>

definition u16_bytes :: "u16 \<Rightarrow> byte list" where
  "u16_bytes w = [char_of (unat w), char_of (unat w div 256)]"

definition u32_bytes :: "u32 \<Rightarrow> byte list" where
  "u32_bytes w = [char_of (unat w), char_of (unat w div 256), char_of (unat w div 65536),
                  char_of (unat w div 16777216)]"

definition u16_at :: "byte list \<Rightarrow> nat \<Rightarrow> u16" where
  "u16_at bs off = word_of_nat (of_char (bs ! off) + 256 * of_char (bs ! (off + 1)))"

definition u32_at :: "byte list \<Rightarrow> nat \<Rightarrow> u32" where
  "u32_at bs off = word_of_nat (of_char (bs ! off) + 256 * of_char (bs ! (off + 1))
     + 65536 * of_char (bs ! (off + 2)) + 16777216 * of_char (bs ! (off + 3)))"

lemma length_u16_bytes [simp]: "length (u16_bytes w) = 2"
  by (simp add: u16_bytes_def)

lemma length_u32_bytes [simp]: "length (u32_bytes w) = 4"
  by (simp add: u32_bytes_def)

lemma unat_u16_less: "unat (w :: u16) < 65536"
  using unsigned_less [of w, where ?'a = nat] by simp

lemma unat_u32_less: "unat (w :: u32) < 4294967296"
  using unsigned_less [of w, where ?'a = nat] by simp

lemma base256_two: "n < 65536 \<Longrightarrow> n mod 256 + 256 * (n div 256 mod 256) = (n :: nat)"
  by (simp add: mod_less)

lemma base256_four:
  "n mod 256 + 256 * (n div 256 mod 256) + 65536 * (n div 65536 mod 256)
     + 16777216 * (n div 16777216) = (n :: nat)"
proof -
  have join: "a + 256 * b + 65536 * c + 16777216 * q3 = m"
    if "a + 256 * q1 = m" "b + 256 * q2 = q1" "c + 256 * q3 = q2" for a b c q1 q2 q3 m :: nat
    using that by simp
  have q2: "n div 65536 = n div 256 div 256"
    and q3: "n div 16777216 = n div 256 div 256 div 256"
    by (simp_all flip: div_mult2_eq)
  show ?thesis
    unfolding q2 q3 by (rule join) (rule mod_mult_div_eq)+
qed

lemma u16_at_bytes: "length xs = off \<Longrightarrow> u16_at (xs @ u16_bytes w @ ys) off = w"
  using base256_two [OF unat_u16_less, of w]
  by (simp add: u16_at_def u16_bytes_def nth_append del: of_nat_add of_nat_mult)

lemma u32_at_bytes: "length xs = off \<Longrightarrow> u32_at (xs @ u32_bytes w @ ys) off = w"
  using base256_four [of "unat w"] unat_u32_less [of w]
  by (simp add: u32_at_def u32_bytes_def nth_append del: of_nat_add of_nat_mult)

end
