(* ===== verification/Disk.thy ===== *)
theory Disk
  imports Prelude
begin

text \<open>
  The disk layer of \<open>inode_manager.cc\<close>: the array \<open>blocks[BLOCK_NUM][BLOCK_SIZE]\<close>
  of class \<open>disk\<close> and its two operations, with the interface \<open>block_device\<close> that the
  layers above rely on. The array is a function of the block number; only its first
  \<open>BLOCK_NUM\<close> values are ever read or written.
\<close>

abbreviation BLOCK_SIZE :: "'a::numeral" where
  "BLOCK_SIZE \<equiv> 512"

abbreviation BLOCK_NUM :: "'a::numeral" where
  "BLOCK_NUM \<equiv> 32768"

record disk =
  blocks :: "u32 \<Rightarrow> byte list"

definition disk_init :: disk where
  "disk_init = \<lparr>blocks = (\<lambda>_. zeros BLOCK_SIZE)\<rparr>"

text \<open>\<open>buf\<close> is the content of the caller's buffer before the call; it stays when the number
  is out of range.\<close>

definition disk_read_block :: "disk \<Rightarrow> u32 \<Rightarrow> byte list \<Rightarrow> byte list" where
  "disk_read_block d bid buf = (if bid \<ge> BLOCK_NUM then buf else blocks d bid)"

definition disk_write_block :: "disk \<Rightarrow> u32 \<Rightarrow> byte list \<Rightarrow> disk" where
  "disk_write_block d bid buf =
     (if bid \<ge> BLOCK_NUM then d
      else d\<lparr>blocks := (blocks d)(bid := take BLOCK_SIZE buf)\<rparr>)"

text \<open>Every block of the array has the size of a block.\<close>

definition disk_ok :: "disk \<Rightarrow> bool" where
  "disk_ok d \<longleftrightarrow> (\<forall>bid. length (blocks d bid) = BLOCK_SIZE)"

section \<open>The interface of a block device\<close>

locale block_device =
  fixes ok :: "'d \<Rightarrow> bool"
    and rd :: "'d \<Rightarrow> u32 \<Rightarrow> byte list \<Rightarrow> byte list"
    and wr :: "'d \<Rightarrow> u32 \<Rightarrow> byte list \<Rightarrow> 'd"
  assumes rd_wr_same: "bid < BLOCK_NUM \<Longrightarrow> length b = BLOCK_SIZE \<Longrightarrow> rd (wr d bid b) bid buf = b"
    and rd_wr_other: "bid \<noteq> bid' \<Longrightarrow> rd (wr d bid b) bid' buf = rd d bid' buf"
    and rd_length: "ok d \<Longrightarrow> bid < BLOCK_NUM \<Longrightarrow> length (rd d bid buf) = BLOCK_SIZE"
    and rd_out_of_range: "BLOCK_NUM \<le> bid \<Longrightarrow> rd d bid buf = buf"
    and rd_ignores_buf: "bid < BLOCK_NUM \<Longrightarrow> rd d bid buf = rd d bid buf'"
    and wr_out_of_range: "BLOCK_NUM \<le> bid \<Longrightarrow> wr d bid b = d"
    and ok_wr: "ok d \<Longrightarrow> length b = BLOCK_SIZE \<Longrightarrow> ok (wr d bid b)"
begin

lemma rd_wr:
  "length b = BLOCK_SIZE \<Longrightarrow>
   rd (wr d bid b) bid' buf = (if bid' = bid \<and> bid < BLOCK_NUM then b else rd d bid' buf)"
  by (cases "bid < BLOCK_NUM") (auto simp: rd_wr_same rd_wr_other wr_out_of_range linorder_not_less)

text \<open>The last write to a block wins, and writes to different blocks do not interfere.\<close>

lemma wr_wr_same:
  "length b = BLOCK_SIZE \<Longrightarrow> length b' = BLOCK_SIZE \<Longrightarrow>
   rd (wr (wr d bid b) bid b') i buf = rd (wr d bid b') i buf"
  by (simp add: rd_wr)

lemma wr_wr_swap:
  "bid \<noteq> bid' \<Longrightarrow> length b = BLOCK_SIZE \<Longrightarrow> length b' = BLOCK_SIZE \<Longrightarrow>
   rd (wr (wr d bid b) bid' b') i buf = rd (wr (wr d bid' b') bid b) i buf"
  by (simp add: rd_wr)

end

interpretation dk: block_device disk_ok disk_read_block disk_write_block
  by unfold_locales (auto simp: disk_ok_def disk_read_block_def disk_write_block_def)

lemma disk_ok_init [simp]: "disk_ok disk_init"
  by (simp add: disk_ok_def disk_init_def)

end
