(* ===== verification/Block_Manager.thy ===== *)
theory Block_Manager
  imports Disk
begin

text \<open>
  The block layer: \<open>superblock\<close> and class \<open>block_manager\<close> of \<open>inode_manager.h\<close>,
  with the allocation bitmap \<open>using_blocks\<close>. The \<open>std::map\<close> is read through
  \<open>operator[]\<close>, for which a missing key counts as 0, so the bitmap is a total function
  here; the last section shows that the operations on the \<open>std::map\<close> itself, insertions
  of missing keys included, are simulated by these.
\<close>

abbreviation INODE_NUM :: "'a::numeral" where
  "INODE_NUM \<equiv> 1024"

abbreviation BPB :: "'a::numeral" where
  "BPB \<equiv> 4096"

definition IBLOCK :: "u32 \<Rightarrow> u32 \<Rightarrow> u32" where
  "IBLOCK i nblocks = nblocks div BPB + i div 1 + 3"

record superblock =
  sb_size :: u32
  sb_nblocks :: u32
  sb_ninodes :: u32

record block_manager =
  bm_d :: disk
  using_blocks :: "u32 \<Rightarrow> int"
  bm_sb :: superblock

definition block_manager_init :: block_manager where
  "block_manager_init =
     \<lparr>bm_d = disk_init, using_blocks = (\<lambda>_. 0),
      bm_sb = \<lparr>sb_size = BLOCK_SIZE * BLOCK_NUM, sb_nblocks = BLOCK_NUM, sb_ninodes = INODE_NUM\<rparr>\<rparr>"

definition is_valid_block :: "block_manager \<Rightarrow> u32 \<Rightarrow> bool" where
  "is_valid_block bm bid = (if bid \<ge> BLOCK_NUM then False else using_blocks bm bid = 1)"

definition read_block :: "block_manager \<Rightarrow> u32 \<Rightarrow> byte list \<Rightarrow> byte list" where
  "read_block bm bid buf = disk_read_block (bm_d bm) bid buf"

definition write_block :: "block_manager \<Rightarrow> u32 \<Rightarrow> byte list \<Rightarrow> block_manager" where
  "write_block bm bid buf = bm\<lparr>bm_d := disk_write_block (bm_d bm) bid buf\<rparr>"

function alloc_loop :: "block_manager \<Rightarrow> nat \<Rightarrow> u32 \<times> block_manager" where
  "alloc_loop bm i =
     (if i < BLOCK_NUM
      then if using_blocks bm (of_nat i) = 0
           then (of_nat i, bm\<lparr>using_blocks := (using_blocks bm)(of_nat i := 1)\<rparr>)
           else alloc_loop bm (i + 1)
      else (0, bm))"
  by pat_completeness auto
termination
  by (relation "measure (\<lambda>(bm, i). BLOCK_NUM - i)") auto

declare alloc_loop.simps [simp del]

definition alloc_block :: "block_manager \<Rightarrow> u32 \<times> block_manager" where
  "alloc_block bm =
     (let last_inode_block = IBLOCK INODE_NUM (sb_nblocks (bm_sb bm))
      in alloc_loop bm (unat (last_inode_block + 1)))"

text \<open>The block is overwritten with zeros before the assertion is checked.\<close>

definition free_block :: "block_manager \<Rightarrow> u32 \<Rightarrow> block_manager res" where
  "free_block bm bid =
     (if bid \<ge> BLOCK_NUM then Inr bm
      else let bm1 = write_block bm bid (zeros BLOCK_SIZE)
           in if using_blocks bm1 bid = 1
              then Inr (bm1\<lparr>using_blocks := (using_blocks bm1)(bid := 0)\<rparr>)
              else Inl Assert_failed)"

section \<open>Invariant and free space\<close>

text \<open>The blocks behind the inode table, which \<open>alloc_block\<close> hands out.\<close>

definition data_block :: "u32 \<Rightarrow> bool" where
  "data_block bid \<longleftrightarrow> 1036 \<le> bid \<and> bid < BLOCK_NUM"

definition bm_inv :: "block_manager \<Rightarrow> bool" where
  "bm_inv bm \<longleftrightarrow> disk_ok (bm_d bm) \<and> bm_sb bm = bm_sb block_manager_init \<and>
     (\<forall>bid. using_blocks bm bid = 0 \<or> using_blocks bm bid = 1 \<and> data_block bid)"

definition free_set :: "block_manager \<Rightarrow> u32 set" where
  "free_set bm = {bid. data_block bid \<and> using_blocks bm bid = 0}"

definition bm_free :: "block_manager \<Rightarrow> nat" where
  "bm_free bm = card (free_set bm)"

interpretation bd: block_device "\<lambda>bm. disk_ok (bm_d bm)" read_block write_block
  by unfold_locales
    (auto simp: read_block_def write_block_def dk.rd_wr_same dk.rd_wr_other dk.rd_length
      dk.rd_out_of_range dk.wr_out_of_range dk.ok_wr intro: dk.rd_ignores_buf)

lemma bm_inv_init [simp]: "bm_inv block_manager_init"
  by (simp add: bm_inv_def block_manager_init_def)

lemma finite_free_set [simp]: "finite (free_set bm)"
  by simp

lemma valid_iff: "bm_inv bm \<Longrightarrow> is_valid_block bm bid \<longleftrightarrow> using_blocks bm bid = 1"
  unfolding bm_inv_def is_valid_block_def data_block_def by (metis linorder_not_le zero_neq_one)

lemma valid_data_block: "bm_inv bm \<Longrightarrow> is_valid_block bm bid \<Longrightarrow> data_block bid"
  unfolding bm_inv_def is_valid_block_def by (metis zero_neq_one)

lemma data_block_range: "data_block bid \<Longrightarrow> bid < BLOCK_NUM" "data_block bid \<Longrightarrow> bid \<noteq> 0"
  by (auto simp: data_block_def)

lemma not_data_block_zero [simp]: "\<not> data_block 0"
  by (simp add: data_block_def)

lemma not_valid_zero [simp]: "bm_inv bm \<Longrightarrow> \<not> is_valid_block bm 0"
  using valid_data_block not_data_block_zero by blast

lemma valid_not_free: "is_valid_block bm bid \<Longrightarrow> bid \<notin> free_set bm"
  by (auto simp: is_valid_block_def free_set_def split: if_splits)

section \<open>What the operations change\<close>

text \<open>\<open>blk\<close> is the content of a block; every operation below is described by what it does to
  the blocks, to the bitmap and to the superblock.\<close>

abbreviation blk :: "block_manager \<Rightarrow> u32 \<Rightarrow> byte list" where
  "blk bm \<equiv> blocks (bm_d bm)"

lemma read_block_blk: "bid < BLOCK_NUM \<Longrightarrow> read_block bm bid buf = blk bm bid"
  by (auto simp: read_block_def disk_read_block_def)

lemma blk_write_block:
  "blk (write_block bm bid b) =
     (if bid < BLOCK_NUM then (blk bm)(bid := take BLOCK_SIZE b) else blk bm)"
  by (auto simp: write_block_def disk_write_block_def)

lemma blk_write_full:
  "bid < BLOCK_NUM \<Longrightarrow> length b = BLOCK_SIZE \<Longrightarrow> blk (write_block bm bid b) = (blk bm)(bid := b)"
  by (simp add: blk_write_block)

lemma write_block_simps [simp]:
  "using_blocks (write_block bm bid b) = using_blocks bm"
  "bm_sb (write_block bm bid b) = bm_sb bm"
  "is_valid_block (write_block bm bid b) = is_valid_block bm"
  "free_set (write_block bm bid b) = free_set bm"
  by (simp_all add: write_block_def is_valid_block_def fun_eq_iff free_set_def)

lemma bm_inv_write_block:
  "bm_inv bm \<Longrightarrow> BLOCK_SIZE \<le> length b \<Longrightarrow> bm_inv (write_block bm bid b)"
  by (simp add: bm_inv_def disk_ok_def blk_write_block)

lemma length_blk: "bm_inv bm \<Longrightarrow> length (blk bm bid) = BLOCK_SIZE"
  by (simp add: bm_inv_def disk_ok_def)

lemma alloc_loop_cases:
  "alloc_loop bm i =
     (if \<exists>j. i \<le> j \<and> j < BLOCK_NUM \<and> using_blocks bm (of_nat j) = 0
      then let w = of_nat (LEAST j. i \<le> j \<and> j < BLOCK_NUM \<and> using_blocks bm (of_nat j) = 0)
           in (w, bm\<lparr>using_blocks := (using_blocks bm)(w := 1)\<rparr>)
      else (0, bm))"
proof (induction bm i rule: alloc_loop.induct)
  case (1 bm i)
  let ?P = "\<lambda>i j. i \<le> j \<and> j < BLOCK_NUM \<and> using_blocks bm (of_nat j) = 0"
  show ?case
  proof (cases "i < BLOCK_NUM \<and> using_blocks bm (of_nat i) = 0")
    case True
    then have "(LEAST j. ?P i j) = i"
      by (intro Least_equality) auto
    then show ?thesis
      using True by (subst alloc_loop.simps) (auto simp: Let_def)
  next
    case False
    then have same: "?P i j \<longleftrightarrow> ?P (i + 1) j" for j
      by (cases "j = i") auto
    show ?thesis
    proof (cases "i < BLOCK_NUM")
      case True
      then have "alloc_loop bm i = alloc_loop bm (i + 1)"
        using False by (subst alloc_loop.simps) simp
      then show ?thesis
        using "1.IH" True False unfolding same by simp
    next
      case i: False
      then show ?thesis
        by (subst alloc_loop.simps) auto
    qed
  qed
qed

lemma data_block_of_nat: "1036 \<le> j \<Longrightarrow> j < BLOCK_NUM \<Longrightarrow> data_block (of_nat j)"
  by (simp add: data_block_def word_le_nat_alt word_less_nat_alt unat_of_nat)

lemma data_block_unat: "data_block w \<Longrightarrow> 1036 \<le> unat w \<and> unat w < BLOCK_NUM"
  by (simp add: data_block_def word_le_nat_alt word_less_nat_alt)

lemma first_data_block: "unat (IBLOCK INODE_NUM BLOCK_NUM + 1) = 1036"
  by (simp add: IBLOCK_def)

lemma free_set_nat:
  "(\<exists>j. 1036 \<le> j \<and> j < BLOCK_NUM \<and> using_blocks bm (of_nat j) = 0) \<longleftrightarrow> free_set bm \<noteq> {}"
proof
  assume "free_set bm \<noteq> {}"
  then obtain w where "data_block w" "using_blocks bm w = 0"
    by (auto simp: free_set_def)
  then show "\<exists>j. 1036 \<le> j \<and> j < BLOCK_NUM \<and> using_blocks bm (of_nat j) = 0"
    using data_block_unat by (intro exI [of _ "unat w"]) simp
qed (auto simp: free_set_def dest: data_block_of_nat)

lemma Least_free:
  assumes "free_set bm \<noteq> {}"
  shows "of_nat (LEAST j. 1036 \<le> j \<and> j < BLOCK_NUM \<and> using_blocks bm (of_nat j) = 0)
           = Min (free_set bm)" (is "of_nat (Least ?P) = _")
proof -
  obtain j where "?P j"
    using assms free_set_nat by blast
  then have P: "?P (Least ?P)"
    by (rule LeastI)
  show ?thesis
  proof (rule Min_eqI [symmetric])
    show "of_nat (Least ?P) \<in> free_set bm"
      using P data_block_of_nat by (auto simp: free_set_def)
    show "of_nat (Least ?P) \<le> w" if "w \<in> free_set bm" for w
    proof -
      have "?P (unat w)"
        using that data_block_unat by (auto simp: free_set_def)
      then have "Least ?P \<le> unat w"
        by (rule Least_le)
      then show ?thesis
        using P by (simp add: word_le_nat_alt unat_of_nat)
    qed
  qed simp
qed

text \<open>Allocation takes the free block with the smallest number, and reports 0 exactly when none
  is free.\<close>

lemma alloc_block_eq:
  assumes "bm_inv bm"
  shows "alloc_block bm =
    (if free_set bm = {} then (0, bm)
     else (Min (free_set bm), bm\<lparr>using_blocks := (using_blocks bm)(Min (free_set bm) := 1)\<rparr>))"
proof -
  have "sb_nblocks (bm_sb bm) = BLOCK_NUM"
    using assms by (simp add: bm_inv_def block_manager_init_def)
  then show ?thesis
    by (simp only: alloc_block_def Let_def first_data_block alloc_loop_cases [of bm 1036]
        free_set_nat Least_free split: if_split) (auto simp: Least_free)
qed

lemma free_set_in: "w \<in> free_set bm \<longleftrightarrow> data_block w \<and> using_blocks bm w = 0"
  by (simp add: free_set_def)

lemma free_block_eq:
  "bm_inv bm \<Longrightarrow> is_valid_block bm bid \<Longrightarrow>
   free_block bm bid =
     Inr (bm\<lparr>bm_d := disk_write_block (bm_d bm) bid (zeros BLOCK_SIZE),
             using_blocks := (using_blocks bm)(bid := 0)\<rparr>)"
  by (auto simp: free_block_def is_valid_block_def write_block_def Let_def split: if_splits)

section \<open>The interface of the allocator\<close>

text \<open>
  What the inode layer relies on: which blocks are in use, that an allocation gives a block that was
  not in use and marks only it, that it fails exactly when the space is used up, and that freeing a
  block in use gives it back. The contents of the other blocks stay.
\<close>

locale block_allocator =
  fixes inv :: "'s \<Rightarrow> bool"
    and valid :: "'s \<Rightarrow> u32 \<Rightarrow> bool"
    and cont :: "'s \<Rightarrow> u32 \<Rightarrow> byte list"
    and avail :: "'s \<Rightarrow> nat"
    and alloc :: "'s \<Rightarrow> u32 \<times> 's"
    and free :: "'s \<Rightarrow> u32 \<Rightarrow> 's res"
  assumes alloc_full: "inv s \<Longrightarrow> avail s = 0 \<Longrightarrow> alloc s = (0, s)"
    and alloc_fresh: "inv s \<Longrightarrow> avail s \<noteq> 0 \<Longrightarrow> alloc s = (b, s') \<Longrightarrow>
      inv s' \<and> \<not> valid s b \<and> data_block b \<and> valid s' = (valid s)(b := True) \<and>
      cont s' = cont s \<and> Suc (avail s') = avail s"
    and free_used: "inv s \<Longrightarrow> valid s b \<Longrightarrow> \<exists>s'. free s b = Inr s' \<and> inv s' \<and>
      valid s' = (valid s)(b := False) \<and> (\<forall>j. j \<noteq> b \<longrightarrow> cont s' j = cont s j) \<and>
      avail s' = Suc (avail s)"
    and free_unused: "inv s \<Longrightarrow> b < BLOCK_NUM \<Longrightarrow> \<not> valid s b \<Longrightarrow> free s b = Inl Assert_failed"
    and zero_unused: "inv s \<Longrightarrow> \<not> valid s 0"
begin

lemma alloc_zero_iff: "inv s \<Longrightarrow> fst (alloc s) = 0 \<longleftrightarrow> avail s = 0"
  using alloc_full [of s] alloc_fresh [of s "fst (alloc s)" "snd (alloc s)"]
  by (cases "avail s = 0") auto

text \<open>Giving back a fresh block restores the bitmap.\<close>

lemma alloc_free:
  assumes "inv s" "avail s \<noteq> 0" "alloc s = (b, s1)"
  shows "\<exists>s2. free s1 b = Inr s2 \<and> inv s2 \<and> valid s2 = valid s \<and> avail s2 = avail s"
proof -
  have s1: "inv s1" "\<not> valid s b" "valid s1 = (valid s)(b := True)" "Suc (avail s1) = avail s"
    using alloc_fresh [OF assms] by auto
  then obtain s2 where "free s1 b = Inr s2" "inv s2" "valid s2 = (valid s1)(b := False)"
    "avail s2 = Suc (avail s1)"
    using free_used [of s1 b] by auto
  with s1 show ?thesis by (auto simp: fun_eq_iff)
qed

text \<open>A block cannot be freed twice: the second call fails its assertion.\<close>

lemma double_free:
  assumes "inv s" "valid s b" "b < BLOCK_NUM" "free s b = Inr s'"
  shows "free s' b = Inl Assert_failed"
  using assms free_used [of s b] free_unused [of s' b] by auto

end

lemma bm_inv_cases: "bm_inv bm \<Longrightarrow> using_blocks bm w = 0 \<or> using_blocks bm w = 1 \<and> data_block w"
  by (simp add: bm_inv_def)

lemma alloc_block_spec:
  assumes "bm_inv bm" "bm_free bm \<noteq> 0" "alloc_block bm = (b, bm')"
  shows "bm_inv bm' \<and> \<not> is_valid_block bm b \<and> data_block b \<and>
    is_valid_block bm' = (is_valid_block bm)(b := True) \<and> blk bm' = blk bm \<and>
    Suc (bm_free bm') = bm_free bm"
proof -
  have ne: "free_set bm \<noteq> {}"
    using assms(2) by (auto simp: bm_free_def)
  have b: "b \<in> free_set bm" and bm': "bm' = bm\<lparr>using_blocks := (using_blocks bm)(b := 1)\<rparr>"
    using assms(3) alloc_block_eq [OF assms(1)] ne Min_in [of "free_set bm"] by auto
  have "free_set bm' = free_set bm - {b}"
    by (auto simp: bm' free_set_def)
  then have "Suc (bm_free bm') = bm_free bm"
    unfolding bm_free_def using card_Suc_Diff1 [OF finite_free_set b] by simp
  with b assms(1) show ?thesis
    by (auto simp: bm' free_set_in bm_inv_def is_valid_block_def fun_eq_iff
        dest: data_block_range(1))
qed

lemma free_block_spec:
  assumes "bm_inv bm" "is_valid_block bm b"
  shows "\<exists>bm'. free_block bm b = Inr bm' \<and> bm_inv bm' \<and>
    is_valid_block bm' = (is_valid_block bm)(b := False) \<and>
    (\<forall>j. j \<noteq> b \<longrightarrow> blk bm' j = blk bm j) \<and> bm_free bm' = Suc (bm_free bm)"
proof -
  let ?bm = "bm\<lparr>bm_d := disk_write_block (bm_d bm) b (zeros BLOCK_SIZE),
                 using_blocks := (using_blocks bm)(b := 0)\<rparr>"
  have "free_set ?bm = insert b (free_set bm)"
    using valid_data_block [OF assms] by (auto simp: free_set_def)
  then have "bm_free ?bm = Suc (bm_free bm)"
    unfolding bm_free_def using valid_not_free [OF assms(2)] by simp
  with free_block_eq [OF assms] assms(1) show ?thesis
    by (auto simp: bm_inv_def disk_ok_def is_valid_block_def fun_eq_iff disk_write_block_def)
qed

interpretation ba: block_allocator bm_inv is_valid_block blk bm_free alloc_block free_block
proof unfold_locales
  show "alloc_block bm = (0, bm)" if "bm_inv bm" "bm_free bm = 0" for bm
    using that by (simp add: alloc_block_eq bm_free_def)
  show "free_block bm b = Inl Assert_failed"
    if "bm_inv bm" "b < BLOCK_NUM" "\<not> is_valid_block bm b" for bm b
    using that by (auto simp: free_block_def is_valid_block_def Let_def split: if_splits)
qed (rule alloc_block_spec free_block_spec not_valid_zero; assumption)+

text \<open>A fresh disk has 31732 free blocks.\<close>

lemma bm_free_init: "bm_free block_manager_init = 31732"
proof -
  have "free_set block_manager_init = of_nat ` {1036..<BLOCK_NUM}"
  proof (rule set_eqI, rule iffI)
    fix w
    assume "w \<in> free_set block_manager_init"
    then show "w \<in> of_nat ` {1036..<BLOCK_NUM}"
      using data_block_unat by (intro image_eqI [of _ _ "unat w"]) (auto simp: free_set_def)
  qed (auto simp: free_set_def block_manager_init_def data_block_of_nat)
  moreover have "inj_on (of_nat :: nat \<Rightarrow> u32) {1036..<BLOCK_NUM}"
  proof (rule inj_on_inverseI)
    show "unat (of_nat x :: u32) = x" if "x \<in> {1036..<BLOCK_NUM}" for x
      using that by (simp add: unat_of_nat)
  qed
  ultimately show ?thesis
    by (simp add: bm_free_def card_image)
qed

section \<open>The bitmap as a \<open>std::map\<close>\<close>

text \<open>
  The same operations on \<open>std::map<uint32_t, int>\<close>: \<open>operator[]\<close> inserts a missing
  key with the value 0, so that even \<open>is_valid_block\<close> changes the map. Through
  \<open>bitmap\<close>, which reads a missing key as 0, each of them is the operation above.
\<close>

definition map_index :: "(u32 \<rightharpoonup> int) \<Rightarrow> u32 \<Rightarrow> int \<times> (u32 \<rightharpoonup> int)" where
  "map_index m k = (case m k of Some v \<Rightarrow> (v, m) | None \<Rightarrow> (0, m(k \<mapsto> 0)))"

definition is_valid_block_map :: "(u32 \<rightharpoonup> int) \<Rightarrow> u32 \<Rightarrow> bool \<times> (u32 \<rightharpoonup> int)" where
  "is_valid_block_map m bid =
     (if bid \<ge> BLOCK_NUM then (False, m)
      else let (v, m') = map_index m bid in (v = 1, m'))"

function alloc_loop_map :: "(u32 \<rightharpoonup> int) \<Rightarrow> nat \<Rightarrow> u32 \<times> (u32 \<rightharpoonup> int)" where
  "alloc_loop_map m i =
     (if i < BLOCK_NUM
      then if m (of_nat i) = None then (of_nat i, m(of_nat i \<mapsto> 1))
           else if fst (map_index m (of_nat i)) = 0
           then (of_nat i, (snd (map_index m (of_nat i)))(of_nat i \<mapsto> 1))
           else alloc_loop_map (snd (map_index m (of_nat i))) (i + 1)
      else (0, m))"
  by pat_completeness auto
termination
  by (relation "measure (\<lambda>(m, i). BLOCK_NUM - i)") auto

declare alloc_loop_map.simps [simp del]

definition free_block_map :: "(u32 \<rightharpoonup> int) \<Rightarrow> u32 \<Rightarrow> (u32 \<rightharpoonup> int) res" where
  "free_block_map m bid =
     (if bid \<ge> BLOCK_NUM then Inr m
      else let (v, m') = map_index m bid
           in if v = 1 then Inr (m'(bid \<mapsto> 0)) else Inl Assert_failed)"

definition bitmap :: "(u32 \<rightharpoonup> int) \<Rightarrow> u32 \<Rightarrow> int" where
  "bitmap m k = (case m k of Some v \<Rightarrow> v | None \<Rightarrow> 0)"

lemma map_index_bitmap [simp]:
  "fst (map_index m k) = bitmap m k" "bitmap (snd (map_index m k)) = bitmap m"
  by (auto simp: map_index_def bitmap_def fun_eq_iff split: option.splits)

lemma bitmap_upd [simp]: "bitmap (m(k \<mapsto> v)) = (bitmap m)(k := v)"
  by (auto simp: bitmap_def fun_eq_iff)

lemma bitmap_None: "m k = None \<Longrightarrow> bitmap m k = 0"
  by (simp add: bitmap_def)

lemma alloc_loop_map_bitmap:
  "bitmap m = using_blocks bm \<Longrightarrow>
   fst (alloc_loop_map m i) = fst (alloc_loop bm i) \<and>
   bitmap (snd (alloc_loop_map m i)) = using_blocks (snd (alloc_loop bm i))"
proof (induction m i rule: alloc_loop_map.induct)
  case (1 m i)
  note unfold = alloc_loop_map.simps [of m i] alloc_loop.simps [of bm i]
  consider "\<not> i < BLOCK_NUM" | "i < BLOCK_NUM" "using_blocks bm (of_nat i) = 0"
    | "i < BLOCK_NUM" "using_blocks bm (of_nat i) \<noteq> 0"
    by blast
  then show ?case
  proof cases
    case 3
    moreover from this have "m (of_nat i) \<noteq> None" "fst (map_index m (of_nat i)) \<noteq> 0"
      using "1.prems" bitmap_None by (metis, metis map_index_bitmap(1))
    ultimately show ?thesis
      using "1.IH" "1.prems" by (auto simp: unfold)
  next
    case 2
    then show ?thesis
      unfolding unfold using "1.prems" by (auto simp: bitmap_upd simp del: fun_upd_apply)
  qed (use "1.prems" in \<open>simp add: unfold\<close>)
qed

text \<open>C30. The allocation bitmap kept in a \<open>std::map\<close>, with the insertions that
  \<open>operator[]\<close> makes, is a refinement of the bitmap of the model: for related states, the
  validity test, the allocation loop and the freeing of a block give the same results, the same
  assertion failures, and related states.\<close>

theorem using_blocks_map_refines:
  assumes "bitmap m = using_blocks bm"
  shows "fst (is_valid_block_map m bid) = is_valid_block bm bid
    \<and> bitmap (snd (is_valid_block_map m bid)) = using_blocks bm
    \<and> fst (alloc_loop_map m i) = fst (alloc_loop bm i)
    \<and> bitmap (snd (alloc_loop_map m i)) = using_blocks (snd (alloc_loop bm i))
    \<and> map_sum (\<lambda>e. e) bitmap (free_block_map m bid)
        = map_sum (\<lambda>e. e) using_blocks (free_block bm bid)"
proof -
  have "map_sum (\<lambda>e. e) bitmap (free_block_map m bid)
      = map_sum (\<lambda>e. e) using_blocks (free_block bm bid)"
    using assms by (auto simp: free_block_map_def free_block_def Let_def case_prod_beta)
  moreover have "fst (is_valid_block_map m bid) = is_valid_block bm bid"
    "bitmap (snd (is_valid_block_map m bid)) = using_blocks bm"
    using assms by (auto simp: is_valid_block_map_def is_valid_block_def Let_def case_prod_beta)
  ultimately show ?thesis
    using alloc_loop_map_bitmap [OF assms] by blast
qed

theorem using_blocks_map_refines_witness:
  "bitmap [1036 \<mapsto> 1, 1037 \<mapsto> 0]
     = using_blocks (block_manager_init\<lparr>using_blocks := (\<lambda>_. 0)(1036 := 1)\<rparr>)
   \<and> fst (alloc_loop_map [1036 \<mapsto> 1, 1037 \<mapsto> 0] 1036)
     = fst (alloc_loop (block_manager_init\<lparr>using_blocks := (\<lambda>_. 0)(1036 := 1)\<rparr>) 1036)"
proof -
  have h: "bitmap [1036 \<mapsto> 1, 1037 \<mapsto> 0]
     = using_blocks (block_manager_init\<lparr>using_blocks := (\<lambda>_. 0)(1036 := 1)\<rparr>)"
    by (auto simp: bitmap_def fun_eq_iff)
  show ?thesis
    using h using_blocks_map_refines [OF h, of 0 1036] by simp
qed

end
