(* ===== verification/Inode_Layout.thy ===== *)
theory Inode_Layout
  imports Block_Manager
begin

text \<open>
  How an inode and an indirect block lie in a disk block: \<open>struct inode\<close> of
  \<open>inode_manager.h\<close> (a 16-bit type, two bytes of padding, four 32-bit fields and
  \<open>NDIRECT + 1\<close> block numbers, 424 bytes in all) and the array of \<open>NINDIRECT\<close> block
  numbers that the code reads through a cast to \<open>uint32_t *\<close>. Integers are little-endian;
  the padding is written as zero.
\<close>

abbreviation NDIRECT :: "'a::numeral" where
  "NDIRECT \<equiv> 100"

abbreviation NINDIRECT :: "'a::numeral" where
  "NINDIRECT \<equiv> 128"

abbreviation MAXFILE :: "'a::numeral" where
  "MAXFILE \<equiv> 228"

record inode =
  i_type :: u16
  i_size :: u32
  i_atime :: u32
  i_mtime :: u32
  i_ctime :: u32
  i_blocks :: "u32 list"

definition encode_inode :: "inode \<Rightarrow> byte list" where
  "encode_inode n = u16_bytes (i_type n) @ zeros 2 @
     concat (map u32_bytes ([i_size n, i_atime n, i_mtime n, i_ctime n] @ i_blocks n))"

definition decode_inode :: "byte list \<Rightarrow> inode" where
  "decode_inode bs =
     \<lparr>i_type = u16_at bs 0, i_size = u32_at bs 4, i_atime = u32_at bs 8, i_mtime = u32_at bs 12,
      i_ctime = u32_at bs 16, i_blocks = map (\<lambda>k. u32_at bs (20 + 4 * k)) [0..<NDIRECT + 1]\<rparr>"

text \<open>Entry \<open>i\<close> of the block numbers in a buffer, checked against its end; and the buffer
  with the entry replaced.\<close>

definition ind_at :: "byte list \<Rightarrow> nat \<Rightarrow> u32 res" where
  "ind_at bs i = (if 4 * i + 4 \<le> length bs then Inr (u32_at bs (4 * i)) else Inl Out_of_bounds)"

definition ind_put :: "byte list \<Rightarrow> nat \<Rightarrow> u32 \<Rightarrow> byte list res" where
  "ind_put bs i w = memcpy_at bs (4 * i) (u32_bytes w)"

definition entries :: "byte list \<Rightarrow> u32 list" where
  "entries bs = map (\<lambda>k. u32_at bs (4 * k)) [0..<NINDIRECT]"

section \<open>Round trips\<close>

lemma length_concat_u32 [simp]: "length (concat (map u32_bytes ws)) = 4 * length ws"
  by (induction ws) simp_all

lemma u32_at_concat:
  assumes "k < length ws"
  shows "u32_at (xs @ concat (map u32_bytes ws) @ ys) (length xs + 4 * k) = ws ! k"
proof -
  have "concat (map u32_bytes ws) =
      concat (map u32_bytes (take k ws)) @ u32_bytes (ws ! k) @ concat (map u32_bytes (drop (Suc k) ws))"
    by (subst id_take_nth_drop [OF assms]) simp
  then show ?thesis
    using u32_at_bytes [of "xs @ concat (map u32_bytes (take k ws))" "length xs + 4 * k" "ws ! k"]
      assms by simp
qed

lemma length_encode_inode: "length (i_blocks n) = NDIRECT + 1 \<Longrightarrow> length (encode_inode n) = 424"
  by (simp add: encode_inode_def)

lemma length_i_blocks_decode [simp]: "length (i_blocks (decode_inode bs)) = NDIRECT + 1"
  by (simp add: decode_inode_def)

lemma decode_encode_inode:
  assumes "length (i_blocks n) = NDIRECT + 1"
  shows "decode_inode (encode_inode n @ rest) = n"
proof -
  let ?ws = "[i_size n, i_atime n, i_mtime n, i_ctime n] @ i_blocks n"
  have at: "u32_at (encode_inode n @ rest) (4 + 4 * k) = ?ws ! k" if "k < 105" for k
    using u32_at_concat [of k ?ws "u16_bytes (i_type n) @ zeros 2" rest] that assms
    by (simp add: encode_inode_def)
  have "u16_at (encode_inode n @ rest) 0 = i_type n"
    using u16_at_bytes [of "[]" 0] by (simp add: encode_inode_def)
  moreover have "map (\<lambda>k. u32_at (encode_inode n @ rest) (20 + 4 * k)) [0..<NDIRECT + 1] = i_blocks n"
    using at [of "k + 4" for k] assms by (intro nth_equalityI) (simp_all add: nth_append)
  ultimately show ?thesis
    using at [of 0] at [of 1] at [of 2] at [of 3] by (simp add: decode_inode_def)
qed

lemma u16_at_zeros: "off + 2 \<le> n \<Longrightarrow> u16_at (zeros n) off = 0"
  by (simp add: u16_at_def)

lemma u32_at_zeros: "off + 4 \<le> n \<Longrightarrow> u32_at (zeros n) off = 0"
  by (simp add: u32_at_def)

lemma decode_zeros_type: "i_type (decode_inode (zeros BLOCK_SIZE)) = 0"
  by (simp add: decode_inode_def u16_at_zeros)

lemma length_entries [simp]: "length (entries bs) = NINDIRECT"
  by (simp add: entries_def)

lemma entries_nth: "k < NINDIRECT \<Longrightarrow> entries bs ! k = u32_at bs (4 * k)"
  by (simp add: entries_def)

lemma entries_zeros: "entries (zeros BLOCK_SIZE) = replicate NINDIRECT 0"
  by (intro nth_equalityI) (simp_all add: entries_nth u32_at_zeros)

lemma ind_at_entries: "length bs = BLOCK_SIZE \<Longrightarrow> i < NINDIRECT \<Longrightarrow> ind_at bs i = Inr (entries bs ! i)"
  by (simp add: ind_at_def entries_nth)

lemma u32_at_cong:
  assumes "\<And>j. j < 4 \<Longrightarrow> bs ! (off + j) = bs' ! (off + j)"
  shows "u32_at bs off = u32_at bs' off"
  using assms [of 0] assms [of 1] assms [of 2] assms [of 3] by (simp add: u32_at_def)

lemma ind_put_entries:
  assumes "length bs = BLOCK_SIZE" "i < NINDIRECT"
  obtains bs' where "ind_put bs i w = Inr bs'" "length bs' = BLOCK_SIZE"
    "entries bs' = (entries bs)[i := w]"
proof
  let ?bs = "take (4 * i) bs @ u32_bytes w @ drop (4 * i + 4) bs"
  show "ind_put bs i w = Inr ?bs"
    using assms by (simp add: ind_put_def memcpy_at_ok)
  show "length ?bs = BLOCK_SIZE"
    using assms by simp
  have "u32_at ?bs (4 * k) = (if k = i then w else u32_at bs (4 * k))" if "k < NINDIRECT" for k
  proof (cases "k = i")
    case True
    with assms show ?thesis
      using u32_at_bytes [of "take (4 * i) bs" "4 * i" w "drop (4 * i + 4) bs"] by simp
  next
    case False
    then have "4 * k + 4 \<le> 4 * i \<or> 4 * i + 4 \<le> 4 * k"
      by linarith
    then have "u32_at ?bs (4 * k) = u32_at bs (4 * k)"
      using assms that by (intro u32_at_cong) (auto simp: nth_append min_def)
    with False show ?thesis by simp
  qed
  then show "entries ?bs = (entries bs)[i := w]"
    by (intro nth_equalityI) (simp_all add: entries_nth nth_list_update)
qed

end
