(* ===== verification/Inode_Manager.thy ===== *)
theory Inode_Manager
  imports Inode_Layout
begin

text \<open>
  Class \<open>inode_manager\<close> of \<open>inode_manager.cc\<close>, function by function. The state holds
  the block manager, \<open>_last_alloced\<close>, and an environment for what the code reads from
  outside itself: the results of \<open>time(NULL)\<close> and the bytes found in memory the program has
  not written (a fresh \<open>malloc\<close>, the heap behind a string, a local variable). Each such reading takes the next
  value and advances \<open>env_tick\<close>; nothing is assumed about the values. Local arrays that
  \<open>read_block\<close> fills are given as zeros.
\<close>

section \<open>State\<close>

record env =
  env_clock :: "nat \<Rightarrow> u32"
  env_heap :: "nat \<Rightarrow> nat \<Rightarrow> byte"
  env_stack :: "nat \<Rightarrow> nat \<Rightarrow> u64"
  env_tick :: nat

record inode_manager =
  im_bm :: block_manager
  last_alloced :: u32
  im_env :: env

record attr =
  a_type :: u32
  a_atime :: u32
  a_mtime :: u32
  a_ctime :: u32
  a_size :: u32

abbreviation T_DIR :: u32 where "T_DIR \<equiv> 1"
abbreviation T_FILE :: u32 where "T_FILE \<equiv> 2"
abbreviation T_SYMBOLIC :: u32 where "T_SYMBOLIC \<equiv> 3"

definition tick :: "inode_manager \<Rightarrow> inode_manager" where
  "tick im = im\<lparr>im_env := (im_env im)\<lparr>env_tick := env_tick (im_env im) + 1\<rparr>\<rparr>"

definition time_NULL :: "inode_manager \<Rightarrow> u32 \<times> inode_manager" where
  "time_NULL im = (env_clock (im_env im) (env_tick (im_env im)), tick im)"

definition heap_bytes :: "inode_manager \<Rightarrow> nat \<Rightarrow> byte list \<times> inode_manager" where
  "heap_bytes im n = (map (env_heap (im_env im) (env_tick (im_env im))) [0..<n], tick im)"

section \<open>The inode table\<close>

definition inode_block :: "inode_manager \<Rightarrow> u32 \<Rightarrow> u32" where
  "inode_block im inum = IBLOCK inum (sb_nblocks (bm_sb (im_bm im)))"

definition get_inode :: "inode_manager \<Rightarrow> u32 \<Rightarrow> inode option" where
  "get_inode im inum =
     (if inum > INODE_NUM then None
      else let buf = read_block (im_bm im) (inode_block im inum) (zeros BLOCK_SIZE);
               ino = decode_inode buf
           in if i_type ino = 0 then None else Some ino)"

definition put_inode :: "inode_manager \<Rightarrow> u32 \<Rightarrow> inode option \<Rightarrow> inode_manager" where
  "put_inode im inum ino =
     (case ino of None \<Rightarrow> im
      | Some n \<Rightarrow>
          let buf = read_block (im_bm im) (inode_block im inum) (zeros BLOCK_SIZE);
              buf' = encode_inode n @ drop 424 buf
          in im\<lparr>im_bm := write_block (im_bm im) (inode_block im inum) buf'\<rparr>)"

definition to_alloc :: "u32 \<Rightarrow> nat \<Rightarrow> u32" where
  "to_alloc lst i = (if of_nat i + lst \<ge> INODE_NUM then (of_nat i + lst) mod INODE_NUM + 1
                      else of_nat i + lst)"

function alloc_inode_loop :: "inode_manager \<Rightarrow> inode \<Rightarrow> nat \<Rightarrow> u32 \<times> inode_manager" where
  "alloc_inode_loop im new_node i =
     (if i \<le> INODE_NUM
      then let inum = to_alloc (last_alloced im) i
           in if get_inode im inum = None
              then (inum, (put_inode im inum (Some new_node))\<lparr>last_alloced := inum\<rparr>)
              else alloc_inode_loop im new_node (i + 1)
      else (0, im))"
  by pat_completeness auto
termination
  by (relation "measure (\<lambda>(im, n, i). INODE_NUM + 1 - i)") auto

declare alloc_inode_loop.simps [simp del]

definition alloc_inode :: "inode_manager \<Rightarrow> u32 \<Rightarrow> u32 \<times> inode_manager" where
  "alloc_inode im type =
     (let (t, im1) = time_NULL im;
          new_node = \<lparr>i_type = ucast type, i_size = 0, i_atime = t, i_mtime = t, i_ctime = t,
                      i_blocks = replicate (NDIRECT + 1) 0\<rparr>
      in alloc_inode_loop im1 new_node 1)"

definition free_inode :: "inode_manager \<Rightarrow> u32 \<Rightarrow> inode_manager" where
  "free_inode im inum =
     (if inum > INODE_NUM then im
      else case get_inode im inum of
        None \<Rightarrow> im
      | Some node \<Rightarrow>
          im\<lparr>im_bm := write_block (im_bm im) (inode_block im inum) (zeros BLOCK_SIZE)\<rparr>)"

text \<open>The constructor: \<open>_last_alloced\<close> is not initialised before \<open>alloc_inode\<close> reads
  it, so its first value is an argument of the model.\<close>

definition inode_manager_init :: "u32 \<Rightarrow> env \<Rightarrow> inode_manager res" where
  "inode_manager_init junk e =
     (let im = \<lparr>im_bm = block_manager_init, last_alloced = junk, im_env = e\<rparr>;
          (root_dir, im1) = alloc_inode im T_DIR;
          im2 = im1\<lparr>last_alloced := 0\<rparr>
      in if root_dir \<noteq> 1 then Inl Exit_called else Inr im2)"

section \<open>Reading a file\<close>

function read_direct ::
  "block_manager \<Rightarrow> inode \<Rightarrow> nat \<Rightarrow> nat \<Rightarrow> nat \<Rightarrow> byte list \<Rightarrow> (nat \<times> byte list) res" where
  "read_direct bm node block_count remain_size i out =
     (if i < NDIRECT
      then if is_valid_block bm (i_blocks node ! i)
           then let buf = read_block bm (i_blocks node ! i) (zeros BLOCK_SIZE)
                in if i = block_count - 1 \<and> remain_size \<noteq> 0
                   then res_bind (memcpy_at out (i * BLOCK_SIZE) (take remain_size buf))
                          (\<lambda>out'. Inr (i, out'))
                   else res_bind (memcpy_at out (i * BLOCK_SIZE) (take BLOCK_SIZE buf))
                          (\<lambda>out'. read_direct bm node block_count remain_size (i + 1) out')
           else read_direct bm node block_count remain_size (i + 1) out
      else Inr (i, out))"
  by pat_completeness auto
termination
  by (relation "measure (\<lambda>(bm, node, bc, r, i, out). NDIRECT - i)") auto

function read_indirect ::
  "block_manager \<Rightarrow> byte list \<Rightarrow> nat \<Rightarrow> nat \<Rightarrow> nat \<Rightarrow> byte list \<Rightarrow> byte list res" where
  "read_indirect bm indirect_blocks block_count remain_size i out =
     (if i < block_count - NDIRECT
      then res_bind (ind_at indirect_blocks i) (\<lambda>e.
           if is_valid_block bm e
           then let buf = read_block bm e (zeros BLOCK_SIZE)
                in if i + NDIRECT = block_count - 1 \<and> remain_size \<noteq> 0
                   then memcpy_at out ((i + NDIRECT) * BLOCK_SIZE) (take remain_size buf)
                   else res_bind (memcpy_at out ((i + NDIRECT) * BLOCK_SIZE) (take BLOCK_SIZE buf))
                          (\<lambda>out'. read_indirect bm indirect_blocks block_count remain_size (i + 1) out')
           else read_indirect bm indirect_blocks block_count remain_size (i + 1) out)
      else Inr out)"
  by pat_completeness auto
termination
  by (relation "measure (\<lambda>(bm, ind, bc, r, i, out). bc - NDIRECT - i)") auto

declare read_direct.simps [simp del] read_indirect.simps [simp del]

text \<open>\<open>buf_out\<close> and \<open>size\<close> are the values the caller's variables hold before the
  call; the function returns their new values.\<close>

definition read_file ::
  "inode_manager \<Rightarrow> u32 \<Rightarrow> byte list option \<Rightarrow> int \<Rightarrow> (byte list option \<times> int \<times> inode_manager) res"
where
  "read_file im inum buf_out sz =
     (if inum > INODE_NUM then Inr (buf_out, 0, im)
      else case get_inode im inum of
        None \<Rightarrow> Inr (buf_out, sz, im)
      | Some node \<Rightarrow>
          let block_count0 = unat (i_size node) div BLOCK_SIZE;
              remain_size = unat (i_size node) mod BLOCK_SIZE;
              block_count = (if remain_size \<noteq> 0 \<or> block_count0 = 0 then block_count0 + 1
                             else block_count0)
          in if block_count * BLOCK_SIZE \<ge> 2 ^ 31 then Inl Signed_overflow
             else let (mem, im1) = heap_bytes im (block_count * BLOCK_SIZE)
                  in res_bind (read_direct (im_bm im1) node block_count remain_size 0 mem) (\<lambda>(i, out).
                     res_bind (if i = NDIRECT \<and> is_valid_block (im_bm im1) (i_blocks node ! NDIRECT)
                               then read_indirect (im_bm im1)
                                      (read_block (im_bm im1) (i_blocks node ! NDIRECT) (zeros BLOCK_SIZE))
                                      block_count remain_size 0 out
                               else Inr out) (\<lambda>out'.
                     let (t, im2) = time_NULL im1
                     in Inr (Some out', sint (i_size node),
                             put_inode im2 inum (Some (node\<lparr>i_atime := t\<rparr>))))))"

section \<open>Writing a file\<close>

text \<open>\<open>n\<close> bytes of the memory that starts at the pointer \<open>buf\<close>, from \<open>buf + pos\<close>
  on. \<open>mem\<close> holds all the bytes the caller vouches for.\<close>

definition load :: "byte list \<Rightarrow> nat \<Rightarrow> nat \<Rightarrow> byte list res" where
  "load mem pos n = (if pos + n \<le> length mem then Inr (take n (drop pos mem)) else Inl Out_of_bounds)"

text \<open>The slot at \<open>i\<close> keeps a block in use and otherwise gets a new one.\<close>

definition slot_block :: "block_manager \<Rightarrow> u32 \<Rightarrow> u32 \<times> block_manager" where
  "slot_block bm bid = (if \<not> is_valid_block bm bid then alloc_block bm else (bid, bm))"

function write_direct ::
  "block_manager \<Rightarrow> u32 list \<Rightarrow> byte list \<Rightarrow> byte list \<Rightarrow> int \<Rightarrow> nat \<Rightarrow> nat
    \<Rightarrow> (block_manager \<times> u32 list \<times> byte list \<times> nat \<times> nat) res" where
  "write_direct bm blks arr mem sz pos i =
     (if int pos < sz \<and> i < NDIRECT
      then let (b, bm1) = slot_block bm (blks ! i)
           in res_bind (if int pos + BLOCK_SIZE > sz
                        then res_bind (load mem pos (nat (sz - int pos))) (\<lambda>src.
                             res_bind (memcpy_at arr 0 src) (\<lambda>arr'.
                             Inr (arr', write_block bm1 b arr')))
                        else Inr (arr, bm1)) (\<lambda>(arr1, bm2).
              res_bind (load mem pos BLOCK_SIZE) (\<lambda>src.
              write_direct (write_block bm2 b src) (blks[i := b]) arr1 mem sz
                (pos + BLOCK_SIZE) (i + 1)))
      else Inr (bm, blks, arr, pos, i))"
  by pat_completeness auto
termination
  by (relation "measure (\<lambda>(bm, blks, arr, mem, sz, pos, i). NDIRECT - i)") auto

function write_indirect ::
  "block_manager \<Rightarrow> byte list \<Rightarrow> byte list \<Rightarrow> byte list \<Rightarrow> int \<Rightarrow> nat \<Rightarrow> nat
    \<Rightarrow> (block_manager \<times> byte list) res" where
  "write_indirect bm ind arr mem sz pos i =
     (if int pos < sz \<and> i < NINDIRECT
      then res_bind (ind_at ind i) (\<lambda>e.
           let (b, bm1) = slot_block bm e
           in res_bind (ind_put ind i b) (\<lambda>ind1.
              if int pos + BLOCK_SIZE > sz
              then res_bind (load mem pos (nat (sz - int pos))) (\<lambda>src.
                   res_bind (memcpy_at arr 0 src) (\<lambda>arr'.
                   Inr (write_block bm1 b arr', ind1)))
              else res_bind (load mem pos BLOCK_SIZE) (\<lambda>src.
                   write_indirect (write_block bm1 b src) ind1 arr mem sz
                     (pos + BLOCK_SIZE) (i + 1))))
      else Inr (bm, ind))"
  by pat_completeness auto
termination
  by (relation "measure (\<lambda>(bm, ind, arr, mem, sz, pos, i). NINDIRECT - i)") auto

function free_direct ::
  "block_manager \<Rightarrow> u32 list \<Rightarrow> nat \<Rightarrow> nat \<Rightarrow> (block_manager \<times> u32 list \<times> nat) res" where
  "free_direct bm blks pre_block_num i =
     (if i < NDIRECT \<and> i < pre_block_num
      then if is_valid_block bm (blks ! i)
           then res_bind (free_block bm (blks ! i)) (\<lambda>bm'.
                free_direct bm' (blks[i := 0]) pre_block_num (i + 1))
           else Inr (bm, blks, i)
      else Inr (bm, blks, i))"
  by pat_completeness auto
termination
  by (relation "measure (\<lambda>(bm, blks, p, i). NDIRECT - i)") auto

function free_indirect_loop ::
  "block_manager \<Rightarrow> byte list \<Rightarrow> nat \<Rightarrow> nat \<Rightarrow> (block_manager \<times> byte list) res" where
  "free_indirect_loop bm ind block_count i =
     (if i < block_count
      then res_bind (ind_at ind i) (\<lambda>e.
           res_bind (free_block bm e) (\<lambda>bm'.
           res_bind (ind_put ind i 0) (\<lambda>ind'.
           free_indirect_loop bm' ind' block_count (i + 1))))
      else Inr (bm, ind))"
  by pat_completeness auto
termination
  by (relation "measure (\<lambda>(bm, ind, c, i). c - i)") auto

declare write_direct.simps [simp del] write_indirect.simps [simp del]
  free_direct.simps [simp del] free_indirect_loop.simps [simp del]

definition free_indirect_blocks ::
  "block_manager \<Rightarrow> inode \<Rightarrow> nat \<Rightarrow> (block_manager \<times> inode) res" where
  "free_indirect_blocks bm node begin_block =
     (let block_count = (if unat (i_size node) \<ge> BLOCK_SIZE * NDIRECT
                         then (unat (i_size node) - 1) div BLOCK_SIZE + 1 - NDIRECT else 0)
      in res_bind (free_indirect_loop bm
                     (read_block bm (i_blocks node ! NDIRECT) (zeros BLOCK_SIZE))
                     block_count begin_block) (\<lambda>(bm1, ind).
         if begin_block = 0
         then res_bind (free_block bm1 (i_blocks node ! NDIRECT)) (\<lambda>bm2.
              Inr (bm2, node\<lparr>i_blocks := (i_blocks node)[NDIRECT := 0]\<rparr>))
         else Inr (write_block bm1 (i_blocks node ! NDIRECT) ind, node)))"

text \<open>The blocks of the indirect block: it is read or allocated, filled and written
  back.\<close>

definition write_tail ::
  "block_manager \<Rightarrow> u32 list \<Rightarrow> byte list \<Rightarrow> byte list \<Rightarrow> int \<Rightarrow> nat \<Rightarrow> (block_manager \<times> u32 list) res"
where
  "write_tail bm blks arr mem sz pos =
     (let (b, bm1) = slot_block bm (blks ! NDIRECT);
          ind = (if is_valid_block bm (blks ! NDIRECT)
                 then read_block bm (blks ! NDIRECT) (zeros BLOCK_SIZE)
                 else zeros BLOCK_SIZE)
      in res_bind (write_indirect bm1 ind arr mem sz pos 0) (\<lambda>(bm2, ind').
         Inr (write_block bm2 b ind', blks[NDIRECT := b])))"

text \<open>The first half of \<open>write_file\<close>: the data goes to the direct blocks and the blocks
  of the indirect block, with new blocks where there are none.\<close>

definition write_data ::
  "block_manager \<Rightarrow> u32 list \<Rightarrow> byte list \<Rightarrow> int \<Rightarrow> (block_manager \<times> u32 list) res" where
  "write_data bm blks mem sz =
     res_bind (write_direct bm blks (zeros BLOCK_SIZE) mem sz 0 0) (\<lambda>(bm1, blks1, arr, pos, i).
     if int pos < sz \<and> i = NDIRECT then write_tail bm1 blks1 arr mem sz pos
     else Inr (bm1, blks1))"

text \<open>The second half: the blocks the file no longer needs are freed.\<close>

definition free_unused ::
  "block_manager \<Rightarrow> inode \<Rightarrow> nat \<Rightarrow> int \<Rightarrow> (block_manager \<times> inode) res" where
  "free_unused bm node pre_block_num sz =
     (let used_block_num = c_div (sz - 1) BLOCK_SIZE + 1
      in if used_block_num < 0 then Inl Out_of_bounds
         else res_bind (free_direct bm (i_blocks node) pre_block_num (nat used_block_num))
                (\<lambda>(bm1, blks, i).
              let node1 = node\<lparr>i_blocks := blks\<rparr>
              in if i \<ge> NDIRECT \<and> pre_block_num > NDIRECT
                 then res_bind (free_indirect_blocks bm1 node1 (i - NDIRECT)) (\<lambda>(bm2, node2).
                      Inr (bm2, if i - NDIRECT = 0
                                then node2\<lparr>i_blocks := (i_blocks node2)[NDIRECT := 0]\<rparr>
                                else node2))
                 else Inr (bm1, node1)))"

definition write_file ::
  "inode_manager \<Rightarrow> u32 \<Rightarrow> byte list \<Rightarrow> int \<Rightarrow> inode_manager res" where
  "write_file im inum mem sz =
     (case get_inode im inum of
        None \<Rightarrow> Inr im
      | Some node \<Rightarrow>
          let pre_block_num = (if i_size node = 0 then 1
                               else (unat (i_size node) - 1) div BLOCK_SIZE + 1)
          in res_bind (write_data (im_bm im) (i_blocks node) mem sz) (\<lambda>(bm1, blks).
             res_bind (free_unused bm1 (node\<lparr>i_blocks := blks\<rparr>) pre_block_num sz) (\<lambda>(bm2, node1).
             let (ta, im1) = time_NULL (im\<lparr>im_bm := bm2\<rparr>);
                 (tc, im2) = time_NULL im1;
                 (tm, im3) = time_NULL im2
             in Inr (put_inode im3 inum
                  (Some (node1\<lparr>i_size := word_of_int sz, i_atime := ta, i_ctime := tc,
                                i_mtime := tm\<rparr>))))))"

section \<open>Attributes and removal\<close>

definition get_attr :: "inode_manager \<Rightarrow> u32 \<Rightarrow> attr \<Rightarrow> attr" where
  "get_attr im inum a =
     (if inum > INODE_NUM then a
      else case get_inode im inum of
        None \<Rightarrow> a
      | Some node \<Rightarrow> a\<lparr>a_type := scast (i_type node), a_atime := i_atime node,
                        a_ctime := i_ctime node, a_mtime := i_mtime node, a_size := i_size node\<rparr>)"

function remove_direct ::
  "block_manager \<Rightarrow> inode \<Rightarrow> nat \<Rightarrow> nat \<Rightarrow> (block_manager \<times> nat) res" where
  "remove_direct bm node i free_size =
     (if i < NDIRECT \<and> free_size < unat (i_size node)
      then if is_valid_block bm (i_blocks node ! i)
           then res_bind (free_block bm (i_blocks node ! i)) (\<lambda>bm'.
                remove_direct bm' node (i + 1) (free_size + BLOCK_SIZE))
           else Inr (bm, free_size)
      else Inr (bm, free_size))"
  by pat_completeness auto
termination
  by (relation "measure (\<lambda>(bm, n, i, f). NDIRECT - i)") auto

definition get_indirect_blocks :: "block_manager \<Rightarrow> inode \<Rightarrow> (byte list \<times> nat) res" where
  "get_indirect_blocks bm node =
     (let buf = read_block bm (i_blocks node ! NDIRECT) (zeros BLOCK_SIZE)
      in res_bind (strlen buf) (\<lambda>n. Inr (buf, n div 4)))"

function remove_indirect ::
  "block_manager \<Rightarrow> inode \<Rightarrow> byte list \<Rightarrow> nat \<Rightarrow> nat \<Rightarrow> nat \<Rightarrow> block_manager res" where
  "remove_indirect bm node ind indirect_block_num i free_size =
     (if i < indirect_block_num \<and> free_size < unat (i_size node)
      then res_bind (ind_at ind i) (\<lambda>e.
           if is_valid_block bm e
           then res_bind (free_block bm e) (\<lambda>bm'.
                remove_indirect bm' node ind indirect_block_num (i + 1) (free_size + BLOCK_SIZE))
           else Inr bm)
      else Inr bm)"
  by pat_completeness auto
termination
  by (relation "measure (\<lambda>(bm, n, ind, c, i, f). c - i)") auto

declare remove_direct.simps [simp del] remove_indirect.simps [simp del]

definition remove_file :: "inode_manager \<Rightarrow> u32 \<Rightarrow> inode_manager res" where
  "remove_file im inum =
     (if inum > INODE_NUM then Inr im
      else case get_inode im inum of
        None \<Rightarrow> Inr im
      | Some node \<Rightarrow>
          res_bind (remove_direct (im_bm im) node 0 0) (\<lambda>(bm1, free_size).
          res_bind (if free_size < unat (i_size node)
                    then res_bind (get_indirect_blocks bm1 node) (\<lambda>(ind, indirect_block_num).
                         res_bind (remove_indirect bm1 node ind indirect_block_num 0 free_size)
                           (\<lambda>bm2. free_block bm2 (i_blocks node ! NDIRECT)))
                    else Inr bm1) (\<lambda>bm3.
          Inr (free_inode (im\<lparr>im_bm := bm3\<rparr>) inum))))"

end
