(* ===== verification/Inode_Inv.thy ===== *)
theory Inode_Inv
  imports Inode_Manager
begin

text \<open>
  The invariant of the inode layer and its abstraction. \<open>ids\<close> lists all block numbers an
  inode refers to: its direct blocks, its indirect block and the entries of that; \<open>slots\<close> are
  the data blocks among them and \<open>owned\<close> the numbers that are not 0; \<open>content\<close> is the file; \<open>files\<close> maps each inode number in use to the type
  and the content of its file. \<open>fs_inv\<close> says that every inode holds the blocks its size asks
  for, that they are marked in the bitmap, and that no block is held twice.
\<close>

definition nblk :: "nat \<Rightarrow> nat" where
  "nblk n = (n + 511) div BLOCK_SIZE"

abbreviation isize :: "inode \<Rightarrow> nat" where
  "isize n \<equiv> unat (i_size n)"

definition ind_entries :: "block_manager \<Rightarrow> inode \<Rightarrow> u32 list" where
  "ind_entries bm n = (if i_blocks n ! NDIRECT = 0 then replicate NINDIRECT 0
                       else entries (blk bm (i_blocks n ! NDIRECT)))"

definition ids :: "block_manager \<Rightarrow> inode \<Rightarrow> u32 list" where
  "ids bm n = i_blocks n @ ind_entries bm n"

definition slots :: "block_manager \<Rightarrow> inode \<Rightarrow> u32 list" where
  "slots bm n = take NDIRECT (i_blocks n) @ ind_entries bm n"

definition owned :: "block_manager \<Rightarrow> inode \<Rightarrow> u32 list" where
  "owned bm n = filter (\<lambda>b. b \<noteq> 0) (ids bm n)"

definition slots_ok :: "block_manager \<Rightarrow> nat \<Rightarrow> u32 list \<Rightarrow> bool" where
  "slots_ok bm cnt ss \<longleftrightarrow>
     (\<forall>k<length ss. (k < cnt \<longrightarrow> is_valid_block bm (ss ! k)) \<and> (max 1 cnt \<le> k \<longrightarrow> ss ! k = 0)) \<and>
     (\<forall>b\<in>set ss. b \<noteq> 0 \<longrightarrow> is_valid_block bm b)"

definition inode_ok :: "block_manager \<Rightarrow> inode \<Rightarrow> bool" where
  "inode_ok bm n \<longleftrightarrow> length (i_blocks n) = NDIRECT + 1 \<and> nblk (isize n) \<le> MAXFILE \<and>
     (if NDIRECT < nblk (isize n) then is_valid_block bm (i_blocks n ! NDIRECT)
      else i_blocks n ! NDIRECT = 0) \<and>
     slots_ok bm (nblk (isize n)) (slots bm n) \<and> distinct (owned bm n)"

definition others :: "inode_manager \<Rightarrow> u32 \<Rightarrow> u32 set" where
  "others im i = {b. \<exists>j m. j \<noteq> i \<and> get_inode im j = Some m \<and> b \<in> set (owned (im_bm im) m)}"

definition fs_inv :: "inode_manager \<Rightarrow> bool" where
  "fs_inv im \<longleftrightarrow> bm_inv (im_bm im) \<and> last_alloced im \<le> INODE_NUM \<and> get_inode im 0 = None \<and>
     (\<forall>i n. get_inode im i = Some n \<longrightarrow>
        inode_ok (im_bm im) n \<and> set (owned (im_bm im) n) \<inter> others im i = {})"

definition content :: "block_manager \<Rightarrow> inode \<Rightarrow> byte list" where
  "content bm n = take (isize n) (concat (map (blk bm) (take (nblk (isize n)) (slots bm n))))"

definition files :: "inode_manager \<Rightarrow> u32 \<rightharpoonup> u16 \<times> byte list" where
  "files im i = map_option (\<lambda>n. (i_type n, content (im_bm im) n)) (get_inode im i)"

text \<open>How many blocks an inode holds, its indirect block included.\<close>

definition held :: "inode_manager \<Rightarrow> u32 \<Rightarrow> nat" where
  "held im i = (case get_inode im i of None \<Rightarrow> 0 | Some n \<Rightarrow> length (owned (im_bm im) n))"

section \<open>Block counts\<close>

lemma nblk_0 [simp]: "nblk 0 = 0"
  by (simp add: nblk_def)

lemma nblk_pos: "0 < n \<Longrightarrow> (n - 1) div BLOCK_SIZE + 1 = nblk n"
  by (simp add: nblk_def)

lemma nblk_le_iff: "nblk n \<le> k \<longleftrightarrow> n \<le> BLOCK_SIZE * k"
  unfolding nblk_def by linarith

lemma less_nblk_iff: "k < nblk n \<longleftrightarrow> BLOCK_SIZE * k < n"
  using nblk_le_iff [of n k] by linarith

lemma nblk_eq_0 [simp]: "nblk n = 0 \<longleftrightarrow> n = 0"
  using nblk_le_iff [of n 0] by simp

section \<open>Inodes in the table\<close>

lemma bm_inv_nblocks: "bm_inv bm \<Longrightarrow> sb_nblocks (bm_sb bm) = BLOCK_NUM"
  by (simp add: bm_inv_def block_manager_init_def)

lemma inode_block_eq: "bm_inv (im_bm im) \<Longrightarrow> inode_block im i = 11 + i"
  by (simp add: inode_block_def bm_inv_nblocks IBLOCK_def)

lemma inode_block_range:
  assumes "i \<le> (INODE_NUM :: u32)"
  shows "11 + i < BLOCK_NUM" "\<not> data_block (11 + i)"
proof -
  have "unat i \<le> 1024"
    using assms by (simp add: word_le_nat_alt)
  moreover from this have "unat (11 + i) = 11 + unat i"
    by (simp add: unat_word_ariths)
  ultimately show "11 + i < BLOCK_NUM" "\<not> data_block (11 + i)"
    by (simp_all add: data_block_def word_less_nat_alt word_le_nat_alt)
qed

lemma get_inode_eq:
  assumes "bm_inv (im_bm im)"
  shows "get_inode im i =
    (if i \<le> INODE_NUM \<and> i_type (decode_inode (blk (im_bm im) (11 + i))) \<noteq> 0
     then Some (decode_inode (blk (im_bm im) (11 + i))) else None)"
  using inode_block_range(1) [of i]
  by (auto simp: get_inode_def inode_block_eq [OF assms] read_block_blk Let_def)

lemma get_inode_None_range: "INODE_NUM < i \<Longrightarrow> get_inode im i = None"
  by (simp add: get_inode_def)

lemma get_inode_SomeD:
  assumes "get_inode im i = Some n"
  shows "i \<le> INODE_NUM" "i_type n \<noteq> 0" "length (i_blocks n) = NDIRECT + 1"
  using assms by (auto simp: get_inode_def Let_def split: if_splits)

lemma get_inode_cong: "im_bm im = im_bm im' \<Longrightarrow> get_inode im = get_inode im'"
  by (simp add: get_inode_def inode_block_def fun_eq_iff)

lemma files_cong: "im_bm im = im_bm im' \<Longrightarrow> files im = files im'"
  by (simp add: files_def fun_eq_iff get_inode_cong [of im im'])

lemma fs_inv_cong:
  "im_bm im = im_bm im' \<Longrightarrow> last_alloced im = last_alloced im' \<Longrightarrow> fs_inv im = fs_inv im'"
  by (simp add: fs_inv_def others_def get_inode_cong [of im im'])

text \<open>The table is read from blocks that are no data blocks.\<close>

lemma get_inode_frame:
  assumes "bm_inv (im_bm im)" "bm_inv (im_bm im')"
    and "\<And>b. \<not> data_block b \<Longrightarrow> blk (im_bm im') b = blk (im_bm im) b"
  shows "get_inode im' = get_inode im"
  using assms(3) [OF inode_block_range(2)] by (auto simp: fun_eq_iff get_inode_eq assms(1,2))

lemma put_inode_simps [simp]:
  "last_alloced (put_inode im i n) = last_alloced im"
  "im_env (put_inode im i n) = im_env im"
  by (simp_all add: put_inode_def Let_def split: option.splits)

lemma put_inode_blk:
  assumes "bm_inv (im_bm im)" "i \<le> INODE_NUM" "length (i_blocks n) = NDIRECT + 1"
  shows "blk (im_bm (put_inode im i (Some n))) =
      (blk (im_bm im))(11 + i := encode_inode n @ drop 424 (blk (im_bm im) (11 + i)))"
    and "bm_inv (im_bm (put_inode im i (Some n)))"
    and "using_blocks (im_bm (put_inode im i (Some n))) = using_blocks (im_bm im)"
proof -
  have len: "length (encode_inode n @ drop 424 (blk (im_bm im) (11 + i))) = BLOCK_SIZE"
    using length_blk [OF assms(1)] length_encode_inode [OF assms(3)] by simp
  have put: "im_bm (put_inode im i (Some n)) =
      write_block (im_bm im) (11 + i) (encode_inode n @ drop 424 (blk (im_bm im) (11 + i)))"
    using inode_block_range(1) [OF assms(2)]
    by (simp add: put_inode_def inode_block_eq [OF assms(1)] read_block_blk Let_def)
  show "blk (im_bm (put_inode im i (Some n))) =
      (blk (im_bm im))(11 + i := encode_inode n @ drop 424 (blk (im_bm im) (11 + i)))"
    unfolding put using inode_block_range(1) [OF assms(2)] len by (rule blk_write_full)
  show "bm_inv (im_bm (put_inode im i (Some n)))"
    unfolding put using assms(1) len by (intro bm_inv_write_block) simp_all
  show "using_blocks (im_bm (put_inode im i (Some n))) = using_blocks (im_bm im)"
    unfolding put by simp
qed

lemma get_put_inode:
  assumes "bm_inv (im_bm im)" "i \<le> INODE_NUM" "length (i_blocks n) = NDIRECT + 1" "i_type n \<noteq> 0"
  shows "get_inode (put_inode im i (Some n)) = (get_inode im)(i \<mapsto> n)"
proof
  fix j
  show "get_inode (put_inode im i (Some n)) j = ((get_inode im)(i \<mapsto> n)) j"
    using assms by (auto simp: get_inode_eq put_inode_blk decode_encode_inode)
qed

lemma free_inode_blk:
  assumes "bm_inv (im_bm im)" "get_inode im i = Some n"
  shows "blk (im_bm (free_inode im i)) = (blk (im_bm im))(11 + i := zeros BLOCK_SIZE)"
    and "bm_inv (im_bm (free_inode im i))"
    and "using_blocks (im_bm (free_inode im i)) = using_blocks (im_bm im)"
    and "last_alloced (free_inode im i) = last_alloced im"
proof -
  have i: "i \<le> INODE_NUM"
    using get_inode_SomeD(1) [OF assms(2)] .
  then have free: "free_inode im i = im\<lparr>im_bm := write_block (im_bm im) (11 + i) (zeros BLOCK_SIZE)\<rparr>"
    using assms by (auto simp: free_inode_def inode_block_eq)
  show "blk (im_bm (free_inode im i)) = (blk (im_bm im))(11 + i := zeros BLOCK_SIZE)"
    using inode_block_range(1) [OF i] by (simp add: free blk_write_full)
  show "bm_inv (im_bm (free_inode im i))"
    using assms(1) by (simp add: free bm_inv_write_block)
qed (use assms in \<open>auto simp: free_inode_def\<close>)

lemma get_free_inode:
  assumes "bm_inv (im_bm im)" "get_inode im i = Some n"
  shows "get_inode (free_inode im i) = (get_inode im)(i := None)"
proof
  fix j
  show "get_inode (free_inode im i) j = ((get_inode im)(i := None)) j"
    using assms(1) free_inode_blk [OF assms] by (auto simp: get_inode_eq decode_zeros_type)
qed

section \<open>What depends on which blocks\<close>

lemma is_valid_cong: "using_blocks bm = using_blocks bm' \<Longrightarrow> is_valid_block bm = is_valid_block bm'"
  by (simp add: is_valid_block_def fun_eq_iff)

lemma length_ind_entries [simp]: "length (ind_entries bm n) = NINDIRECT"
  by (simp add: ind_entries_def)

lemma length_slots [simp]: "length (i_blocks n) = NDIRECT + 1 \<Longrightarrow> length (slots bm n) = MAXFILE"
  by (simp add: slots_def)

lemma ind_entries_frame:
  "(i_blocks n ! NDIRECT \<noteq> 0 \<Longrightarrow> blk bm' (i_blocks n ! NDIRECT) = blk bm (i_blocks n ! NDIRECT)) \<Longrightarrow>
   ind_entries bm' n = ind_entries bm n"
  by (simp add: ind_entries_def)

lemma set_ids:
  assumes "length (i_blocks n) = NDIRECT + 1"
  shows "set (ids bm n) = insert (i_blocks n ! NDIRECT) (set (slots bm n))"
proof -
  have "take (Suc NDIRECT) (i_blocks n) = take NDIRECT (i_blocks n) @ [i_blocks n ! NDIRECT]"
    using assms by (intro take_Suc_conv_app_nth) simp
  moreover have "take (Suc NDIRECT) (i_blocks n) = i_blocks n"
    using assms by simp
  ultimately have "set (i_blocks n) = set (take NDIRECT (i_blocks n) @ [i_blocks n ! NDIRECT])"
    by metis
  then show ?thesis
    by (simp add: ids_def slots_def)
qed

lemma owned_indirect:
  "length (i_blocks n) = NDIRECT + 1 \<Longrightarrow> i_blocks n ! NDIRECT \<noteq> 0 \<Longrightarrow> i_blocks n ! NDIRECT \<in> set (owned bm n)"
  by (simp add: owned_def set_ids)

lemma owned_slot: "b \<in> set (slots bm n) \<Longrightarrow> b \<noteq> 0 \<Longrightarrow> b \<in> set (owned bm n)"
  by (auto simp: owned_def slots_def ids_def dest: in_set_takeD)

lemma inode_ok_owned_valid:
  assumes "inode_ok bm n" "b \<in> set (owned bm n)"
  shows "is_valid_block bm b"
  using assms by (auto simp: inode_ok_def owned_def set_ids slots_ok_def split: if_splits)

lemma fs_invD:
  assumes "fs_inv im"
  shows "bm_inv (im_bm im)" "last_alloced im \<le> INODE_NUM" "get_inode im 0 = None"
    "get_inode im i = Some n \<Longrightarrow> inode_ok (im_bm im) n"
    "get_inode im i = Some n \<Longrightarrow> set (owned (im_bm im) n) \<inter> others im i = {}"
  using assms by (simp_all add: fs_inv_def)

lemma others_valid:
  assumes "fs_inv im" "b \<in> others im i"
  shows "is_valid_block (im_bm im) b"
proof -
  obtain j m where "get_inode im j = Some m" "b \<in> set (owned (im_bm im) m)"
    using assms(2) by (auto simp: others_def)
  then show ?thesis
    using fs_invD(4) [OF assms(1)] inode_ok_owned_valid by blast
qed

lemma slots_ok_frame:
  assumes "slots_ok bm cnt ss" "bm_inv bm" "\<And>b. b \<in> set ss \<Longrightarrow> b \<noteq> 0 \<Longrightarrow> is_valid_block bm' b"
  shows "slots_ok bm' cnt ss"
proof -
  have "is_valid_block bm' (ss ! k)" if "k < length ss" "k < cnt" for k
    using that assms not_valid_zero [OF assms(2)] unfolding slots_ok_def by (metis nth_mem)
  then show ?thesis
    using assms by (simp add: slots_ok_def)
qed

lemma slots_nonzero:
  assumes "inode_ok bm n" "bm_inv bm" "b \<in> set (take (nblk (isize n)) (slots bm n))"
  shows "b \<noteq> 0" "b \<in> set (owned bm n)"
proof -
  obtain k where "k < nblk (isize n)" "k < length (slots bm n)" "b = slots bm n ! k"
    using assms(3) by (auto simp: in_set_conv_nth)
  then have "is_valid_block bm b" "b \<in> set (slots bm n)"
    using assms(1) by (auto simp: inode_ok_def slots_ok_def)
  then show "b \<noteq> 0" "b \<in> set (owned bm n)"
    using not_valid_zero [OF assms(2)] owned_slot by (metis, metis)
qed

lemma inode_frame:
  assumes "inode_ok bm n" "bm_inv bm"
    and "\<And>b. b \<in> set (owned bm n) \<Longrightarrow> blk bm' b = blk bm b \<and> is_valid_block bm' b"
  shows "slots bm' n = slots bm n" "owned bm' n = owned bm n" "inode_ok bm' n"
    "content bm' n = content bm n"
proof -
  have len: "length (i_blocks n) = NDIRECT + 1"
    using assms(1) by (simp add: inode_ok_def)
  have "ind_entries bm' n = ind_entries bm n"
    using assms(3) [OF owned_indirect [OF len]] by (intro ind_entries_frame) blast
  then show sl: "slots bm' n = slots bm n" and ow: "owned bm' n = owned bm n"
    by (simp_all add: owned_def slots_def ids_def)
  have "slots_ok bm' (nblk (isize n)) (slots bm n)"
  proof (rule slots_ok_frame [OF _ assms(2)])
    show "slots_ok bm (nblk (isize n)) (slots bm n)"
      using assms(1) by (simp add: inode_ok_def)
    show "is_valid_block bm' b" if "b \<in> set (slots bm n)" "b \<noteq> 0" for b
      using assms(3) [OF owned_slot [OF that]] by blast
  qed
  moreover have "is_valid_block bm' (i_blocks n ! NDIRECT)" if "NDIRECT < nblk (isize n)"
  proof -
    have "is_valid_block bm (i_blocks n ! NDIRECT)"
      using that assms(1) by (simp add: inode_ok_def)
    then have "i_blocks n ! NDIRECT \<noteq> 0"
      using not_valid_zero [OF assms(2)] by metis
    then show ?thesis
      using assms(3) [OF owned_indirect [OF len]] by blast
  qed
  ultimately show "inode_ok bm' n"
    using assms by (simp add: inode_ok_def sl ow)
  have "map (blk bm') (take (nblk (isize n)) (slots bm n))
      = map (blk bm) (take (nblk (isize n)) (slots bm n))"
    using assms(3) slots_nonzero(2) [OF assms(1,2)] by (intro map_cong) auto
  then show "content bm' n = content bm n"
    unfolding content_def sl by (simp only:)
qed

section \<open>Replacing one inode\<close>

text \<open>
  The common step of every operation: the table changes at \<open>i\<close> only, the blocks of the other
  inodes are left alone, and the new inode is well formed and holds none of their blocks.
\<close>

lemma fs_inv_update:
  assumes inv: "fs_inv im" and bm': "bm_inv (im_bm im')" and last: "last_alloced im' \<le> INODE_NUM"
    and tab: "get_inode im' = (get_inode im)(i := x)" and i: "i \<noteq> 0"
    and oth: "\<And>b. b \<in> others im i \<Longrightarrow>
      blk (im_bm im') b = blk (im_bm im) b \<and> is_valid_block (im_bm im') b"
    and new: "\<And>n. x = Some n \<Longrightarrow>
      inode_ok (im_bm im') n \<and> set (owned (im_bm im') n) \<inter> others im i = {}"
  shows "fs_inv im'" "files im' = (files im)(i := map_option (\<lambda>n. (i_type n, content (im_bm im') n)) x)"
proof -
  have old: "inode_ok (im_bm im) m" "bm_inv (im_bm im)"
    "\<And>b. b \<in> set (owned (im_bm im) m) \<Longrightarrow>
      blk (im_bm im') b = blk (im_bm im) b \<and> is_valid_block (im_bm im') b"
    if "get_inode im j = Some m" "j \<noteq> i" for j m
    using that inv oth by (auto simp: fs_inv_def others_def)
  have frame: "owned (im_bm im') m = owned (im_bm im) m" "inode_ok (im_bm im') m"
    "content (im_bm im') m = content (im_bm im) m" if "get_inode im j = Some m" "j \<noteq> i" for j m
    using inode_frame [OF old(1,2) [OF that], of "im_bm im'"] old(3) [OF that] by blast+
  have others_i: "others im' i = others im i"
    using frame(1) by (auto simp: others_def tab)
  have others_j: "others im' j \<subseteq> others im j \<union> {b. \<exists>n. x = Some n \<and> b \<in> set (owned (im_bm im') n)}" for j
    using frame(1) by (auto simp: others_def tab split: if_splits)
  have "set (owned (im_bm im') m) \<inter> others im' j = {}" if "get_inode im j = Some m" "j \<noteq> i" for j m
  proof -
    have "set (owned (im_bm im) m) \<inter> others im j = {}"
      using inv that by (simp add: fs_inv_def)
    moreover have "set (owned (im_bm im) m) \<subseteq> others im i"
      using that by (auto simp: others_def)
    moreover have "set (owned (im_bm im') n) \<inter> others im i = {}" if "x = Some n" for n
      using new that by blast
    ultimately show ?thesis
      unfolding frame(1) [OF that] using others_j [of j] by fast
  qed
  then show "fs_inv im'"
    using inv bm' last i new frame(2) others_i by (auto simp: fs_inv_def tab)
  show "files im' = (files im)(i := map_option (\<lambda>n. (i_type n, content (im_bm im') n)) x)"
    using frame(3) by (auto simp: fun_eq_iff files_def tab map_option_case split: option.splits)
qed

lemma fs_inv_last_alloced: "fs_inv im \<Longrightarrow> l \<le> INODE_NUM \<Longrightarrow> fs_inv (im\<lparr>last_alloced := l\<rparr>)"
  by (simp add: fs_inv_def others_def get_inode_cong [of "im\<lparr>last_alloced := l\<rparr>" im])

lemma files_last_alloced [simp]: "files (im\<lparr>last_alloced := l\<rparr>) = files im"
  by (rule files_cong) simp

text \<open>Writing inode \<open>n\<close> at number \<open>i\<close> at the end of an operation that has prepared
  its blocks in \<open>im1\<close>.\<close>

lemma commit_inode:
  assumes inv: "fs_inv im" and i: "i \<noteq> 0" "i \<le> INODE_NUM"
    and bm: "bm_inv (im_bm im1)" and lst: "last_alloced im1 \<le> INODE_NUM"
    and tab: "\<And>b. \<not> data_block b \<Longrightarrow> blk (im_bm im1) b = blk (im_bm im) b"
    and oth: "\<And>b. b \<in> others im i \<Longrightarrow>
      blk (im_bm im1) b = blk (im_bm im) b \<and> is_valid_block (im_bm im1) b"
    and ok: "inode_ok (im_bm im1) n" and type: "i_type n \<noteq> 0"
    and dis: "set (owned (im_bm im1) n) \<inter> others im i = {}"
  shows "fs_inv (put_inode im1 i (Some n))"
    "files (put_inode im1 i (Some n)) = (files im)(i \<mapsto> (i_type n, content (im_bm im1) n))"
    "bm_free (im_bm (put_inode im1 i (Some n))) = bm_free (im_bm im1)"
    "held (put_inode im1 i (Some n)) i = length (owned (im_bm im1) n)"
proof -
  let ?im = "put_inode im1 i (Some n)"
  have len: "length (i_blocks n) = NDIRECT + 1"
    using ok by (simp add: inode_ok_def)
  note put = put_inode_blk [OF bm i(2) len]
  have keep: "blk (im_bm ?im) b = blk (im_bm im1) b \<and> is_valid_block (im_bm ?im) b"
    if "is_valid_block (im_bm im1) b" for b
    using that valid_data_block [OF bm that] inode_block_range(2) [OF i(2)] put is_valid_cong [OF put(3)]
    by auto
  have frame: "owned (im_bm ?im) n = owned (im_bm im1) n" "inode_ok (im_bm ?im) n"
    "content (im_bm ?im) n = content (im_bm im1) n"
    using inode_frame [OF ok bm keep [OF inode_ok_owned_valid [OF ok]]] by blast+
  have tab': "get_inode ?im = (get_inode im)(i := Some n)"
    using get_put_inode [OF bm i(2) len type] get_inode_frame [OF fs_invD(1) [OF inv] bm tab] by simp
  have oth': "blk (im_bm ?im) b = blk (im_bm im) b \<and> is_valid_block (im_bm ?im) b" if "b \<in> others im i" for b
    using oth [OF that] keep [of b] by simp
  have "last_alloced ?im \<le> INODE_NUM" and new: "inode_ok (im_bm ?im) m \<and> set (owned (im_bm ?im) m) \<inter> others im i = {}"
    if "Some n = Some m" for m
    using lst frame(1,2) dis that by simp_all
  note upd = fs_inv_update [OF inv put(2) this(1) tab' i(1) oth' new]
  show "fs_inv ?im" "files ?im = (files im)(i \<mapsto> (i_type n, content (im_bm im1) n))"
    using upd frame(3) by simp_all
  show "bm_free (im_bm ?im) = bm_free (im_bm im1)"
    using put(3) by (simp add: bm_free_def free_set_def)
  show "held ?im i = length (owned (im_bm im1) n)"
    by (simp add: held_def tab' frame(1))
qed

end
