(* ===== verification/Block_Lists.thy ===== *)
theory Block_Lists
  imports Inode_Inv
begin

text \<open>
  Reasoning about a list of block numbers under change. The write and remove loops turn the list of
  numbers an inode refers to into another one, entry by entry: they put a new block in an empty
  entry, overwrite the block of an entry, or free it. \<open>good\<close> is the invariant of such a list
  and \<open>evolves\<close> relates the states before and after any number of steps; the steps and
  their composition are proved here once.
\<close>

abbreviation nz :: "u32 list \<Rightarrow> nat" where
  "nz A \<equiv> length (filter (\<lambda>b. b \<noteq> 0) A)"

definition good :: "block_manager \<Rightarrow> u32 list \<Rightarrow> bool" where
  "good bm A \<longleftrightarrow> bm_inv bm \<and> (\<forall>a\<in>set A. a \<noteq> 0 \<longrightarrow> is_valid_block bm a) \<and>
     distinct (filter (\<lambda>b. b \<noteq> 0) A)"

text \<open>Entries outside \<open>I\<close> keep their number and their block; blocks in use that are not in
  the list, and all blocks that are no data blocks, keep their content; and the blocks of the
  list and the free blocks are together as many as before.\<close>

definition evolves ::
  "block_manager \<Rightarrow> u32 list \<Rightarrow> block_manager \<Rightarrow> u32 list \<Rightarrow> nat set \<Rightarrow> bool" where
  "evolves bm A bm' A' I \<longleftrightarrow> good bm' A' \<and> length A' = length A \<and>
     (\<forall>k<length A. k \<notin> I \<longrightarrow> A' ! k = A ! k \<and> (A ! k \<noteq> 0 \<longrightarrow> blk bm' (A ! k) = blk bm (A ! k))) \<and>
     (\<forall>b. is_valid_block bm b \<and> b \<notin> set A \<longrightarrow>
        is_valid_block bm' b \<and> b \<notin> set A' \<and> blk bm' b = blk bm b) \<and>
     (\<forall>b. \<not> data_block b \<longrightarrow> blk bm' b = blk bm b) \<and>
     bm_free bm' + nz A' = bm_free bm + nz A"

lemma evolvesD:
  assumes "evolves bm A bm' A' I"
  shows "good bm' A'" "length A' = length A"
    "\<And>k. k < length A \<Longrightarrow> k \<notin> I \<Longrightarrow> A' ! k = A ! k"
    "\<And>k. k < length A \<Longrightarrow> k \<notin> I \<Longrightarrow> A ! k \<noteq> 0 \<Longrightarrow> blk bm' (A ! k) = blk bm (A ! k)"
    "\<And>b. is_valid_block bm b \<Longrightarrow> b \<notin> set A \<Longrightarrow>
       is_valid_block bm' b \<and> b \<notin> set A' \<and> blk bm' b = blk bm b"
    "\<And>b. \<not> data_block b \<Longrightarrow> blk bm' b = blk bm b"
    "bm_free bm' + nz A' = bm_free bm + nz A"
  using assms by (simp_all add: evolves_def)

lemma evolves_refl: "good bm A \<Longrightarrow> evolves bm A bm A I"
  by (simp add: evolves_def)

lemma evolves_trans:
  assumes "evolves bm A bm1 A1 I" "evolves bm1 A1 bm2 A2 J" "I \<union> J \<subseteq> K"
  shows "evolves bm A bm2 A2 K"
proof -
  have "k \<notin> I \<and> k \<notin> J" if "k \<notin> K" for k
    using assms(3) that by blast
  then show ?thesis
    using assms(1,2) unfolding evolves_def by auto
qed

lemma evolves_mono: "evolves bm A bm' A' I \<Longrightarrow> I \<subseteq> J \<Longrightarrow> evolves bm A bm' A' J"
  by (auto simp: evolves_def)

section \<open>Lists with empty entries\<close>

lemma distinct_filter_iff:
  "distinct (filter (\<lambda>b. b \<noteq> 0) A) \<longleftrightarrow>
   (\<forall>i<length A. \<forall>j<length A. i \<noteq> j \<and> A ! i = A ! j \<longrightarrow> A ! i = 0)"
proof (induction A)
  case (Cons a A)
  then show ?case
    by (auto simp: All_less_Suc2 in_set_conv_nth)
qed simp

lemma distinct_filter_update:
  assumes "distinct (filter (\<lambda>b. b \<noteq> 0) A)" "b = 0 \<or> b \<notin> set A" "i < length A"
  shows "distinct (filter (\<lambda>b. b \<noteq> 0) (A[i := b]))"
  using assms unfolding distinct_filter_iff by (auto simp: nth_list_update [OF assms(3)])

lemma nz_update:
  assumes "i < length A"
  shows "nz (A[i := b]) + (if A ! i = 0 then 0 else 1) = nz A + (if b = 0 then 0 else 1)"
proof -
  have "nz A = nz (take i A @ A ! i # drop (Suc i) A)"
    using id_take_nth_drop [OF assms] by simp
  then show ?thesis
    by (simp add: upd_conv_take_nth_drop [OF assms])
qed

lemma good_entry:
  assumes "good bm A" "i < length A"
  shows "A ! i \<noteq> 0 \<Longrightarrow> is_valid_block bm (A ! i)" "A ! i \<noteq> 0 \<Longrightarrow> data_block (A ! i)"
    "A ! i = 0 \<Longrightarrow> \<not> is_valid_block bm (A ! i)"
    "j < length A \<Longrightarrow> i \<noteq> j \<Longrightarrow> A ! j = A ! i \<Longrightarrow> A ! i = 0"
proof -
  have valid: "is_valid_block bm (A ! i)" if "A ! i \<noteq> 0"
    using assms that by (simp add: good_def)
  show "is_valid_block bm (A ! i)" "data_block (A ! i)" if "A ! i \<noteq> 0"
    using valid [OF that] valid_data_block assms(1) by (auto simp: good_def)
  show "\<not> is_valid_block bm (A ! i)" if "A ! i = 0"
    using that assms(1) by (simp add: good_def)
  show "A ! i = 0" if "j < length A" "i \<noteq> j" "A ! j = A ! i"
    using assms that unfolding good_def distinct_filter_iff by metis
qed

section \<open>The steps\<close>

text \<open>Entry \<open>i\<close> gets a block if it has none.\<close>

lemma slot_step:
  assumes good: "good bm A" and i: "i < length A" and space: "A ! i = 0 \<Longrightarrow> bm_free bm \<noteq> 0"
  obtains b bm' where "slot_block bm (A ! i) = (b, bm')" "b \<noteq> 0"
    "evolves bm A bm' (A[i := b]) {i}" "bm_free bm' + (if A ! i = 0 then 1 else 0) = bm_free bm"
    "blk bm' = blk bm" "A ! i \<noteq> 0 \<longrightarrow> b = A ! i"
proof (cases "A ! i = 0")
  case False
  then have "slot_block bm (A ! i) = (A ! i, bm)"
    using good_entry(1) [OF good i] by (simp add: slot_block_def)
  then show ?thesis
    using that [of "A ! i" bm] False evolves_refl [OF good] by simp
next
  case True
  obtain b bm' where ab: "alloc_block bm = (b, bm')"
    by fastforce
  have inv: "bm_inv bm"
    using good by (simp add: good_def)
  note al = alloc_block_spec [OF inv space [OF True] ab]
  have b: "b \<noteq> 0" "b \<notin> set A"
    using al data_block_range(2) good by (auto simp: good_def)
  have "slot_block bm (A ! i) = (b, bm')"
    using good_entry(3) [OF good i True] ab by (simp add: slot_block_def)
  moreover have "good bm' (A[i := b])"
    using good al b(2) i distinct_filter_update [of A b i] set_update_subset_insert [of A i b]
    by (auto simp: good_def)
  then have "evolves bm A bm' (A[i := b]) {i}"
    using al b nz_update [OF i, of b] True set_update_subset_insert [of A i b]
    by (auto simp: evolves_def)
  ultimately show ?thesis
    using that [of b bm'] al b(1) True by simp
qed

text \<open>The block of entry \<open>i\<close> is overwritten.\<close>

lemma blk_step:
  assumes good: "good bm A" and i: "i < length A" "A ! i \<noteq> 0" and d: "length d = BLOCK_SIZE"
  shows "evolves bm A (write_block bm (A ! i) d) A {i}"
    "blk (write_block bm (A ! i) d) = (blk bm)(A ! i := d)"
    "bm_free (write_block bm (A ! i) d) = bm_free bm"
proof -
  note data = good_entry(2) [OF good i]
  show blk: "blk (write_block bm (A ! i) d) = (blk bm)(A ! i := d)"
    using data_block_range(1) [OF data] d by (rule blk_write_full)
  have ub: "using_blocks (write_block bm (A ! i) d) = using_blocks bm"
    by simp
  show free: "bm_free (write_block bm (A ! i) d) = bm_free bm"
    by (simp add: bm_free_def free_set_def ub)
  have "good (write_block bm (A ! i) d) A"
    using good d is_valid_cong [OF ub] bm_inv_write_block by (auto simp: good_def)
  moreover have "A ! k \<noteq> A ! i" if "k < length A" "k \<noteq> i" for k
    using good_entry(4) [OF good i(1), of k] i(2) that by auto
  ultimately show "evolves bm A (write_block bm (A ! i) d) A {i}"
    using is_valid_cong [OF ub] data i free by (auto simp: evolves_def blk)
qed

text \<open>Entry \<open>i\<close> is emptied and its block given back.\<close>

lemma free_step:
  assumes good: "good bm A" and i: "i < length A" "A ! i \<noteq> 0"
  obtains bm' where "free_block bm (A ! i) = Inr bm'" "evolves bm A bm' (A[i := 0]) {i}"
proof -
  have inv: "bm_inv bm"
    using good by (simp add: good_def)
  obtain bm' where bm': "free_block bm (A ! i) = Inr bm'" "bm_inv bm'"
    "is_valid_block bm' = (is_valid_block bm)(A ! i := False)"
    "\<And>j. j \<noteq> A ! i \<Longrightarrow> blk bm' j = blk bm j" "bm_free bm' = Suc (bm_free bm)"
    using free_block_spec [OF inv good_entry(1) [OF good i]] by auto
  have other: "A ! k \<noteq> A ! i" if "k < length A" "k \<noteq> i" for k
    using good_entry(4) [OF good i(1), of k] i(2) that by auto
  have "is_valid_block bm' a" if a: "a \<in> set (A[i := 0])" "a \<noteq> 0" for a
  proof -
    obtain k where "k < length A" "a = A[i := 0] ! k"
      using a(1) unfolding in_set_conv_nth by auto
    then have "k < length A" "k \<noteq> i" "a = A ! k"
      using a(2) by (auto simp: nth_list_update [OF i(1)] split: if_splits)
    then show ?thesis
      using other bm'(3) good_entry(1) [OF good] a(2) by auto
  qed
  then have "good bm' (A[i := 0])"
    using bm'(2) good i(1) distinct_filter_update [of A 0 i] by (auto simp: good_def)
  moreover have "b \<noteq> A ! i \<and> b \<notin> set (A[i := 0])" if "is_valid_block bm b" "b \<notin> set A" for b
    using that i not_valid_zero [OF inv] set_update_subset_insert [of A i 0] nth_mem [OF i(1)] by auto
  moreover have "b \<noteq> A ! i" if "\<not> data_block b" for b
    using that good_entry(2) [OF good i] by blast
  ultimately have "evolves bm A bm' (A[i := 0]) {i}"
    using other bm'(3-5) nz_update [OF i(1), of 0] i(2)
    unfolding evolves_def by (intro conjI allI impI) auto
  then show ?thesis
    using that bm'(1) by blast
qed

text \<open>The two steps of a write together.\<close>

lemma fill_step:
  assumes good: "good bm A" and i: "i < length A" and space: "A ! i = 0 \<Longrightarrow> bm_free bm \<noteq> 0"
  obtains b bm1 where "slot_block bm (A ! i) = (b, bm1)" "b \<noteq> 0"
    "\<forall>d. length d = BLOCK_SIZE \<longrightarrow> evolves bm A (write_block bm1 b d) (A[i := b]) {i} \<and>
       blk (write_block bm1 b d) b = d \<and>
       bm_free (write_block bm1 b d) + (if A ! i = 0 then 1 else 0) = bm_free bm"
proof -
  obtain b bm1 where s: "slot_block bm (A ! i) = (b, bm1)" "b \<noteq> 0"
    "evolves bm A bm1 (A[i := b]) {i}" "bm_free bm1 + (if A ! i = 0 then 1 else 0) = bm_free bm"
    using slot_step [OF assms] by metis
  have "evolves bm A (write_block bm1 b d) (A[i := b]) {i} \<and> blk (write_block bm1 b d) b = d \<and>
       bm_free (write_block bm1 b d) + (if A ! i = 0 then 1 else 0) = bm_free bm"
    if "length d = BLOCK_SIZE" for d
    using blk_step [OF evolvesD(1) [OF s(3)], of i d] evolves_trans [OF s(3), of _ _ "{i}" "{i}"] that i s(2,4)
    by simp
  then show ?thesis
    using that s by blast
qed

text \<open>How many entries from \<open>i\<close> up to \<open>j\<close> have no block yet.\<close>

definition need :: "u32 list \<Rightarrow> nat \<Rightarrow> nat \<Rightarrow> nat" where
  "need A i j = length (filter (\<lambda>b. b = 0) (take (j - i) (drop i A)))"

lemma need_empty [simp]: "j \<le> i \<Longrightarrow> need A i j = 0"
  by (simp add: need_def)

lemma need_step:
  assumes "i < j" "i < length A"
  shows "need A i j = (if A ! i = 0 then 1 else 0) + need A (Suc i) j"
proof -
  have "drop i A = A ! i # drop (Suc i) A" "j - i = Suc (j - Suc i)"
    using assms by (simp_all add: Cons_nth_drop_Suc)
  then show ?thesis
    by (simp add: need_def)
qed

lemma need_update [simp]: "k < i \<Longrightarrow> need (A[k := b]) i j = need A i j"
  by (simp add: need_def)

lemma need_cong:
  assumes "length A = length B" "\<And>k. i \<le> k \<Longrightarrow> k < j \<Longrightarrow> k < length A \<Longrightarrow> A ! k = B ! k"
  shows "need A i j = need B i j"
proof -
  have "take (j - i) (drop i A) = take (j - i) (drop i B)"
    using assms by (intro nth_equalityI) auto
  then show ?thesis by (simp add: need_def)
qed

text \<open>A prefix of entries that have a block does not count.\<close>

lemma need_le:
  assumes "\<And>k. i \<le> k \<Longrightarrow> k < m \<Longrightarrow> k < length A \<Longrightarrow> A ! k \<noteq> 0" "i \<le> m"
  shows "need A i j \<le> j - m"
proof (cases "j \<le> m")
  case True
  have "filter (\<lambda>b. b = 0) (take (j - i) (drop i A)) = []"
    using assms True by (auto simp: filter_empty_conv in_set_conv_nth)
  then show ?thesis by (simp add: need_def)
next
  case False
  have "take (j - i) (drop i A) = take (m - i) (drop i A) @ take (j - m) (drop m A)"
    using False assms(2) take_add [of "m - i" "j - m" "drop i A"] by simp
  moreover have "filter (\<lambda>b. b = 0) (take (m - i) (drop i A)) = []"
    using assms by (auto simp: filter_empty_conv in_set_conv_nth)
  ultimately show ?thesis
    using length_filter_le [of "\<lambda>b. b = 0" "take (j - m) (drop m A)"] by (simp add: need_def)
qed

text \<open>Blocks of other inodes are foreign to the list of an inode.\<close>

lemma foreign_blocks:
  assumes inv: "fs_inv im" and n: "get_inode im i = Some n"
    and ev: "evolves (im_bm im) (ids (im_bm im) n) bm' A' I" and b: "b \<in> others im i"
  shows "is_valid_block bm' b" "b \<notin> set A'" "blk bm' b = blk (im_bm im) b"
proof -
  have valid: "is_valid_block (im_bm im) b" "b \<notin> set (owned (im_bm im) n)"
    using others_valid [OF inv b] fs_invD(5) [OF inv n] b by auto
  then have "b \<notin> set (ids (im_bm im) n)"
    using fs_invD(1) [OF inv] by (auto simp: owned_def)
  then show "is_valid_block bm' b" "b \<notin> set A'" "blk bm' b = blk (im_bm im) b"
    using evolvesD(5) [OF ev valid(1)] by blast+
qed

end
