(* ===== verification/Inode_Alloc.thy ===== *)
theory Inode_Alloc
  imports Inode_Inv
begin

text \<open>
  Allocation of inodes: the order in which \<open>alloc_inode\<close> tries the numbers, what it does to
  the file system, and the constructor of \<open>inode_manager\<close>.
\<close>

section \<open>The order of the search\<close>

lemma unat_of_nat_add:
  assumes "unat (lst :: u32) \<le> 1024" "i \<le> 1024"
  shows "unat (of_nat i + lst) = i + unat lst"
  using assms by (simp add: unat_word_ariths unat_of_nat)

lemma to_alloc_nat:
  assumes "lst \<le> INODE_NUM" "i \<le> INODE_NUM"
  shows "unat (to_alloc lst i) =
    (if i + unat lst \<ge> 1024 then (i + unat lst) mod 1024 + 1 else i + unat lst)"
proof -
  have "unat (of_nat i + lst) = i + unat lst"
    using assms by (intro unat_of_nat_add) (simp_all add: word_le_nat_alt)
  moreover have "unat ((of_nat i + lst) mod 1024 + 1) = (i + unat lst) mod 1024 + 1"
    using calculation by (simp add: unat_word_ariths unat_mod_distrib)
  ultimately show ?thesis
    by (simp add: to_alloc_def word_le_nat_alt)
qed

lemma to_alloc_range:
  assumes "lst \<le> INODE_NUM" "1 \<le> i" "i \<le> INODE_NUM"
  shows "to_alloc lst i \<noteq> 0" "to_alloc lst i \<le> INODE_NUM"
proof -
  have "1 \<le> unat (to_alloc lst i) \<and> unat (to_alloc lst i) \<le> 1024"
    using assms mod_less_divisor [of 1024 "i + unat lst"]
    by (auto simp: to_alloc_nat simp del: mod_less_divisor)
  then show "to_alloc lst i \<noteq> 0" "to_alloc lst i \<le> INODE_NUM"
    by (auto simp: word_le_nat_alt)
qed

lemma alloc_inode_loop_find:
  "alloc_inode_loop im n i =
     (case find (\<lambda>k. get_inode im (to_alloc (last_alloced im) k) = None) [i..<INODE_NUM + 1] of
        None \<Rightarrow> (0, im)
      | Some k \<Rightarrow> (to_alloc (last_alloced im) k,
          (put_inode im (to_alloc (last_alloced im) k) (Some n))
            \<lparr>last_alloced := to_alloc (last_alloced im) k\<rparr>))"
proof (induction im n i rule: alloc_inode_loop.induct)
  case (1 im n i)
  show ?case
  proof (cases "i \<le> INODE_NUM")
    case True
    then have "[i..<INODE_NUM + 1] = i # [i + 1..<INODE_NUM + 1]"
      by (simp add: upt_conv_Cons del: upt_Suc)
    then show ?thesis
      using "1.IH" [OF True refl] True
      by (subst alloc_inode_loop.simps) (simp add: Let_def del: upt_Suc)
  next
    case False
    then show ?thesis
      by (subst alloc_inode_loop.simps) simp
  qed
qed

text \<open>Every number up to 1023 is tried whatever \<open>_last_alloced\<close> is.\<close>

lemma to_alloc_covers:
  assumes "lst \<le> INODE_NUM" "j \<noteq> 0" "j < 1024"
  obtains k where "1 \<le> k" "k \<le> INODE_NUM" "to_alloc lst k = j"
proof -
  have lst: "unat lst \<le> 1024" and j: "1 \<le> unat j" "unat j < 1024"
    using assms by (simp_all add: word_le_nat_alt word_less_nat_alt Suc_le_eq unat_gt_0)
  define k where "k = (if unat lst < unat j then unat j - unat lst
     else if unat lst = 1024 then (if unat j = 1 then 1024 else unat j - 1)
     else 1023 + unat j - unat lst)"
  have k: "1 \<le> k" "k \<le> INODE_NUM"
    using lst j by (auto simp: k_def)
  have "(if k + unat lst \<ge> 1024 then (k + unat lst) mod 1024 + 1 else k + unat lst) = unat j"
    using lst j by (auto simp: k_def mod_if)
  then have "unat (to_alloc lst k) = unat j"
    using k assms(1) by (simp add: to_alloc_nat)
  then show ?thesis
    using that k by (simp add: word_unat_eq_iff)
qed

text \<open>Number 1024 comes only from the wrap-around, when the sum of the counter and the last number is
  2047: this happens when the last number is 1023 or 1024, and with no other.\<close>

lemma to_alloc_1024:
  assumes "lst \<le> INODE_NUM" "1 \<le> k" "k \<le> INODE_NUM"
  shows "to_alloc lst k = INODE_NUM \<longleftrightarrow> k + unat lst = 2047"
proof -
  have "unat lst \<le> 1024"
    using assms(1) by (simp add: word_le_nat_alt)
  then have "unat (to_alloc lst k) = 1024 \<longleftrightarrow> k + unat lst = 2047"
    using assms by (auto simp: to_alloc_nat mod_if)
  then show ?thesis
    by (simp add: word_unat_eq_iff)
qed

lemma to_alloc_tries_1024:
  assumes "lst \<le> INODE_NUM"
  shows "(\<exists>k. 1 \<le> k \<and> k \<le> INODE_NUM \<and> to_alloc lst k = INODE_NUM) \<longleftrightarrow> 1023 \<le> lst"
proof -
  have "unat lst \<le> 1024"
    using assms by (simp add: word_le_nat_alt)
  then have "(\<exists>k. 1 \<le> k \<and> k \<le> INODE_NUM \<and> k + unat lst = 2047) \<longleftrightarrow> 1023 \<le> unat lst"
    by (auto intro: exI [of _ "2047 - unat lst"])
  then show ?thesis
    using to_alloc_1024 [OF assms] by (auto simp: word_le_nat_alt)
qed

section \<open>Effect on the file system\<close>

definition new_inode :: "u32 \<Rightarrow> u32 \<Rightarrow> inode" where
  "new_inode type t = \<lparr>i_type = ucast type, i_size = 0, i_atime = t, i_mtime = t, i_ctime = t,
                       i_blocks = replicate (NDIRECT + 1) 0\<rparr>"

lemma new_inode_simps [simp]:
  "i_type (new_inode type t) = ucast type" "isize (new_inode type t) = 0"
  "length (i_blocks (new_inode type t)) = 101" "owned bm (new_inode type t) = []"
  "content bm (new_inode type t) = []"
  by (simp_all add: new_inode_def owned_def ids_def ind_entries_def content_def)

lemma inode_ok_new [simp]: "inode_ok bm (new_inode type t)"
  by (simp add: inode_ok_def slots_ok_def) (simp add: new_inode_def slots_def ind_entries_def nth_append)

lemma tick_simps [simp]:
  "im_bm (tick im) = im_bm im" "last_alloced (tick im) = last_alloced im"
  "get_inode (tick im) = get_inode im" "files (tick im) = files im" "fs_inv (tick im) = fs_inv im"
  using get_inode_cong [of "tick im" im] files_cong [of "tick im" im] fs_inv_cong [of "tick im" im]
  by (simp_all add: tick_def)

lemma alloc_inode_eq:
  "alloc_inode im type =
     alloc_inode_loop (tick im) (new_inode type (fst (time_NULL im))) 1"
  by (simp add: alloc_inode_def time_NULL_def new_inode_def)

lemma put_new_inode:
  fixes t :: u32
  assumes "fs_inv im" "get_inode im i = None" "i \<noteq> 0" "i \<le> INODE_NUM" "(ucast type :: u16) \<noteq> 0"
  defines "im' \<equiv> (put_inode im i (Some (new_inode type t)))\<lparr>last_alloced := i\<rparr>"
  shows "fs_inv im'" "files im' = (files im)(i \<mapsto> (ucast type, []))"
    "bm_free (im_bm im') = bm_free (im_bm im)"
proof -
  note put = commit_inode [OF assms(1,3,4) fs_invD(1,2) [OF assms(1)] refl _ inode_ok_new,
      of type t, simplified, OF others_valid [OF assms(1)] assms(5)]
  show "fs_inv im'" "files im' = (files im)(i \<mapsto> (ucast type, []))"
    "bm_free (im_bm im') = bm_free (im_bm im)"
    using put fs_inv_last_alloced [OF put(1) assms(4)] by (simp_all add: im'_def)
qed

lemma find_SomeD: "find P xs = Some x \<Longrightarrow> x \<in> set xs \<and> P x"
  by (induction xs) (auto split: if_splits)

lemma alloc_inode_cases:
  assumes "fs_inv im" "alloc_inode im type = (inum, im')"
  obtains (full) "inum = 0" "im' = tick im" "\<And>k. 1 \<le> k \<Longrightarrow> k \<le> INODE_NUM \<Longrightarrow>
      get_inode im (to_alloc (last_alloced im) k) \<noteq> None"
  | (new) "inum \<noteq> 0" "inum \<le> INODE_NUM" "get_inode im inum = None"
    "im' = (put_inode (tick im) inum (Some (new_inode type (fst (time_NULL im)))))\<lparr>last_alloced := inum\<rparr>"
    "\<exists>k. 1 \<le> k \<and> k \<le> INODE_NUM \<and> to_alloc (last_alloced im) k = inum"
proof -
  let ?P = "\<lambda>k. get_inode im (to_alloc (last_alloced im) k) = None"
  have lst: "last_alloced im \<le> INODE_NUM"
    using assms(1) by (simp add: fs_inv_def)
  show ?thesis
  proof (cases "find ?P [1..<INODE_NUM + 1]")
    case None
    then have "\<not> ?P k" if "1 \<le> k" "k \<le> INODE_NUM" for k
      using that by (auto simp: find_None_iff)
    then show ?thesis
      using None assms(2) full by (simp add: alloc_inode_eq alloc_inode_loop_find del: upt_Suc)
  next
    case (Some k)
    then have "1 \<le> k" "k \<le> INODE_NUM" "?P k"
      using find_SomeD [OF Some] by (auto simp del: upt_Suc)
    then show ?thesis
      using Some assms(2) new to_alloc_range [OF lst, of k]
      by (auto simp: alloc_inode_eq alloc_inode_loop_find simp del: upt_Suc)
  qed
qed

lemma alloc_inode_ok:
  assumes "fs_inv im" "(ucast type :: u16) \<noteq> 0" "alloc_inode im type = (inum, im')"
  shows "fs_inv im' \<and> bm_free (im_bm im') = bm_free (im_bm im) \<and>
    (if inum = 0 then files im' = files im \<and> (\<forall>j. j \<noteq> 0 \<and> j < 1024 \<longrightarrow> files im j \<noteq> None)
     else inum \<le> INODE_NUM \<and> files im inum = None \<and> files im' = (files im)(inum \<mapsto> (ucast type, [])))"
  using assms(1,3)
proof (cases rule: alloc_inode_cases)
  case full
  have "files im j \<noteq> None" if "j \<noteq> 0" "j < 1024" for j
    using full(3) to_alloc_covers [of "last_alloced im" j] that assms(1)
    by (metis files_def fs_inv_def option.map_disc_iff)
  then show ?thesis
    using full assms(1) by simp
next
  case new
  have "fs_inv (tick im)" "get_inode (tick im) inum = None"
    using assms(1) new by simp_all
  note put_new_inode [OF this new(1,2) assms(2), of "fst (time_NULL im)"]
  then show ?thesis
    using new by (simp add: files_def)
qed

text \<open>C28. \<open>alloc_inode\<close> on a well-formed file system either finds every inode number
  below 1024 taken, returns 0 and changes no file, or returns a number between 1 and 1024 that was
  free, at which there is now an empty file of the given type while every other file is unchanged. The
  file system stays well formed and no data block is taken.\<close>

theorem alloc_inode_correct:
  assumes "fs_inv im" "(ucast type :: u16) \<noteq> 0" "alloc_inode im type = (inum, im')"
  shows "fs_inv im' \<and> bm_free (im_bm im') = bm_free (im_bm im) \<and>
    (if inum = 0 then files im' = files im \<and> (\<forall>j. j \<noteq> 0 \<and> j < 1024 \<longrightarrow> files im j \<noteq> None)
     else inum \<le> INODE_NUM \<and> files im inum = None \<and> files im' = (files im)(inum \<mapsto> (ucast type, [])))"
  using assms by (rule alloc_inode_ok)

section \<open>The constructor\<close>

definition fresh_im :: "u32 \<Rightarrow> env \<Rightarrow> inode_manager" where
  "fresh_im junk e = \<lparr>im_bm = block_manager_init, last_alloced = junk, im_env = e\<rparr>"

lemma get_inode_fresh [simp]: "get_inode (fresh_im junk e) i = None"
proof -
  have "bm_inv (im_bm (fresh_im junk e))" "blk (im_bm (fresh_im junk e)) b = zeros BLOCK_SIZE" for b
    by (simp_all add: fresh_im_def) (simp add: block_manager_init_def disk_init_def)
  then show ?thesis
    by (simp add: get_inode_eq decode_zeros_type)
qed

lemma fs_inv_fresh: "junk \<le> INODE_NUM \<Longrightarrow> fs_inv (fresh_im junk e)"
  by (simp add: fs_inv_def) (simp add: fresh_im_def)

lemma alloc_inode_fresh:
  "alloc_inode (fresh_im junk e) type = (to_alloc junk 1,
     (put_inode (tick (fresh_im junk e)) (to_alloc junk 1)
        (Some (new_inode type (fst (time_NULL (fresh_im junk e))))))\<lparr>last_alloced := to_alloc junk 1\<rparr>)"
  by (simp add: alloc_inode_eq alloc_inode_loop.simps Let_def) (simp add: fresh_im_def)

lemma to_alloc_first: "to_alloc junk 1 = 1 \<longleftrightarrow> junk = 0 \<or> junk mod 1024 = 1023 \<and> junk \<noteq> - 1"
proof (cases "junk = - 1")
  case True
  then show ?thesis by (simp add: to_alloc_def)
next
  case False
  let ?u = "unat junk"
  have suc: "unat (1 + junk) = 1 + ?u"
    using False by (metis add.commute unatSuc add_eq_0_iff plus_1_eq_Suc)
  have "to_alloc junk 1 = 1 \<longleftrightarrow>
      (if 1 + ?u \<ge> 1024 then (1 + junk) mod 1024 = 0 else junk = 0)"
    by (auto simp: to_alloc_def word_le_nat_alt suc)
  also have "(1 + junk) mod 1024 = 0 \<longleftrightarrow> (1 + ?u) mod 1024 = 0"
    by (simp add: word_unat_eq_iff unat_mod_distrib suc)
  also have "\<dots> \<longleftrightarrow> ?u mod 1024 = 1023"
    by (simp add: mod_Suc)
  also have "?u mod 1024 = 1023 \<longleftrightarrow> junk mod 1024 = 1023"
    by (simp add: word_unat_eq_iff unat_mod_distrib)
  finally have "to_alloc junk 1 = 1 \<longleftrightarrow> (if 1 + ?u \<ge> 1024 then junk mod 1024 = 1023 else junk = 0)" .
  moreover have "1 + ?u \<ge> 1024" if "junk mod 1024 = 1023"
    using that mod_less_eq_dividend [of ?u 1024] by (simp add: word_unat_eq_iff unat_mod_distrib)
  ultimately show ?thesis
    using False by auto
qed

text \<open>The state in which the constructor leaves the file system.\<close>

definition root_im :: "env \<Rightarrow> inode_manager" where
  "root_im e = put_inode (tick (fresh_im 0 e)) 1 (Some (new_inode T_DIR (env_clock e (env_tick e))))"

lemma root_im_facts:
  "fs_inv (root_im e)" "files (root_im e) = [1 \<mapsto> (1, [])]" "last_alloced (root_im e) = 0"
  "bm_free (im_bm (root_im e)) = bm_free block_manager_init"
proof -
  let ?im1 = "(root_im e)\<lparr>last_alloced := 1\<rparr>"
  have "fs_inv ?im1 \<and> files ?im1 = (files (tick (fresh_im 0 e)))(1 \<mapsto> (1, []))
      \<and> bm_free (im_bm ?im1) = bm_free (im_bm (fresh_im 0 e))"
    using put_new_inode [of "tick (fresh_im 0 e)" 1 T_DIR "env_clock e (env_tick e)"]
    by (simp add: root_im_def fs_inv_fresh)
  moreover have "files (tick (fresh_im 0 e)) = Map.empty"
    by (simp add: files_def fun_eq_iff)
  moreover have "root_im e = ?im1\<lparr>last_alloced := 0\<rparr>"
    by (simp add: root_im_def) (simp add: fresh_im_def)
  ultimately show "fs_inv (root_im e)" "files (root_im e) = [1 \<mapsto> (1, [])]"
    "bm_free (im_bm (root_im e)) = bm_free block_manager_init"
    using fs_inv_last_alloced [of ?im1 0] by (simp_all add: fresh_im_def)
  show "last_alloced (root_im e) = 0"
    by (simp add: root_im_def) (simp add: fresh_im_def)
qed

lemma inode_manager_init_eq:
  "inode_manager_init junk e = (if to_alloc junk 1 = 1 then Inr (root_im e) else Inl Exit_called)"
proof -
  have "(put_inode (tick (fresh_im junk e)) 1 x)\<lparr>last_alloced := 0\<rparr> = put_inode (tick (fresh_im 0 e)) 1 x" for x
    by (simp add: put_inode_def tick_def fresh_im_def inode_block_def Let_def split: option.split)
  then show ?thesis
    using alloc_inode_fresh [of junk e T_DIR]
    by (simp add: inode_manager_init_def Let_def root_im_def time_NULL_def flip: fresh_im_def)
      (simp add: fresh_im_def)
qed

lemma inode_manager_init_ok:
  "(if junk = 0 \<or> junk mod 1024 = 1023 \<and> junk \<noteq> - 1
    then \<exists>im. inode_manager_init junk e = Inr im \<and> fs_inv im \<and> files im = [1 \<mapsto> (1, [])] \<and>
           last_alloced im = 0 \<and> bm_free (im_bm im) = bm_free block_manager_init
    else inode_manager_init junk e = Inl Exit_called)"
  unfolding inode_manager_init_eq to_alloc_first using root_im_facts by simp

text \<open>C29. The constructor of \<open>inode_manager\<close> reads \<open>_last_alloced\<close> before it is
  initialised. It ends the process unless the value found there is 0 or is 1023 modulo 1024 (and not
  the largest 32-bit number). When it returns, the file system is well formed and holds exactly one
  file, the empty root directory with inode number 1.\<close>

theorem inode_manager_init_correct:
  "(if junk = 0 \<or> junk mod 1024 = 1023 \<and> junk \<noteq> - 1
    then \<exists>im. inode_manager_init junk e = Inr im \<and> fs_inv im \<and> files im = [1 \<mapsto> (1, [])] \<and>
           last_alloced im = 0 \<and> bm_free (im_bm im) = bm_free block_manager_init
    else inode_manager_init junk e = Inl Exit_called)"
  by (rule inode_manager_init_ok)

text \<open>A concrete environment, for the examples: a clock that counts, and memory full of
  the letter x.\<close>

definition sample_env :: env where
  "sample_env = \<lparr>env_clock = of_nat, env_heap = (\<lambda>_ _. CHR ''x''), env_stack = (\<lambda>_ _. 7), env_tick = 0\<rparr>"

lemma get_inode_None_iff: "get_inode im i = None \<longleftrightarrow> files im i = None"
  by (simp add: files_def)

theorem alloc_inode_correct_witness:
  "fs_inv (root_im sample_env) \<and> fst (alloc_inode (root_im sample_env) T_FILE) = 2 \<and>
   fs_inv (snd (alloc_inode (root_im sample_env) T_FILE)) \<and>
   files (snd (alloc_inode (root_im sample_env) T_FILE)) = [1 \<mapsto> (1, []), 2 \<mapsto> (2, [])]"
proof -
  let ?im = "root_im sample_env"
  have "get_inode (tick ?im) 1 \<noteq> None" "get_inode (tick ?im) 2 = None"
    unfolding get_inode_None_iff by (simp_all add: root_im_facts)
  moreover have "to_alloc 0 1 = 1" "to_alloc 0 2 = 2"
    by (simp_all add: to_alloc_def word_le_nat_alt)
  ultimately have fst: "fst (alloc_inode ?im T_FILE) = 2"
    by (simp add: alloc_inode_eq alloc_inode_loop.simps [of _ _ "Suc 0"] alloc_inode_loop.simps [of _ _ 2]
        root_im_facts Let_def flip: numeral_2_eq_2)
  moreover have "(ucast T_FILE :: u16) \<noteq> 0"
    by simp
  note alloc_inode_correct [OF root_im_facts(1) [of sample_env] this surjective_pairing]
  ultimately show ?thesis
    by (simp add: root_im_facts)
qed

section \<open>A full table\<close>

text \<open>A file system in which the numbers up to \<open>N\<close> are taken, by the root directory and by
  empty files.\<close>

definition table_im :: "u32 \<Rightarrow> inode_manager" where
  "table_im N = \<lparr>im_bm = block_manager_init\<lparr>bm_d := \<lparr>blocks = (\<lambda>b. if 12 \<le> b \<and> b \<le> 11 + N
       then encode_inode (new_inode (if b = 12 then T_DIR else T_FILE) 0) @ zeros 88
       else zeros BLOCK_SIZE)\<rparr>\<rparr>, last_alloced = 1, im_env = sample_env\<rparr>"

lemma table_im_simps [simp]:
  "last_alloced (table_im N) = 1" "bm_free (im_bm (table_im N)) = 31732" "bm_inv (im_bm (table_im N))"
proof -
  show "last_alloced (table_im N) = 1"
    by (simp add: table_im_def)
  have "free_set (im_bm (table_im N)) = free_set block_manager_init"
    by (simp add: table_im_def free_set_def)
  then show "bm_free (im_bm (table_im N)) = 31732"
    using bm_free_init by (simp add: bm_free_def)
  have "length (encode_inode (new_inode (if b = (12 :: u32) then T_DIR else T_FILE) 0)) = 424" for b
    by (intro length_encode_inode) simp
  then show "bm_inv (im_bm (table_im N))"
    by (simp add: bm_inv_def table_im_def disk_ok_def block_manager_init_def)
qed

lemma table_block:
  assumes "N \<le> 1024" "j \<le> 1024"
  shows "12 \<le> 11 + j \<and> 11 + j \<le> 11 + N \<longleftrightarrow> j \<noteq> 0 \<and> j \<le> N" "11 + j = (12 :: u32) \<longleftrightarrow> j = 1"
proof -
  have "unat (11 + j) = 11 + unat j" "unat (11 + N) = 11 + unat N"
    using assms by (simp_all add: word_le_nat_alt unat_word_ariths)
  then show "12 \<le> 11 + j \<and> 11 + j \<le> 11 + N \<longleftrightarrow> j \<noteq> 0 \<and> j \<le> N" "11 + j = (12 :: u32) \<longleftrightarrow> j = 1"
    by (auto simp: word_le_nat_alt word_unat_eq_iff)
qed

lemma get_inode_table:
  assumes "N \<le> 1024"
  shows "get_inode (table_im N) j =
    (if j \<noteq> 0 \<and> j \<le> N then Some (new_inode (if j = 1 then T_DIR else T_FILE) 0) else None)"
proof (cases "j \<le> 1024")
  case True
  have "blk (im_bm (table_im N)) (11 + j) = (if j \<noteq> 0 \<and> j \<le> N
      then encode_inode (new_inode (if j = 1 then T_DIR else T_FILE) 0) @ zeros 88 else zeros BLOCK_SIZE)"
    using table_block [OF assms True] by (simp add: table_im_def)
  then show ?thesis
    using True decode_encode_inode [of "new_inode _ 0"] by (simp add: get_inode_eq decode_zeros_type)
next
  case False
  then have "\<not> j \<le> N"
    using assms by (meson order.trans)
  with False show ?thesis
    by (simp add: get_inode_None_range)
qed

lemma table_im_facts:
  assumes "N \<le> 1024"
  shows "fs_inv (table_im N)"
    "files (table_im N) j = (if j \<noteq> 0 \<and> j \<le> N then Some (if j = 1 then 1 else 2, []) else None)"
  using get_inode_table [OF assms] by (auto simp: fs_inv_def files_def others_def)

text \<open>C32. When all numbers below 1024 are taken, \<open>alloc_inode\<close> returns 1024 if that number is
  free and the last number it allocated is 1023 or 1024, and otherwise returns 0, which says that the
  table is full, and changes nothing: number 1024 is not found after a smaller last number, although
  it may be free.\<close>

theorem alloc_inode_skips_1024:
  assumes inv: "fs_inv im" and taken: "\<And>j. j \<noteq> 0 \<Longrightarrow> j < 1024 \<Longrightarrow> files im j \<noteq> None"
  shows "if 1023 \<le> last_alloced im \<and> files im 1024 = None
    then fst (alloc_inode im type) = 1024 else alloc_inode im type = (0, tick im)"
proof -
  let ?last = "last_alloced im"
  obtain inum im' where al: "alloc_inode im type = (inum, im')"
    by fastforce
  note tries = to_alloc_tries_1024 [OF fs_invD(2) [OF inv]]
  show ?thesis
    using inv al
  proof (cases rule: alloc_inode_cases)
    case full
    have "\<not> (1023 \<le> ?last \<and> files im 1024 = None)"
      using tries full(3) files_def by fastforce
    then show ?thesis
      using al full(1,2) by simp
  next
    case new
    have "files im inum = None"
      using new(3) by (simp add: files_def)
    then have "\<not> inum < 1024"
      using taken new(1) by blast
    then have "inum = 1024"
      using new(2) by simp
    moreover from this have "1023 \<le> ?last"
      using tries new(5) by blast
    ultimately show ?thesis
      using al new(3) by (simp add: files_def)
  qed
qed

theorem alloc_inode_skips_1024_witness:
  "alloc_inode (table_im 1023) T_FILE = (0, tick (table_im 1023)) \<and> files (table_im 1023) 1024 = None \<and>
   fst (alloc_inode ((table_im 1023)\<lparr>last_alloced := 1023\<rparr>) T_FILE) = 1024"
proof -
  have "files (table_im 1023) j \<noteq> None" if "j \<noteq> 0" "j < 1024" for j
  proof -
    have "j \<le> 1023"
      using that(2) by (simp add: word_le_nat_alt word_less_nat_alt)
    then show ?thesis
      using that(1) by (simp add: table_im_facts)
  qed
  moreover have "fs_inv ((table_im 1023)\<lparr>last_alloced := 1023\<rparr>)"
    by (rule fs_inv_last_alloced) (simp_all add: table_im_facts)
  ultimately show ?thesis
    using not_le [of "1023 :: u32" 1] alloc_inode_skips_1024 [of "table_im 1023" T_FILE]
      alloc_inode_skips_1024 [of "(table_im 1023)\<lparr>last_alloced := 1023\<rparr>" T_FILE]
    by (simp add: table_im_facts)
qed

end
