(* ===== verification/Read_File.thy ===== *)
theory Read_File
  imports Inode_Alloc
begin

text \<open>
  Correctness of \<open>inode_manager::read_file\<close>: on a well-formed file system it returns the
  content of the file, stays inside the buffer it allocates, and changes nothing but the access time.
\<close>

lemma memcpy_extend:
  assumes "take p out = xs" "p + length b \<le> length out"
  obtains out' where "memcpy_at out p b = Inr out'" "length out' = length out"
    "take (p + length b) out' = xs @ b"
  using that memcpy_at_ok [OF assms(2)] assms(2) unfolding assms(1) [symmetric] by simp

lemma length_concat_blk: "bm_inv bm \<Longrightarrow> length (concat (map (blk bm) xs)) = BLOCK_SIZE * length xs"
  by (induction xs) (simp_all add: length_blk)

text \<open>The prefix of the data that the first \<open>k\<close> blocks hold.\<close>

definition blocks_data :: "block_manager \<Rightarrow> u32 list \<Rightarrow> nat \<Rightarrow> byte list" where
  "blocks_data bm ss k = concat (map (blk bm) (take k ss))"

lemma blocks_data_0 [simp]: "blocks_data bm ss 0 = []"
  by (simp add: blocks_data_def)

lemma blocks_data_Suc: "k < length ss \<Longrightarrow> blocks_data bm ss (Suc k) = blocks_data bm ss k @ blk bm (ss ! k)"
  by (simp add: blocks_data_def take_Suc_conv_app_nth)

lemma length_blocks_data:
  "bm_inv bm \<Longrightarrow> k \<le> length ss \<Longrightarrow> length (blocks_data bm ss k) = BLOCK_SIZE * k"
  by (simp add: blocks_data_def length_concat_blk)

lemma content_blocks_data: "content bm n = take (isize n) (blocks_data bm (slots bm n) (nblk (isize n)))"
  by (simp add: content_def blocks_data_def)

text \<open>The last, partial block: what is copied there completes the content.\<close>

lemma content_last:
  assumes "bm_inv bm" "nblk (isize n) = Suc k" "Suc k \<le> length (slots bm n)"
    "isize n mod BLOCK_SIZE \<noteq> 0"
  shows "content bm n = blocks_data bm (slots bm n) k @ take (isize n mod BLOCK_SIZE) (blk bm (slots bm n ! k))"
    and "isize n = BLOCK_SIZE * k + isize n mod BLOCK_SIZE"
proof -
  have "BLOCK_SIZE * k < isize n" "isize n \<le> BLOCK_SIZE * Suc k"
    using assms(2) less_nblk_iff [of k "isize n"] nblk_le_iff [of "isize n" "Suc k"] by simp_all
  then have "isize n div BLOCK_SIZE = k"
    using assms(4) by (metis div_nat_eqI le_neq_implies_less mod_mult_self1_is_0 mult.commute nat_less_le)
  then show size: "isize n = BLOCK_SIZE * k + isize n mod BLOCK_SIZE"
    by (metis mult_div_mod_eq)
  show "content bm n = blocks_data bm (slots bm n) k @ take (isize n mod BLOCK_SIZE) (blk bm (slots bm n ! k))"
  proof -
    have "isize n - BLOCK_SIZE * k = isize n mod BLOCK_SIZE"
      using size by linarith
    then show ?thesis
      using assms length_blocks_data [OF assms(1), of k "slots bm n"]
      by (simp add: content_blocks_data blocks_data_Suc)
  qed
qed

section \<open>The two loops\<close>

lemma slots_direct: "length (i_blocks n) = NDIRECT + 1 \<Longrightarrow> k < NDIRECT \<Longrightarrow> slots bm n ! k = i_blocks n ! k"
  by (simp add: slots_def nth_append)

lemma slots_indirect:
  "length (i_blocks n) = NDIRECT + 1 \<Longrightarrow> i_blocks n ! NDIRECT \<noteq> 0 \<Longrightarrow> k < NINDIRECT \<Longrightarrow>
   slots bm n ! (k + NDIRECT) = entries (blk bm (i_blocks n ! NDIRECT)) ! k"
  by (simp add: slots_def ind_entries_def nth_append)

lemma inode_okD:
  assumes "inode_ok bm n"
  shows "length (i_blocks n) = NDIRECT + 1" "nblk (isize n) \<le> MAXFILE" "distinct (owned bm n)"
    "slots_ok bm (nblk (isize n)) (slots bm n)"
    "NDIRECT < nblk (isize n) \<Longrightarrow> is_valid_block bm (i_blocks n ! NDIRECT)"
    "nblk (isize n) \<le> NDIRECT \<Longrightarrow> i_blocks n ! NDIRECT = 0"
    "length (slots bm n) = MAXFILE"
    "k < nblk (isize n) \<Longrightarrow> is_valid_block bm (slots bm n ! k)"
    "max 1 (nblk (isize n)) \<le> k \<Longrightarrow> k < MAXFILE \<Longrightarrow> slots bm n ! k = 0"
  using assms by (auto simp: inode_ok_def slots_ok_def)

lemma nblk_mod: "isize n mod BLOCK_SIZE \<noteq> 0 \<Longrightarrow> nblk (isize n) \<noteq> 0"
  by auto

text \<open>One turn of either loop: the block of slot \<open>k\<close> is copied behind the blocks before it, the whole of
  it or, for the last one, the part that completes the content.\<close>

lemma copy_full:
  assumes inv: "bm_inv bm" and k: "k < length ss" "BLOCK_SIZE * Suc k \<le> length out"
    and pre: "take (BLOCK_SIZE * k) out = blocks_data bm ss k"
  obtains out' where "memcpy_at out (BLOCK_SIZE * k) (take BLOCK_SIZE (blk bm (ss ! k))) = Inr out'"
    "length out' = length out" "take (BLOCK_SIZE * Suc k) out' = blocks_data bm ss (Suc k)"
proof -
  let ?b = "take BLOCK_SIZE (blk bm (ss ! k))"
  have "BLOCK_SIZE * k + length ?b \<le> length out"
    using k(2) by (simp add: length_blk [OF inv])
  then obtain out' where "memcpy_at out (BLOCK_SIZE * k) ?b = Inr out'" "length out' = length out"
    "take (BLOCK_SIZE * k + length ?b) out' = blocks_data bm ss k @ ?b"
    by (rule memcpy_extend [OF pre])
  then show ?thesis
    using that k(1) by (simp add: length_blk [OF inv] blocks_data_Suc add.commute)
qed

lemma copy_last:
  assumes inv: "bm_inv bm" and last: "nblk (isize n) = Suc k" "isize n mod BLOCK_SIZE \<noteq> 0"
    and k: "k < length (slots bm n)" "BLOCK_SIZE * Suc k \<le> length out"
    and pre: "take (BLOCK_SIZE * k) out = blocks_data bm (slots bm n) k"
  obtains out' where
    "memcpy_at out (BLOCK_SIZE * k) (take (isize n mod BLOCK_SIZE) (blk bm (slots bm n ! k))) = Inr out'"
    "length out' = length out" "take (isize n) out' = content bm n"
proof -
  let ?b = "take (isize n mod BLOCK_SIZE) (blk bm (slots bm n ! k))"
  have "BLOCK_SIZE * k + length ?b \<le> length out"
    using k(2) mod_less_divisor [of BLOCK_SIZE "isize n"] by (simp add: length_blk [OF inv])
  then obtain out' where "memcpy_at out (BLOCK_SIZE * k) ?b = Inr out'" "length out' = length out"
    "take (BLOCK_SIZE * k + length ?b) out' = blocks_data bm (slots bm n) k @ ?b"
    by (rule memcpy_extend [OF pre])
  then show ?thesis
    using that content_last [OF inv last(1) _ last(2)] k(1) by (simp add: length_blk [OF inv])
qed

lemma read_valid:
  "bm_inv bm \<Longrightarrow> is_valid_block bm b \<Longrightarrow> read_block bm b (zeros BLOCK_SIZE) = blk bm b"
  using data_block_range(1) [OF valid_data_block] by (intro read_block_blk)

text \<open>A turn of the loop over the direct blocks: on a block of the file it ends with the whole content, or
  copies one more block; on the others nothing that counts is copied.\<close>

lemma read_direct_used:
  assumes inv: "bm_inv bm" and ok: "inode_ok bm n"
  defines "cnt \<equiv> nblk (isize n)" and "ss \<equiv> slots bm n"
  assumes i: "i < NDIRECT" "i < cnt" and len: "length out = BLOCK_SIZE * max 1 cnt"
    and pre: "take (BLOCK_SIZE * i) out = blocks_data bm ss i"
  obtains (last) out' where "read_direct bm n (max 1 cnt) (isize n mod BLOCK_SIZE) i out = Inr (i, out')"
    "length out' = length out" "cnt \<le> NDIRECT" "take (isize n) out' = content bm n"
  | (more) out' where "read_direct bm n (max 1 cnt) (isize n mod BLOCK_SIZE) i out
      = read_direct bm n (max 1 cnt) (isize n mod BLOCK_SIZE) (i + 1) out'"
    "length out' = length out" "take (BLOCK_SIZE * (i + 1)) out' = blocks_data bm ss (i + 1)"
proof -
  note unfold = read_direct.simps [of bm n _ _ i out]
  have slot: "i_blocks n ! i = ss ! i" and k: "i < length ss"
    using slots_direct [OF inode_okD(1) [OF ok] i(1)] inode_okD(7) [OF ok] i(1) by (simp_all add: ss_def)
  have valid: "is_valid_block bm (ss ! i)" and room: "BLOCK_SIZE * Suc i \<le> length out"
    using inode_okD(8) [OF ok] i(2) len by (auto simp: cnt_def ss_def max_def)
  note read = read_valid [OF inv valid]
  show ?thesis
  proof (cases "Suc i = cnt \<and> isize n mod BLOCK_SIZE \<noteq> 0")
    case True
    obtain out' where out': "memcpy_at out (BLOCK_SIZE * i) (take (isize n mod BLOCK_SIZE) (blk bm (ss ! i))) = Inr out'"
      "length out' = length out" "take (isize n) out' = content bm n"
      by (rule copy_last [OF inv, of n i out, folded cnt_def ss_def, OF _ _ k room pre]) (use True in simp_all)
    have "i = max 1 cnt - 1"
      using True by auto
    then have "read_direct bm n (max 1 cnt) (isize n mod BLOCK_SIZE) i out = Inr (i, out')"
      using out'(1) i True valid slot read
      by (subst unfold) (simp add: Let_def mult.commute del: One_nat_def)
    then show ?thesis
      using last out'(2,3) True i(1) by simp
  next
    case False
    obtain out' where out': "memcpy_at out (BLOCK_SIZE * i) (take BLOCK_SIZE (blk bm (ss ! i))) = Inr out'"
      "length out' = length out" "take (BLOCK_SIZE * Suc i) out' = blocks_data bm ss (Suc i)"
      by (rule copy_full [OF inv k room pre])
    moreover have "read_direct bm n (max 1 cnt) (isize n mod BLOCK_SIZE) i out
        = read_direct bm n (max 1 cnt) (isize n mod BLOCK_SIZE) (i + 1) out'"
      using out'(1) i False valid slot read by (subst unfold) (auto simp: Let_def mult.commute max_def)
    ultimately show ?thesis
      using more by simp
  qed
qed

lemma read_direct_unused:
  assumes inv: "bm_inv bm" and ok: "inode_ok bm n"
  defines "cnt \<equiv> nblk (isize n)" and "ss \<equiv> slots bm n"
  assumes i: "i < NDIRECT" "cnt \<le> i" and len: "length out = BLOCK_SIZE * max 1 cnt"
  obtains out' where "read_direct bm n (max 1 cnt) (isize n mod BLOCK_SIZE) i out
      = read_direct bm n (max 1 cnt) (isize n mod BLOCK_SIZE) (i + 1) out'"
    "length out' = length out" "take (BLOCK_SIZE * cnt) out' = take (BLOCK_SIZE * cnt) out"
proof -
  note unfold = read_direct.simps [of bm n _ _ i out]
  have slot: "i_blocks n ! i = ss ! i"
    using slots_direct [OF inode_okD(1) [OF ok] i(1)] by (simp add: ss_def)
  show ?thesis
  proof (cases "is_valid_block bm (ss ! i)")
    case True
    then have "\<not> max 1 cnt \<le> i"
      using inode_okD(9) [OF ok, of i] not_valid_zero [OF inv] i unfolding cnt_def ss_def by fastforce
    then have "i = 0 \<and> cnt = 0"
      using i(2) by (auto simp: max_def split: if_splits)
    then have zero: "i = 0" "cnt = 0" "isize n = 0"
      using nblk_eq_0 [of "isize n"] unfolding cnt_def by blast+
    let ?b = "blk bm (ss ! i)"
    have "memcpy_at out 0 (take BLOCK_SIZE ?b) = Inr (take BLOCK_SIZE ?b)" "length (take BLOCK_SIZE ?b) = length out"
      using len zero by (simp_all add: memcpy_at_ok length_blk [OF inv])
    moreover from this have "read_direct bm n (max 1 cnt) (isize n mod BLOCK_SIZE) i out
        = read_direct bm n (max 1 cnt) (isize n mod BLOCK_SIZE) (i + 1) (take BLOCK_SIZE ?b)"
      using i True slot read_valid [OF inv True] zero by (subst unfold) (simp add: Let_def)
    ultimately show ?thesis
      using that zero by simp
  next
    case False
    then have "read_direct bm n (max 1 cnt) (isize n mod BLOCK_SIZE) i out
        = read_direct bm n (max 1 cnt) (isize n mod BLOCK_SIZE) (i + 1) out"
      using i slot by (subst unfold) simp
    then show ?thesis
      using that by blast
  qed
qed

lemma read_direct_ok:
  assumes inv: "bm_inv bm" and ok: "inode_ok bm n"
  defines "cnt \<equiv> nblk (isize n)" and "ss \<equiv> slots bm n"
  shows "i \<le> NDIRECT \<Longrightarrow> length out = BLOCK_SIZE * max 1 cnt \<Longrightarrow>
    take (BLOCK_SIZE * min i cnt) out = blocks_data bm ss (min i cnt) \<Longrightarrow>
    \<exists>j out'. read_direct bm n (max 1 cnt) (isize n mod BLOCK_SIZE) i out = Inr (j, out') \<and>
      length out' = length out \<and>
      (if cnt \<le> NDIRECT then take (isize n) out' = content bm n
       else j = NDIRECT \<and> take (BLOCK_SIZE * NDIRECT) out' = blocks_data bm ss NDIRECT)"
proof (induction "NDIRECT - i" arbitrary: i out)
  case 0
  then have i: "i = NDIRECT" by simp
  have "take (isize n) out = content bm n" if "cnt \<le> NDIRECT"
  proof -
    have "take (BLOCK_SIZE * cnt) out = blocks_data bm ss cnt" "isize n \<le> BLOCK_SIZE * cnt"
      using "0.prems" that nblk_le_iff [of "isize n" cnt] by (simp_all add: i min_absorb2 cnt_def)
    then have "take (isize n) (take (BLOCK_SIZE * cnt) out) = content bm n"
      by (simp only: content_blocks_data cnt_def ss_def)
    then show ?thesis
      using \<open>isize n \<le> BLOCK_SIZE * cnt\<close> by (simp add: min_absorb1)
  qed
  then show ?case
    using "0.prems" by (subst read_direct.simps) (auto simp: i min_def split: if_splits)
next
  case (Suc d)
  have d: "d = NDIRECT - (i + 1)" "i + 1 \<le> NDIRECT" and i: "i < NDIRECT"
    using Suc.hyps(2) by auto
  note IH = Suc.hyps(1) [OF d]
  show ?case
  proof (cases "i < cnt")
    case True
    then have pre: "take (BLOCK_SIZE * i) out = blocks_data bm ss i"
      using Suc.prems(3) by (simp add: min_def)
    show ?thesis
      by (rule read_direct_used [OF inv ok, of i out, folded cnt_def ss_def, OF i True Suc.prems(2) pre])
        (use IH Suc.prems(2) True in \<open>auto simp: min_def\<close>)
  next
    case False
    then have cnt: "cnt \<le> i"
      by simp
    then have min: "min i cnt = cnt" "min (i + 1) cnt = cnt"
      by simp_all
    obtain out' where out': "read_direct bm n (max 1 cnt) (isize n mod BLOCK_SIZE) i out
        = read_direct bm n (max 1 cnt) (isize n mod BLOCK_SIZE) (i + 1) out'"
      "length out' = length out" "take (BLOCK_SIZE * cnt) out' = take (BLOCK_SIZE * cnt) out"
      by (rule read_direct_unused [OF inv ok, of i out, folded cnt_def ss_def, OF i cnt Suc.prems(2)])
    show ?thesis
      using IH [of out'] Suc.prems(2,3) out'(2,3) unfolding out'(1) min by simp
  qed
qed

lemma read_indirect_turn:
  assumes inv: "bm_inv bm" and ok: "inode_ok bm n"
  defines "cnt \<equiv> nblk (isize n)" and "ss \<equiv> slots bm n" and "ind \<equiv> blk bm (i_blocks n ! NDIRECT)"
  assumes i: "i + NDIRECT < cnt" and out: "length out = BLOCK_SIZE * cnt"
    and pre: "take (BLOCK_SIZE * (i + NDIRECT)) out = blocks_data bm ss (i + NDIRECT)"
  obtains (last) out' where "read_indirect bm ind cnt (isize n mod BLOCK_SIZE) i out = Inr out'"
    "length out' = length out" "take (isize n) out' = content bm n"
  | (more) out' where "read_indirect bm ind cnt (isize n mod BLOCK_SIZE) i out
      = read_indirect bm ind cnt (isize n mod BLOCK_SIZE) (i + 1) out'"
    "length out' = length out" "take (BLOCK_SIZE * (i + 1 + NDIRECT)) out' = blocks_data bm ss (i + 1 + NDIRECT)"
proof -
  have cnt: "cnt \<le> MAXFILE" and i': "i < NINDIRECT" "NDIRECT < cnt" and len: "i + NDIRECT < length ss"
    using inode_okD(2,7) [OF ok] i by (simp_all add: cnt_def ss_def)
  have "i_blocks n ! NDIRECT \<noteq> 0"
    using inode_okD(5) [OF ok] i'(2) not_valid_zero [OF inv] unfolding cnt_def by metis
  then have entry: "ind_at ind i = Inr (ss ! (i + NDIRECT))"
    using slots_indirect [OF inode_okD(1) [OF ok], of i bm] i'(1) length_blk [OF inv]
    by (simp add: ind_at_entries ind_def ss_def)
  have valid: "is_valid_block bm (ss ! (i + NDIRECT))"
    using inode_okD(8) [OF ok] i by (simp add: cnt_def ss_def)
  let ?b = "blk bm (ss ! (i + NDIRECT))"
  define p where "p = (i + NDIRECT) * BLOCK_SIZE"
  then have p: "BLOCK_SIZE * (i + NDIRECT) = p"
    by simp
  note read = read_valid [OF inv valid] and unfold = read_indirect.simps [of bm ind cnt _ i out, folded p_def]
  have room: "BLOCK_SIZE * Suc (i + NDIRECT) \<le> length out"
    using out i cnt by simp
  show ?thesis
  proof (cases "Suc (i + NDIRECT) = cnt \<and> isize n mod BLOCK_SIZE \<noteq> 0")
    case True
    obtain out' where out': "memcpy_at out (BLOCK_SIZE * (i + NDIRECT)) (take (isize n mod BLOCK_SIZE) ?b) = Inr out'"
      "length out' = length out" "take (isize n) out' = content bm n"
      by (rule copy_last [OF inv, of n "i + NDIRECT" out, folded cnt_def ss_def, OF _ _ len room pre])
        (use True in simp_all)
    moreover have "read_indirect bm ind cnt (isize n mod BLOCK_SIZE) i out = Inr out'"
      using out'(1) [unfolded p] i True entry valid read by (subst unfold) (auto simp: Let_def)
    ultimately show ?thesis
      using last by simp
  next
    case False
    obtain out' where out': "memcpy_at out (BLOCK_SIZE * (i + NDIRECT)) (take BLOCK_SIZE ?b) = Inr out'"
      "length out' = length out" "take (BLOCK_SIZE * Suc (i + NDIRECT)) out' = blocks_data bm ss (Suc (i + NDIRECT))"
      by (rule copy_full [OF inv len room pre])
    moreover have "read_indirect bm ind cnt (isize n mod BLOCK_SIZE) i out
        = read_indirect bm ind cnt (isize n mod BLOCK_SIZE) (i + 1) out'"
      using out'(1) [unfolded p] i False entry valid read by (subst unfold) (auto simp: Let_def)
    ultimately show ?thesis
      using more by simp
  qed
qed

lemma read_indirect_ok:
  assumes inv: "bm_inv bm" and ok: "inode_ok bm n" and big: "NDIRECT < nblk (isize n)"
  defines "cnt \<equiv> nblk (isize n)" and "ss \<equiv> slots bm n" and "ind \<equiv> blk bm (i_blocks n ! NDIRECT)"
  shows "i + NDIRECT \<le> cnt \<Longrightarrow> length out = BLOCK_SIZE * cnt \<Longrightarrow>
    take (BLOCK_SIZE * (i + NDIRECT)) out = blocks_data bm ss (i + NDIRECT) \<Longrightarrow>
    \<exists>out'. read_indirect bm ind cnt (isize n mod BLOCK_SIZE) i out = Inr out' \<and>
      length out' = length out \<and> take (isize n) out' = content bm n"
proof (induction "cnt - NDIRECT - i" arbitrary: i out)
  case 0
  then have i: "i + NDIRECT = cnt" by simp
  have "isize n \<le> BLOCK_SIZE * cnt"
    using nblk_le_iff [of "isize n" cnt] by (simp add: cnt_def)
  then have "take (isize n) out = take (isize n) (take (BLOCK_SIZE * cnt) out)"
    by (simp add: min_absorb1)
  also have "\<dots> = content bm n"
    using "0.prems"(3) by (simp only: i content_blocks_data cnt_def ss_def)
  finally have "take (isize n) out = content bm n" .
  moreover have "read_indirect bm ind cnt (isize n mod BLOCK_SIZE) i out = Inr out"
    using i by (subst read_indirect.simps) auto
  ultimately show ?case
    by simp
next
  case (Suc d)
  have d: "d = cnt - NDIRECT - (i + 1)" "i + 1 + NDIRECT \<le> cnt" and i: "i + NDIRECT < cnt"
    using Suc.hyps(2) by auto
  show ?case
    by (rule read_indirect_turn [OF inv ok, of i out, folded cnt_def ss_def ind_def, OF i Suc.prems(2,3)])
      (use Suc.hyps(1) [OF d] Suc.prems(2) in auto)
qed

section \<open>The whole operation\<close>

lemma nblk_split: "r < BLOCK_SIZE \<Longrightarrow> nblk (BLOCK_SIZE * q + r) = q + (if r = 0 then 0 else 1)"
  by (auto simp: nblk_def intro!: div_nat_eqI)

lemma block_count_eq:
  "(if s mod BLOCK_SIZE \<noteq> 0 \<or> s div BLOCK_SIZE = 0 then s div BLOCK_SIZE + 1 else s div BLOCK_SIZE)
   = max 1 (nblk s)"
  for s :: nat
proof -
  obtain q r where "s = BLOCK_SIZE * q + r" "r < BLOCK_SIZE"
    by (metis mod_less_divisor mult_div_mod_eq zero_less_numeral)
  then show ?thesis
    using nblk_split [of r q] by auto
qed

text \<open>Writing back an inode that holds the same blocks and the same size, as the update of the access
  time does, changes no file.\<close>

lemma put_same_blocks:
  assumes inv: "fs_inv im" and n: "get_inode im i = Some n"
    and n': "i_type n' = i_type n" "i_size n' = i_size n" "i_blocks n' = i_blocks n"
    and im1: "im_bm im1 = im_bm im" "last_alloced im1 = last_alloced im"
  shows "fs_inv (put_inode im1 i (Some n'))" "files (put_inode im1 i (Some n')) = files im"
    "bm_free (im_bm (put_inode im1 i (Some n'))) = bm_free (im_bm im)"
proof -
  have same: "owned bm n' = owned bm n" "inode_ok bm n' = inode_ok bm n" "content bm n' = content bm n" for bm
    by (simp_all add: n' slots_def ids_def ind_entries_def owned_def inode_ok_def content_def)
  have "i \<noteq> 0"
    using fs_invD(3) [OF inv] n by auto
  note put = commit_inode [OF inv this get_inode_SomeD(1) [OF n], of im1 n', unfolded im1 same n',
      OF fs_invD(1,2) [OF inv] refl _ fs_invD(4) [OF inv n] get_inode_SomeD(2) [OF n] fs_invD(5) [OF inv n]]
  show "fs_inv (put_inode im1 i (Some n'))" "bm_free (im_bm (put_inode im1 i (Some n'))) = bm_free (im_bm im)"
    "files (put_inode im1 i (Some n')) = files im"
    using put others_valid [OF inv] n by (auto simp: files_def fun_eq_iff)
qed

lemma length_content:
  assumes "bm_inv bm" "inode_ok bm n"
  shows "length (content bm n) = isize n" "isize n \<le> BLOCK_SIZE * MAXFILE"
proof -
  have "isize n \<le> BLOCK_SIZE * nblk (isize n)" "nblk (isize n) \<le> MAXFILE"
    using nblk_le_iff [of "isize n" "nblk (isize n)"] inode_okD(2) [OF assms(2)] by simp_all
  then show "length (content bm n) = isize n" "isize n \<le> BLOCK_SIZE * MAXFILE"
    using length_blocks_data [OF assms(1), of _ "slots bm n"] inode_okD(7) [OF assms(2)]
    by (simp_all add: content_blocks_data)
qed

lemma sint_small:
  assumes "unat (w :: u32) < 2 ^ 31"
  shows "sint w = int (unat w)"
proof -
  have "int (unat w) < 2 ^ 31"
    using assms by (simp only: of_nat_less_numeral_power_cancel_iff)
  then have "signed_take_bit 31 (uint w) = uint w"
    by (intro signed_take_bit_int_eq_self) (simp_all add: order_trans [OF _ uint_ge_0])
  then show ?thesis
    by (simp add: sint_uint)
qed

text \<open>Both loops together fill the buffer with the content.\<close>

lemma read_loops_ok:
  assumes inv: "bm_inv bm" and ok: "inode_ok bm n" and mem: "length mem = BLOCK_SIZE * max 1 (nblk (isize n))"
  obtains j out out' where
    "read_direct bm n (max 1 (nblk (isize n))) (isize n mod BLOCK_SIZE) 0 mem = Inr (j, out)"
    "(if j = NDIRECT \<and> is_valid_block bm (i_blocks n ! NDIRECT)
      then read_indirect bm (read_block bm (i_blocks n ! NDIRECT) (zeros BLOCK_SIZE)) (max 1 (nblk (isize n)))
             (isize n mod BLOCK_SIZE) 0 out
      else Inr out) = Inr out'"
    "take (isize n) out' = content bm n"
proof -
  let ?cnt = "nblk (isize n)" and ?rem = "isize n mod BLOCK_SIZE"
  obtain j out where out: "read_direct bm n (max 1 ?cnt) ?rem 0 mem = Inr (j, out)" "length out = length mem"
    "if ?cnt \<le> NDIRECT then take (isize n) out = content bm n
     else j = NDIRECT \<and> take (BLOCK_SIZE * NDIRECT) out = blocks_data bm (slots bm n) NDIRECT"
    using read_direct_ok [OF inv ok, of 0 mem] mem by (auto simp del: One_nat_def split del: if_split)
  show ?thesis
  proof (cases "?cnt \<le> NDIRECT")
    case True
    then have "\<not> is_valid_block bm (i_blocks n ! NDIRECT)"
      using inode_okD(6) [OF ok] not_valid_zero [OF inv] by simp
    then show ?thesis
      using that [OF out(1), of out] out(3) True by simp
  next
    case False
    then have valid: "is_valid_block bm (i_blocks n ! NDIRECT)"
      using inode_okD(5) [OF ok] by simp
    have "\<exists>out'. read_indirect bm (blk bm (i_blocks n ! NDIRECT)) ?cnt ?rem 0 out = Inr out'
        \<and> length out' = length out \<and> take (isize n) out' = content bm n"
      using False out mem by (intro read_indirect_ok [OF inv ok]) simp_all
    then show ?thesis
      using that [OF out(1)] read_valid [OF inv valid] valid False out(3) by (auto simp: max_def)
  qed
qed

lemma read_file_ok:
  assumes "fs_inv im" "files im i = Some (t, c)"
  shows "\<exists>out im'. read_file im i buf_out sz0 = Inr (Some out, int (length c), im') \<and>
    take (length c) out = c \<and> fs_inv im' \<and> files im' = files im \<and>
    bm_free (im_bm im') = bm_free (im_bm im)"
proof -
  obtain n where n: "get_inode im i = Some n" and c: "c = content (im_bm im) n"
    using assms(2) by (auto simp: files_def)
  let ?bm = "im_bm im" and ?cnt = "nblk (isize n)"
  note inv = fs_invD(1) [OF assms(1)] and ok = fs_invD(4) [OF assms(1) n]
  define mem where "mem = fst (heap_bytes im (max 1 ?cnt * BLOCK_SIZE))"
  have mem: "heap_bytes im (max 1 ?cnt * BLOCK_SIZE) = (mem, tick im)" "length mem = BLOCK_SIZE * max 1 ?cnt"
    by (simp_all add: mem_def heap_bytes_def)
  have size: "length c = isize n" "sint (i_size n) = int (isize n)"
    using length_content [OF inv ok] by (simp_all add: c sint_small)
  obtain j out out' where out: "read_direct ?bm n (max 1 ?cnt) (isize n mod BLOCK_SIZE) 0 mem = Inr (j, out)"
    "(if j = NDIRECT \<and> is_valid_block ?bm (i_blocks n ! NDIRECT)
      then read_indirect ?bm (read_block ?bm (i_blocks n ! NDIRECT) (zeros BLOCK_SIZE)) (max 1 ?cnt)
             (isize n mod BLOCK_SIZE) 0 out
      else Inr out) = Inr out'"
    "take (isize n) out' = c"
    unfolding c by (rule read_loops_ok [OF inv ok mem(2)])
  let ?n' = "n\<lparr>i_atime := fst (time_NULL (tick im))\<rparr>"
  let ?im' = "put_inode (tick (tick im)) i (Some ?n')"
  have "\<not> INODE_NUM < i" "\<not> 2 ^ 31 \<le> max 1 ?cnt * BLOCK_SIZE"
    using get_inode_SomeD(1) [OF n] inode_okD(2) [OF ok] by (auto simp: max_def)
  then have "read_file im i buf_out sz0 = Inr (Some out', int (length c), ?im')"
    using n mem(1) out(1,2) size(2) unfolding read_file_def Let_def block_count_eq size(1)
    by (simp add: time_NULL_def del: One_nat_def of_nat_unat split del: if_split cong: if_cong)
  moreover have "fs_inv ?im' \<and> files ?im' = files im \<and> bm_free (im_bm ?im') = bm_free ?bm"
    using put_same_blocks [OF assms(1) n, of ?n' "tick (tick im)"] by simp
  ultimately show ?thesis
    using out(3) size(1) by auto
qed

text \<open>C10. \<open>read_file\<close> on a well-formed file system returns, for an inode in use, a buffer
  that starts with the content of the file and the file's size; it never reads or writes outside its
  buffers, and it changes no file, only the access time of the inode.\<close>

theorem read_file_correct:
  assumes "fs_inv im" "files im i = Some (t, c)"
  shows "\<exists>out im'. read_file im i buf_out sz0 = Inr (Some out, int (length c), im') \<and>
    take (length c) out = c \<and> fs_inv im' \<and> files im' = files im \<and>
    bm_free (im_bm im') = bm_free (im_bm im)"
  using assms by (rule read_file_ok)

theorem read_file_correct_witness:
  "files (root_im sample_env) 1 = Some (1, []) \<and>
   (\<exists>out im'. read_file (root_im sample_env) 1 None 7 = Inr (Some out, 0, im') \<and> fs_inv im' \<and>
      files im' = [1 \<mapsto> (1, [])])"
  using read_file_correct [OF root_im_facts(1), of sample_env 1 1 "[]" None 7]
  by (auto simp: root_im_facts)

end
