(* ===== verification/Write_Loops.thy ===== *)
theory Write_Loops
  imports Block_Lists Read_File
begin

text \<open>
  The loops of \<open>inode_manager::write_file\<close> and \<open>free_indirect_blocks\<close>, each as a
  step from one list of block numbers to another. The list is \<open>blks @ E\<close>, where
  \<open>blks\<close> are the numbers in the inode and \<open>E\<close> the numbers in the buffer of the
  indirect block.
\<close>

definition chunk :: "byte list \<Rightarrow> nat \<Rightarrow> byte list" where
  "chunk mem k = take BLOCK_SIZE (drop (BLOCK_SIZE * k) mem)"

text \<open>The block \<open>d\<close> has the bytes of the buffer that belong in block \<open>k\<close> of a
  file of \<open>s\<close> bytes.\<close>

definition holds :: "byte list \<Rightarrow> nat \<Rightarrow> nat \<Rightarrow> byte list \<Rightarrow> bool" where
  "holds mem s k d \<longleftrightarrow> take (s - BLOCK_SIZE * k) d = take (s - BLOCK_SIZE * k) (chunk mem k)"

lemma holds_chunk [simp]: "holds mem s k (chunk mem k)"
  by (simp add: holds_def)

lemma length_chunk: "BLOCK_SIZE * (k + 1) \<le> length mem \<Longrightarrow> length (chunk mem k) = BLOCK_SIZE"
  by (simp add: chunk_def)

lemma load_chunk:
  "BLOCK_SIZE * (k + 1) \<le> length mem \<Longrightarrow> load mem (BLOCK_SIZE * k) BLOCK_SIZE = Inr (chunk mem k)"
  by (simp add: load_def chunk_def)

lemma nat_block_diff [simp]: "nat (int s - BLOCK_SIZE * int k) = s - BLOCK_SIZE * k"
  by linarith

lemma load_rest:
  assumes "BLOCK_SIZE * (k + 1) \<le> length mem" "s \<le> BLOCK_SIZE * (k + 1)"
  shows "load mem (BLOCK_SIZE * k) (s - BLOCK_SIZE * k) = Inr (take (s - BLOCK_SIZE * k) (chunk mem k))"
  using assms by (simp add: load_def chunk_def min_def)

lemma holds_rest:
  "s \<le> BLOCK_SIZE * (k + 1) \<Longrightarrow> BLOCK_SIZE * (k + 1) \<le> length mem \<Longrightarrow>
   holds mem s k (take (s - BLOCK_SIZE * k) (chunk mem k) @ rest)"
  by (auto simp: holds_def length_chunk min_def)

lemma length_concat_blocks:
  "(\<And>k. k < c \<Longrightarrow> length (f k) = BLOCK_SIZE) \<Longrightarrow> length (concat (map f [0..<c])) = BLOCK_SIZE * c"
  by (induction c) simp_all

text \<open>Blocks that hold their bytes hold together the file.\<close>

lemma concat_holds:
  assumes "\<And>k. k < c \<Longrightarrow> length (f k) = BLOCK_SIZE \<and> holds mem s k (f k)" "BLOCK_SIZE * c \<le> length mem"
  shows "take s (concat (map f [0..<c])) = take (min s (BLOCK_SIZE * c)) mem"
  using assms
proof (induction c)
  case (Suc c)
  have len: "length (concat (map f [0..<c])) = BLOCK_SIZE * c"
    using Suc.prems(1) by (intro length_concat_blocks) simp
  have "take s (concat (map f [0..<c])) = take (min s (BLOCK_SIZE * c)) mem"
    using Suc by auto
  moreover have "take (s - BLOCK_SIZE * c) (f c) = take (s - BLOCK_SIZE * c) (take BLOCK_SIZE (drop (BLOCK_SIZE * c) mem))"
    using Suc.prems(1) [of c] by (simp add: holds_def chunk_def)
  ultimately have "take s (concat (map f [0..<Suc c])) = take (min s (BLOCK_SIZE * c)) mem @
      take (min (s - BLOCK_SIZE * c) BLOCK_SIZE) (drop (BLOCK_SIZE * c) mem)"
    using len by simp
  also have "\<dots> = take (min s (BLOCK_SIZE * Suc c)) mem"
  proof (cases "s \<le> BLOCK_SIZE * c")
    case False
    then have "min s (BLOCK_SIZE * Suc c) = BLOCK_SIZE * c + min (s - BLOCK_SIZE * c) BLOCK_SIZE"
      by simp
    then show ?thesis
      using False take_add [of "BLOCK_SIZE * c" "min (s - BLOCK_SIZE * c) BLOCK_SIZE" mem] by simp
  qed (simp add: min_def)
  finally show ?case .
qed simp

lemma write_block_twice [simp]: "write_block (write_block bm b x) b y = write_block bm b y"
  by (simp add: write_block_def disk_write_block_def)

section \<open>Writing\<close>

lemma write_direct_step:
  assumes i: "i < NDIRECT" "BLOCK_SIZE * i < s" "BLOCK_SIZE * (i + 1) \<le> length mem"
    and b: "slot_block bm (blks ! i) = (b, bm1)" and arr: "length arr = BLOCK_SIZE"
  obtains arr1 where "length arr1 = BLOCK_SIZE"
    "write_direct bm blks arr mem (int s) (BLOCK_SIZE * i) i =
      write_direct (write_block bm1 b (chunk mem i)) (blks[i := b]) arr1 mem (int s) (BLOCK_SIZE * (i + 1)) (i + 1)"
proof (cases "BLOCK_SIZE * i + BLOCK_SIZE > s")
  case True
  let ?src = "take (s - BLOCK_SIZE * i) (chunk mem i)"
  have "memcpy_at arr 0 ?src = Inr (?src @ drop (length ?src) arr)"
    using arr by (simp add: memcpy_at_ok length_chunk [OF i(3)])
  then have "write_direct bm blks arr mem (int s) (BLOCK_SIZE * i) i =
      write_direct (write_block bm1 b (chunk mem i)) (blks[i := b]) (?src @ drop (length ?src) arr)
        mem (int s) (BLOCK_SIZE * (i + 1)) (i + 1)"
    using True i b load_chunk [OF i(3)] load_rest [OF i(3), of s]
    by (subst write_direct.simps) (simp add: add.commute)
  then show ?thesis
    by (rule that [rotated]) (use arr in \<open>simp add: length_chunk [OF i(3)]\<close>)
next
  case False
  then have "write_direct bm blks arr mem (int s) (BLOCK_SIZE * i) i =
      write_direct (write_block bm1 b (chunk mem i)) (blks[i := b]) arr mem (int s) (BLOCK_SIZE * (i + 1)) (i + 1)"
    using i b load_chunk [OF i(3)] by (subst write_direct.simps) (simp add: add.commute)
  then show ?thesis
    using that arr by blast
qed

lemma write_direct_turn:
  assumes i: "i < m" "i < NDIRECT" "BLOCK_SIZE * i < s" "BLOCK_SIZE * (i + 1) \<le> length mem"
    and good: "good bm (blks @ E)" and len: "length blks = NDIRECT + 1" "length arr = BLOCK_SIZE"
    and space: "need (blks @ E) i m \<le> bm_free bm"
  obtains b bm1 arr1 where "write_direct bm blks arr mem (int s) (BLOCK_SIZE * i) i =
      write_direct bm1 (blks[i := b]) arr1 mem (int s) (BLOCK_SIZE * (i + 1)) (i + 1)"
    "evolves bm (blks @ E) bm1 (blks[i := b] @ E) {i}" "b \<noteq> 0" "blk bm1 b = chunk mem i" "length arr1 = BLOCK_SIZE"
    "bm_free bm1 + need (blks @ E) i m = bm_free bm + need (blks[i := b] @ E) (i + 1) m"
proof -
  let ?A = "blks @ E"
  have A: "i < length ?A" "?A ! i = blks ! i" "?A[i := b] = blks[i := b] @ E" for b
    using i(2) len(1) by (simp_all add: nth_append list_update_append1)
  note need = need_step [OF i(1) A(1)]
  have "bm_free bm \<noteq> 0" if "?A ! i = 0"
    using space that by (simp add: need)
  with good A(1) obtain b bm1 where b: "slot_block bm (blks ! i) = (b, bm1)" "b \<noteq> 0"
    "\<forall>d. length d = BLOCK_SIZE \<longrightarrow> evolves bm ?A (write_block bm1 b d) (blks[i := b] @ E) {i} \<and>
       blk (write_block bm1 b d) b = d \<and>
       bm_free (write_block bm1 b d) + (if ?A ! i = 0 then 1 else 0) = bm_free bm"
    unfolding A(2,3) [symmetric] by (rule fill_step)
  note st = b(3) [rule_format, OF length_chunk [OF i(4)]]
  obtain arr1 where "length arr1 = BLOCK_SIZE" "write_direct bm blks arr mem (int s) (BLOCK_SIZE * i) i =
      write_direct (write_block bm1 b (chunk mem i)) (blks[i := b]) arr1 mem (int s) (BLOCK_SIZE * (i + 1)) (i + 1)"
    using i(2-4) b(1) len(2) by (rule write_direct_step)
  then show ?thesis
    using that b(2) st need need_update [of i "i + 1" ?A b m] unfolding A(3) by auto
qed

lemma write_direct_ok:
  assumes mem: "BLOCK_SIZE * nblk s \<le> length mem"
  defines "m \<equiv> min NDIRECT (nblk s)"
  shows "i \<le> m \<Longrightarrow> good bm (blks @ E) \<Longrightarrow> length blks = NDIRECT + 1 \<Longrightarrow> length arr = BLOCK_SIZE \<Longrightarrow>
    need (blks @ E) i m \<le> bm_free bm \<Longrightarrow>
    \<exists>bm' blks' arr'. write_direct bm blks arr mem (int s) (BLOCK_SIZE * i) i
        = Inr (bm', blks', arr', BLOCK_SIZE * m, m) \<and>
      evolves bm (blks @ E) bm' (blks' @ E) {i..<m} \<and> length blks' = NDIRECT + 1 \<and>
      length arr' = BLOCK_SIZE \<and> bm_free bm' + need (blks @ E) i m = bm_free bm \<and>
      (\<forall>k\<in>{i..<m}. blks' ! k \<noteq> 0 \<and> holds mem s k (blk bm' (blks' ! k)))"
proof (induction "m - i" arbitrary: i bm blks arr)
  case 0
  then have "i = m" "\<not> (BLOCK_SIZE * m < s \<and> m < NDIRECT)"
    using less_nblk_iff [of m s] unfolding m_def by linarith+
  then show ?case
    using 0 evolves_refl by (subst write_direct.simps) auto
next
  case (Suc d)
  have i: "i < m" "i < NDIRECT" "BLOCK_SIZE * i < s" "BLOCK_SIZE * (i + 1) \<le> length mem"
    using Suc.hyps(2) less_nblk_iff [of i s] mem by (auto simp: m_def)
  obtain b bm1 arr1 where t: "write_direct bm blks arr mem (int s) (BLOCK_SIZE * i) i =
      write_direct bm1 (blks[i := b]) arr1 mem (int s) (BLOCK_SIZE * (i + 1)) (i + 1)"
    "evolves bm (blks @ E) bm1 (blks[i := b] @ E) {i}" "b \<noteq> 0" "blk bm1 b = chunk mem i" "length arr1 = BLOCK_SIZE"
    "bm_free bm1 + need (blks @ E) i m = bm_free bm + need (blks[i := b] @ E) (i + 1) m"
    using i Suc.prems(2-5) by (rule write_direct_turn)
  let ?blks = "blks[i := b]"
  have pre: "d = m - (i + 1)" "i + 1 \<le> m" "good bm1 (?blks @ E)" "length ?blks = NDIRECT + 1"
    "need (?blks @ E) (i + 1) m \<le> bm_free bm1"
    using Suc.hyps(2) i(1) evolvesD(1) [OF t(2)] Suc.prems(3,5) t(6) by auto
  obtain bm' blks' arr' where IH:
    "write_direct bm1 ?blks arr1 mem (int s) (BLOCK_SIZE * (i + 1)) (i + 1) = Inr (bm', blks', arr', BLOCK_SIZE * m, m)"
    "evolves bm1 (?blks @ E) bm' (blks' @ E) {i + 1..<m}" "length blks' = NDIRECT + 1" "length arr' = BLOCK_SIZE"
    "bm_free bm' + need (?blks @ E) (i + 1) m = bm_free bm1"
    "\<forall>k\<in>{i + 1..<m}. blks' ! k \<noteq> 0 \<and> holds mem s k (blk bm' (blks' ! k))"
    using Suc.hyps(1) [OF pre(1-4) t(5) pre(5)] by blast
  have "blks' ! i = b" "blk bm' b = chunk mem i"
    using evolvesD(3,4) [OF IH(2), of i] i Suc.prems(3) IH(3) t(3,4) by (simp_all add: nth_append)
  then have "\<forall>k\<in>{i..<m}. blks' ! k \<noteq> 0 \<and> holds mem s k (blk bm' (blks' ! k))"
    using IH(6) t(3) by (auto simp: Suc_le_eq le_less)
  moreover have "evolves bm (blks @ E) bm' (blks' @ E) {i..<m}"
    using t(2) IH(2) i(1) by (auto intro: evolves_trans)
  ultimately show ?case
    using t(1,6) IH(1,3-5) by auto
qed

text \<open>A turn of the loop over the indirect block. It breaks at a block that is only partly filled; that one
  is written from the zeroed buffer \<open>arr_for_remain\<close>.\<close>

lemma write_indirect_step:
  assumes i: "i < NINDIRECT" "BLOCK_SIZE * (NDIRECT + i + 1) \<le> length mem"
    and b: "slot_block bm (entries ind ! i) = (b, bm1)" and ind: "ind_put ind i b = Inr ind1" "length ind = BLOCK_SIZE"
    and whole: "BLOCK_SIZE * (NDIRECT + i + 1) \<le> s"
  shows "write_indirect bm ind arr mem (int s) (BLOCK_SIZE * (NDIRECT + i)) i =
    write_indirect (write_block bm1 b (chunk mem (NDIRECT + i))) ind1 arr mem (int s)
      (BLOCK_SIZE * (NDIRECT + (i + 1))) (i + 1)"
  using i(1) b ind(1) ind_at_entries [OF ind(2) i(1)] load_chunk [OF i(2)] whole
  by (subst write_indirect.simps [of bm ind arr mem "int s" "BLOCK_SIZE * (NDIRECT + i)" i])
    (simp add: algebra_simps)

lemma write_indirect_last:
  assumes i: "i < NINDIRECT" "BLOCK_SIZE * (NDIRECT + i + 1) \<le> length mem"
    and b: "slot_block bm (entries ind ! i) = (b, bm1)" and ind: "ind_put ind i b = Inr ind1" "length ind = BLOCK_SIZE"
    and last: "BLOCK_SIZE * (NDIRECT + i) < s" "s < BLOCK_SIZE * (NDIRECT + i + 1)" and arr: "length arr = BLOCK_SIZE"
  obtains d where "length d = BLOCK_SIZE" "holds mem s (NDIRECT + i) d"
    "write_indirect bm ind arr mem (int s) (BLOCK_SIZE * (NDIRECT + i)) i = Inr (write_block bm1 b d, ind1)"
proof -
  let ?src = "take (s - BLOCK_SIZE * (NDIRECT + i)) (chunk mem (NDIRECT + i))"
  let ?d = "?src @ drop (length ?src) arr"
  have "length ?d = BLOCK_SIZE" "memcpy_at arr 0 ?src = Inr ?d"
    using arr last(2) i(2) by (simp_all add: length_chunk memcpy_at_ok)
  moreover have "holds mem s (NDIRECT + i) ?d"
    using last(2) i(2) by (intro holds_rest) simp_all
  moreover have "write_indirect bm ind arr mem (int s) (BLOCK_SIZE * (NDIRECT + i)) i = Inr (write_block bm1 b ?d, ind1)"
    using i(1) b ind(1) ind_at_entries [OF ind(2) i(1)] last load_rest [OF i(2), of s] calculation(2)
      nat_block_diff [of s "NDIRECT + i"]
    by (subst write_indirect.simps [of bm ind arr mem "int s" "BLOCK_SIZE * (NDIRECT + i)" i]) simp
  ultimately show ?thesis
    using that by blast
qed

text \<open>The block that entry \<open>i\<close> of the indirect block gets, and what writing to it does.\<close>

lemma indirect_entry:
  assumes i: "i < m" "i < NINDIRECT" and good: "good bm (blks @ entries ind)"
    and len: "length blks = NDIRECT + 1" "length ind = BLOCK_SIZE"
    and space: "need (blks @ entries ind) (101 + i) (101 + m) \<le> bm_free bm"
  obtains b bm1 ind1 where "slot_block bm (entries ind ! i) = (b, bm1)" "b \<noteq> 0" "ind_put ind i b = Inr ind1"
    "length ind1 = BLOCK_SIZE" "entries ind1 = (entries ind)[i := b]"
    "\<forall>d. length d = BLOCK_SIZE \<longrightarrow>
       evolves bm (blks @ entries ind) (write_block bm1 b d) (blks @ entries ind1) {101 + i} \<and>
       blk (write_block bm1 b d) b = d \<and>
       bm_free (write_block bm1 b d) + need (blks @ entries ind) (101 + i) (101 + m)
         = bm_free bm + need (blks @ entries ind1) (101 + (i + 1)) (101 + m)"
proof -
  let ?A = "blks @ entries ind"
  have A: "101 + i < length ?A" "?A ! (101 + i) = entries ind ! i"
    "?A[101 + i := b] = blks @ (entries ind)[i := b]" for b
    using i len by (simp_all add: nth_append list_update_append)
  have need: "need ?A (101 + i) (101 + m) = (if ?A ! (101 + i) = 0 then 1 else 0) + need ?A (Suc (101 + i)) (101 + m)"
    using i(1) A(1) by (intro need_step) simp_all
  have "bm_free bm \<noteq> 0" if "?A ! (101 + i) = 0"
    using space that by (simp add: need)
  with good A(1) obtain b bm1 where b: "slot_block bm (entries ind ! i) = (b, bm1)" "b \<noteq> 0"
    "\<forall>d. length d = BLOCK_SIZE \<longrightarrow> evolves bm ?A (write_block bm1 b d) (blks @ (entries ind)[i := b]) {101 + i} \<and>
       blk (write_block bm1 b d) b = d \<and>
       bm_free (write_block bm1 b d) + (if ?A ! (101 + i) = 0 then 1 else 0) = bm_free bm"
    unfolding A(2,3) [symmetric] by (rule fill_step)
  obtain ind1 where ind1: "ind_put ind i b = Inr ind1" "length ind1 = BLOCK_SIZE" "entries ind1 = (entries ind)[i := b]"
    using len(2) i(2) by (rule ind_put_entries)
  have "need (blks @ entries ind1) (101 + (i + 1)) (101 + m) = need ?A (Suc (101 + i)) (101 + m)"
    using need_update [of "101 + i" "Suc (101 + i)" ?A b "101 + m"] unfolding A(3) ind1(3) by simp
  then show ?thesis
    using that [OF b(1,2) ind1] b(3) need unfolding ind1(3) by auto
qed

text \<open>The entries behind entry \<open>i\<close>, written after it, leave it and its block alone.\<close>

lemma indirect_rest:
  assumes i: "i < m" "i < NINDIRECT" and len: "length blks = NDIRECT + 1"
    and b: "b \<noteq> 0" "entries ind1 = (entries ind)[i := b]"
    and first: "evolves bm (blks @ entries ind) bm1 (blks @ entries ind1) {101 + i}" "blk bm1 b = chunk mem (NDIRECT + i)"
    and rest: "evolves bm1 (blks @ entries ind1) bm' (blks @ entries ind') {101 + (i + 1)..<101 + m}"
      "\<forall>k\<in>{i + 1..<m}. entries ind' ! k \<noteq> 0 \<and> holds mem s (NDIRECT + k) (blk bm' (entries ind' ! k))"
  shows "evolves bm (blks @ entries ind) bm' (blks @ entries ind') {101 + i..<101 + m}"
    and "\<forall>k\<in>{i..<m}. entries ind' ! k \<noteq> 0 \<and> holds mem s (NDIRECT + k) (blk bm' (entries ind' ! k))"
proof -
  have "entries ind' ! i = b" "blk bm' b = chunk mem (NDIRECT + i)"
    using evolvesD(3,4) [OF rest(1), of "101 + i"] i(2) len first(2) b by (simp_all add: nth_append)
  then show "\<forall>k\<in>{i..<m}. entries ind' ! k \<noteq> 0 \<and> holds mem s (NDIRECT + k) (blk bm' (entries ind' ! k))"
    using rest(2) b(1) by (auto simp: Suc_le_eq le_less)
  show "evolves bm (blks @ entries ind) bm' (blks @ entries ind') {101 + i..<101 + m}"
    using first(1) rest(1) i(1) by (auto intro: evolves_trans)
qed

lemma write_indirect_ok:
  assumes mem: "BLOCK_SIZE * nblk s \<le> length mem" and s: "nblk s \<le> MAXFILE"
  defines "m \<equiv> nblk s - NDIRECT"
  shows "i \<le> m \<Longrightarrow> good bm (blks @ entries ind) \<Longrightarrow> length blks = NDIRECT + 1 \<Longrightarrow>
    length arr = BLOCK_SIZE \<Longrightarrow> length ind = BLOCK_SIZE \<Longrightarrow> NDIRECT < nblk s \<Longrightarrow>
    need (blks @ entries ind) (101 + i) (101 + m) \<le> bm_free bm \<Longrightarrow>
    \<exists>bm' ind'. write_indirect bm ind arr mem (int s) (BLOCK_SIZE * (NDIRECT + i)) i = Inr (bm', ind') \<and>
      evolves bm (blks @ entries ind) bm' (blks @ entries ind') {101 + i..<101 + m} \<and>
      length ind' = BLOCK_SIZE \<and>
      bm_free bm' + need (blks @ entries ind) (101 + i) (101 + m) = bm_free bm \<and>
      (\<forall>k\<in>{i..<m}. entries ind' ! k \<noteq> 0 \<and> holds mem s (NDIRECT + k) (blk bm' (entries ind' ! k)))"
proof (induction "m - i" arbitrary: i bm ind)
  case 0
  then have "i = m" "nblk s = NDIRECT + m" "\<not> BLOCK_SIZE * (NDIRECT + m) < s"
    using less_nblk_iff [of "NDIRECT + m" s] by (auto simp: m_def)
  then show ?case
    using 0 evolves_refl by (subst write_indirect.simps) auto
next
  case (Suc d)
  have i: "i < m" "i < NINDIRECT" "BLOCK_SIZE * (NDIRECT + i) < s"
    "BLOCK_SIZE * (NDIRECT + i + 1) \<le> length mem"
    using Suc.hyps(2) less_nblk_iff [of "NDIRECT + i" s] mem s by (auto simp: m_def)
  obtain b bm1 ind1 where b: "slot_block bm (entries ind ! i) = (b, bm1)" "b \<noteq> 0"
    and ind1: "ind_put ind i b = Inr ind1" "length ind1 = BLOCK_SIZE" "entries ind1 = (entries ind)[i := b]"
    and st: "\<forall>d. length d = BLOCK_SIZE \<longrightarrow>
       evolves bm (blks @ entries ind) (write_block bm1 b d) (blks @ entries ind1) {101 + i} \<and>
       blk (write_block bm1 b d) b = d \<and>
       bm_free (write_block bm1 b d) + need (blks @ entries ind) (101 + i) (101 + m)
         = bm_free bm + need (blks @ entries ind1) (101 + (i + 1)) (101 + m)"
    by (rule indirect_entry [OF i(1,2) Suc.prems(2,3,5,7)])
  show ?case
  proof (cases "s < BLOCK_SIZE * (NDIRECT + i + 1)")
    case True
    obtain d where d: "length d = BLOCK_SIZE" "holds mem s (NDIRECT + i) d"
      "write_indirect bm ind arr mem (int s) (BLOCK_SIZE * (NDIRECT + i)) i = Inr (write_block bm1 b d, ind1)"
      by (rule write_indirect_last [OF i(2,4) b(1) ind1(1) Suc.prems(5) i(3) True Suc.prems(4)])
    have m: "m = i + 1"
      using True i(1) nblk_le_iff [of s "NDIRECT + i + 1"] by (simp add: m_def)
    then have ran: "{101 + i..<101 + m} = {101 + i}" "{i..<m} = {i}"
      by auto
    show ?thesis
      unfolding ran using st [rule_format, OF d(1)] d(2,3) ind1 i(2) b(2) m by simp
  next
    case False
    let ?bm = "write_block bm1 b (chunk mem (NDIRECT + i))"
    note t = st [rule_format, OF length_chunk [OF i(4)]]
    note unf = write_indirect_step [OF i(2,4) b(1) ind1(1) Suc.prems(5) leI [OF False]]
    have pre: "d = m - (i + 1)" "i + 1 \<le> m" "good ?bm (blks @ entries ind1)"
      "need (blks @ entries ind1) (101 + (i + 1)) (101 + m) \<le> bm_free ?bm"
      using Suc.hyps(2) i(1) evolvesD(1) t Suc.prems(7) by auto
    obtain bm' ind' where IH:
      "write_indirect ?bm ind1 arr mem (int s) (BLOCK_SIZE * (NDIRECT + (i + 1))) (i + 1) = Inr (bm', ind')"
      "evolves ?bm (blks @ entries ind1) bm' (blks @ entries ind') {101 + (i + 1)..<101 + m}"
      "length ind' = BLOCK_SIZE"
      "bm_free bm' + need (blks @ entries ind1) (101 + (i + 1)) (101 + m) = bm_free ?bm"
      "\<forall>k\<in>{i + 1..<m}. entries ind' ! k \<noteq> 0 \<and> holds mem s (NDIRECT + k) (blk bm' (entries ind' ! k))"
      using Suc.hyps(1) [OF pre(1-3) Suc.prems(3,4) ind1(2) Suc.prems(6) pre(4)] by blast
    show ?thesis
      using unf IH(1,3,4) t indirect_rest [OF i(1,2) Suc.prems(3) b(2) ind1(3) _ _ IH(2,5), of bm] by auto
  qed
qed

section \<open>Freeing\<close>

lemma free_direct_ok:
  assumes "j = min NDIRECT pre"
  shows "good bm (blks @ E) \<Longrightarrow> length blks = NDIRECT + 1 \<Longrightarrow>
    \<forall>k\<in>{i..<j}. blks ! k \<noteq> 0 \<Longrightarrow>
    \<exists>bm' blks'. free_direct bm blks pre i = Inr (bm', blks', max i j) \<and>
      evolves bm (blks @ E) bm' (blks' @ E) {i..<j} \<and> length blks' = NDIRECT + 1 \<and>
      (\<forall>k\<in>{i..<j}. blks' ! k = 0)"
proof (induction "j - i" arbitrary: i bm blks)
  case 0
  then have "\<not> (i < NDIRECT \<and> i < pre)"
    using assms by auto
  then show ?case
    using 0 evolves_refl by (subst free_direct.simps) (auto simp: max_def)
next
  case (Suc d)
  let ?A = "blks @ E"
  have i: "i < j" "i < NDIRECT" "i < pre"
    using Suc.hyps(2) assms by auto
  have Ai: "i < length ?A" "?A ! i = blks ! i" "?A[i := 0] = blks[i := 0] @ E" "blks ! i \<noteq> 0"
    using i Suc.prems(2,3) by (simp_all add: nth_append list_update_append1)
  obtain bm1 where bm1: "free_block bm (blks ! i) = Inr bm1" "evolves bm ?A bm1 (blks[i := 0] @ E) {i}"
    using free_step [OF Suc.prems(1) Ai(1)] Ai by metis
  have unf: "free_direct bm blks pre i = free_direct bm1 (blks[i := 0]) pre (i + 1)"
    using i bm1(1) good_entry(1) [OF Suc.prems(1) Ai(1)] Ai by (subst free_direct.simps) simp
  have "d = j - (i + 1)" "length (blks[i := 0]) = NDIRECT + 1" "\<forall>k\<in>{i + 1..<j}. blks[i := 0] ! k \<noteq> 0"
    using Suc.hyps(2) Suc.prems(2,3) by auto
  then obtain bm' blks' where IH: "free_direct bm1 (blks[i := 0]) pre (i + 1) = Inr (bm', blks', max (i + 1) j)"
    "evolves bm1 (blks[i := 0] @ E) bm' (blks' @ E) {i + 1..<j}" "length blks' = NDIRECT + 1"
    "\<forall>k\<in>{i + 1..<j}. blks' ! k = 0"
    using Suc.hyps(1) [of "i + 1" bm1 "blks[i := 0]"] evolvesD(1) [OF bm1(2)] by auto
  have "blks' ! i = 0"
    using evolvesD(3) [OF IH(2), of i] i Suc.prems(2) IH(3) by (simp add: nth_append)
  then have "\<forall>k\<in>{i..<j}. blks' ! k = 0"
    using IH(4) by (auto simp: Suc_le_eq le_less)
  moreover have "evolves bm ?A bm' (blks' @ E) {i..<j}"
    using evolves_trans [OF bm1(2) IH(2)] i(1) by auto
  ultimately show ?case
    using unf IH i(1) by (auto simp: max_def)
qed

lemma free_indirect_loop_ok:
  assumes "j \<le> NINDIRECT"
  shows "good bm (blks @ entries ind) \<Longrightarrow> length blks = NDIRECT + 1 \<Longrightarrow> length ind = BLOCK_SIZE \<Longrightarrow>
    \<forall>k\<in>{i..<j}. entries ind ! k \<noteq> 0 \<Longrightarrow>
    \<exists>bm' ind'. free_indirect_loop bm ind j i = Inr (bm', ind') \<and>
      evolves bm (blks @ entries ind) bm' (blks @ entries ind') {101 + i..<101 + j} \<and>
      length ind' = BLOCK_SIZE \<and> (\<forall>k\<in>{i..<j}. entries ind' ! k = 0)"
proof (induction "j - i" arbitrary: i bm ind)
  case 0
  then show ?case
    using evolves_refl by (subst free_indirect_loop.simps) auto
next
  case (Suc d)
  let ?A = "blks @ entries ind"
  have i: "i < j" "i < NINDIRECT"
    using Suc.hyps(2) assms by auto
  have Ai: "101 + i < length ?A" "?A ! (101 + i) = entries ind ! i"
    "?A[101 + i := 0] = blks @ (entries ind)[i := 0]" "entries ind ! i \<noteq> 0"
    using i Suc.prems(2,4) by (simp_all add: nth_append list_update_append)
  obtain bm1 where bm1: "free_block bm (entries ind ! i) = Inr bm1"
    "evolves bm ?A bm1 (blks @ (entries ind)[i := 0]) {101 + i}"
    using free_step [OF Suc.prems(1) Ai(1)] Ai by metis
  obtain ind1 where ind1: "ind_put ind i 0 = Inr ind1" "length ind1 = BLOCK_SIZE"
    "entries ind1 = (entries ind)[i := 0]"
    using Suc.prems(3) i(2) by (rule ind_put_entries)
  have unf: "free_indirect_loop bm ind j i = free_indirect_loop bm1 ind1 j (i + 1)"
    using i bm1(1) ind1(1) ind_at_entries [OF Suc.prems(3) i(2)] by (subst free_indirect_loop.simps) simp
  have "d = j - (i + 1)" "good bm1 (blks @ entries ind1)" "\<forall>k\<in>{i + 1..<j}. entries ind1 ! k \<noteq> 0"
    using Suc.hyps(2) Suc.prems(4) evolvesD(1) [OF bm1(2)] ind1(3) by auto
  then obtain bm' ind' where IH: "free_indirect_loop bm1 ind1 j (i + 1) = Inr (bm', ind')"
    "evolves bm1 (blks @ entries ind1) bm' (blks @ entries ind') {101 + (i + 1)..<101 + j}"
    "length ind' = BLOCK_SIZE" "\<forall>k\<in>{i + 1..<j}. entries ind' ! k = 0"
    using Suc.hyps(1) [of "i + 1" bm1 ind1] Suc.prems(2) ind1(2) by auto
  have "entries ind' ! i = 0"
    using evolvesD(3) [OF IH(2), of "101 + i"] i Suc.prems(2) ind1(3) by (simp add: nth_append)
  then have "\<forall>k\<in>{i..<j}. entries ind' ! k = 0"
    using IH(4) by (auto simp: Suc_le_eq le_less)
  moreover have "evolves bm ?A bm' (blks @ entries ind') {101 + i..<101 + j}"
    using evolves_trans [OF bm1(2) IH(2) [unfolded ind1(3)]] i(1) ind1(3) by auto
  ultimately show ?case
    using unf IH by auto
qed

end
