(* ===== verification/Write_File.thy ===== *)
theory Write_File
  imports Write_Loops
begin

text \<open>
  Correctness of \<open>inode_manager::write_file\<close>. The two halves of the function are described
  by what they do to the list of block numbers; then the new inode is put in the table.
\<close>

text \<open>The block number of block \<open>k\<close> of the file, in the list of all numbers of the
  inode.\<close>

definition idx :: "nat \<Rightarrow> nat" where
  "idx k = (if k < NDIRECT then k else k + 1)"

definition slot :: "u32 list \<Rightarrow> nat \<Rightarrow> u32" where
  "slot A k = A ! idx k"

text \<open>The entries \<open>E\<close> are those of the indirect block.\<close>

definition ind_ok :: "block_manager \<Rightarrow> u32 list \<Rightarrow> u32 list \<Rightarrow> bool" where
  "ind_ok bm blks E \<longleftrightarrow> length blks = NDIRECT + 1 \<and>
     E = (if blks ! NDIRECT = 0 then replicate NINDIRECT 0 else entries (blk bm (blks ! NDIRECT)))"

lemma ind_okD:
  assumes "ind_ok bm blks E"
  shows "length blks = NDIRECT + 1" "length E = NINDIRECT"
    "blks ! NDIRECT = 0 \<Longrightarrow> E = replicate NINDIRECT 0"
    "blks ! NDIRECT \<noteq> 0 \<Longrightarrow> E = entries (blk bm (blks ! NDIRECT))"
  using assms by (auto simp: ind_ok_def)

lemma slot_append:
  assumes "length blks = NDIRECT + 1"
  shows "k < NDIRECT \<Longrightarrow> slot (blks @ E) k = blks ! k"
    "NDIRECT \<le> k \<Longrightarrow> slot (blks @ E) k = E ! (k - NDIRECT)"
  using assms by (simp_all add: slot_def idx_def nth_append Suc_diff_le)

section \<open>Writing the data\<close>

text \<open>How many blocks a file of \<open>c\<close> data blocks holds, its indirect block
  included.\<close>

definition total :: "nat \<Rightarrow> nat" where
  "total c = c + (if NDIRECT < c then 1 else 0)"

lemma ind_ok_buffer:
  assumes "good bm (blks @ E)" "ind_ok bm blks E"
  defines "ind \<equiv> (if is_valid_block bm (blks ! NDIRECT) then read_block bm (blks ! NDIRECT) (zeros BLOCK_SIZE)
                  else zeros BLOCK_SIZE)"
  shows "entries ind = E" "length ind = BLOCK_SIZE"
proof -
  have A: "NDIRECT < length (blks @ E)" "(blks @ E) ! NDIRECT = blks ! NDIRECT"
    using ind_okD(1) [OF assms(2)] by (simp_all add: nth_append)
  note entry = good_entry [OF assms(1) A(1), unfolded A(2)]
  have inv: "bm_inv bm"
    using assms(1) by (simp add: good_def)
  show "entries ind = E" "length ind = BLOCK_SIZE"
    using entry(1-3) data_block_range(1) ind_okD(3,4) [OF assms(2)] length_blk [OF inv]
    by (cases "blks ! NDIRECT = 0"; simp add: ind_def entries_zeros read_block_blk)+
qed

lemma write_tail_ok:
  assumes good: "good bm (blks @ E)" and ind: "ind_ok bm blks E"
    and mem: "BLOCK_SIZE * nblk s \<le> length mem" and s: "NDIRECT < nblk s" "nblk s \<le> MAXFILE"
    and arr: "length arr = BLOCK_SIZE"
    and space: "(if blks ! NDIRECT = 0 then 1 else 0) + need (blks @ E) 101 (nblk s + 1) \<le> bm_free bm"
  obtains bm' b E' where
    "write_tail bm blks arr mem (int s) (BLOCK_SIZE * NDIRECT) = Inr (bm', blks[NDIRECT := b])"
    "evolves bm (blks @ E) bm' (blks[NDIRECT := b] @ E') {NDIRECT..nblk s}"
    "ind_ok bm' (blks[NDIRECT := b]) E'" "b \<noteq> 0"
    "\<forall>k<nblk s - NDIRECT. E' ! k \<noteq> 0 \<and> holds mem s (NDIRECT + k) (blk bm' (E' ! k))"
proof -
  let ?A = "blks @ E"
  note len = ind_okD(1,2) [OF ind]
  have A: "NDIRECT < length ?A" "?A ! NDIRECT = blks ! NDIRECT" "?A[NDIRECT := b] = blks[NDIRECT := b] @ E" for b
    using len by (simp_all add: nth_append list_update_append1)
  define ind where "ind = (if is_valid_block bm (blks ! NDIRECT) then read_block bm (blks ! NDIRECT) (zeros BLOCK_SIZE)
    else zeros BLOCK_SIZE)"
  note buf = ind_ok_buffer [OF good ind, folded ind_def]
  have "bm_free bm \<noteq> 0" if "?A ! NDIRECT = 0"
    using space that A(2) by simp
  note step = slot_step [OF good A(1) this, unfolded A(2,3)]
  obtain b bm2 where b: "slot_block bm (blks ! NDIRECT) = (b, bm2)" "b \<noteq> 0"
    "evolves bm ?A bm2 (blks[NDIRECT := b] @ entries ind) {NDIRECT}"
    "bm_free bm2 + (if blks ! NDIRECT = 0 then 1 else 0) = bm_free bm"
    unfolding buf(1) by (rule step) blast+
  let ?blks = "blks[NDIRECT := b]"
  have "need (?blks @ entries ind) 101 (nblk s + 1) \<le> bm_free bm2"
    using space b(4) need_update [of NDIRECT 101 ?A b "nblk s + 1"] unfolding A(3) buf(1) by simp
  then obtain bm3 ind' where w:
    "write_indirect bm2 ind arr mem (int s) (BLOCK_SIZE * NDIRECT) 0 = Inr (bm3, ind')"
    "evolves bm2 (?blks @ entries ind) bm3 (?blks @ entries ind') {101..<101 + (nblk s - NDIRECT)}"
    "length ind' = BLOCK_SIZE"
    "\<forall>k<nblk s - NDIRECT. entries ind' ! k \<noteq> 0 \<and> holds mem s (NDIRECT + k) (blk bm3 (entries ind' ! k))"
    using write_indirect_ok [OF mem s(2), of 0 bm2 ?blks ind arr] evolvesD(1) [OF b(3)] len arr buf(2) s
    by auto
  have A': "NDIRECT < length (?blks @ entries ind')" "(?blks @ entries ind') ! NDIRECT = b"
    using len by (simp_all add: nth_append)
  note st = blk_step [OF evolvesD(1) [OF w(2)] A'(1), unfolded A'(2), OF b(2) w(3)]
  have "blk (write_block bm3 b ind') (entries ind' ! k) = blk bm3 (entries ind' ! k)" if "k < nblk s - NDIRECT" for k
    using evolvesD(4) [OF st(1), of "101 + k"] that w(4) s(2) len by (simp add: nth_append)
  moreover have "write_tail bm blks arr mem (int s) (BLOCK_SIZE * NDIRECT) = Inr (write_block bm3 b ind', ?blks)"
    using w(1) unfolding write_tail_def ind_def [symmetric] b(1) Let_def by simp
  moreover have "evolves bm ?A (write_block bm3 b ind') (?blks @ entries ind') {NDIRECT..nblk s}"
    by (rule evolves_trans [OF evolves_trans [OF b(3) w(2) order_refl] st(1)]) (use s in auto)
  moreover have "ind_ok (write_block bm3 b ind') ?blks (entries ind')"
    using len b(2) st(2) by (simp add: ind_ok_def)
  ultimately show ?thesis
    using that b(2) w(4) by simp
qed

lemma ind_ok_evolves:
  assumes "ind_ok bm blks E" "evolves bm (blks @ E) bm' (blks' @ E) I" "NDIRECT \<notin> I"
  shows "ind_ok bm' blks' E" "blks' ! NDIRECT = blks ! NDIRECT"
proof -
  note len = ind_okD(1,2) [OF assms(1)]
  have len': "length blks' = NDIRECT + 1"
    using evolvesD(2) [OF assms(2)] len(1) by simp
  show same: "blks' ! NDIRECT = blks ! NDIRECT"
    using evolvesD(3) [OF assms(2) _ assms(3)] len len' by (simp add: nth_append)
  then show "ind_ok bm' blks' E"
    using evolvesD(4) [OF assms(2) _ assms(3)] len len' assms(1) by (auto simp: ind_ok_def nth_append)
qed

lemma need_tail:
  assumes "\<And>k. k < c0 \<Longrightarrow> slot A k \<noteq> 0"
  shows "need A 101 (c + 1) \<le> c - max NDIRECT c0"
proof -
  have "A ! k \<noteq> 0" if "101 \<le> k" "k < max 101 (c0 + 1)" for k
  proof -
    have "k - 1 < c0" "\<not> k - 1 < NDIRECT" "k - 1 + 1 = k"
      using that by auto
    then show ?thesis
      using assms [of "k - 1"] by (simp add: slot_def idx_def)
  qed
  then have "need A 101 (c + 1) \<le> c + 1 - max 101 (c0 + 1)"
    by (intro need_le) auto
  then show ?thesis by simp
qed

lemma direct_half_ok:
  assumes good: "good bm (blks @ E)" and ind: "ind_ok bm blks E" and mem: "BLOCK_SIZE * nblk s \<le> length mem"
    and full: "\<And>k. k < c0 \<Longrightarrow> slot (blks @ E) k \<noteq> 0" and space: "total (nblk s) - total c0 \<le> bm_free bm"
  defines "m \<equiv> min NDIRECT (nblk s)"
  obtains bm1 blks1 arr where
    "write_direct bm blks (zeros BLOCK_SIZE) mem (int s) 0 0 = Inr (bm1, blks1, arr, BLOCK_SIZE * m, m)"
    "evolves bm (blks @ E) bm1 (blks1 @ E) {0..<m}" "length arr = BLOCK_SIZE"
    "bm_free bm \<le> bm_free bm1 + (m - min NDIRECT c0)" "ind_ok bm1 blks1 E" "blks1 ! NDIRECT = blks ! NDIRECT"
    "\<forall>k<m. blks1 ! k \<noteq> 0 \<and> holds mem s k (blk bm1 (blks1 ! k))"
proof -
  let ?A = "blks @ E"
  have "?A ! k \<noteq> 0" if "k < min NDIRECT c0" for k
    using full [of k] that by (simp add: slot_def idx_def)
  then have need: "need ?A 0 m \<le> m - min NDIRECT c0"
    by (intro need_le) auto
  then have "need ?A 0 m \<le> bm_free bm"
    using space by (auto simp: total_def m_def split: if_splits)
  then obtain bm1 blks1 arr where d:
    "write_direct bm blks (zeros BLOCK_SIZE) mem (int s) 0 0 = Inr (bm1, blks1, arr, BLOCK_SIZE * m, m)"
    "evolves bm ?A bm1 (blks1 @ E) {0..<m}" "length blks1 = NDIRECT + 1" "length arr = BLOCK_SIZE"
    "bm_free bm1 + need ?A 0 m = bm_free bm" "\<forall>k\<in>{0..<m}. blks1 ! k \<noteq> 0 \<and> holds mem s k (blk bm1 (blks1 ! k))"
    using write_direct_ok [OF mem, of 0 bm blks E "zeros BLOCK_SIZE"] good ind_okD(1) [OF ind] unfolding m_def
    by auto
  have "NDIRECT \<notin> {0..<m}"
    by (simp add: m_def)
  note ind1 = ind_ok_evolves [OF ind d(2) this]
  show ?thesis
    by (rule that [OF d(1,2,4) _ ind1]) (use d(5,6) need in auto)
qed

text \<open>Every block of the file holds its data after both parts.\<close>

lemma tail_slots:
  assumes "k < nblk s" "evolves bm1 (blks1 @ E) bm' (blks1[NDIRECT := b] @ E') {NDIRECT..nblk s}"
    "\<forall>k<nblk s - NDIRECT. E' ! k \<noteq> 0 \<and> holds mem s (NDIRECT + k) (blk bm' (E' ! k))"
    "\<forall>k<min NDIRECT (nblk s). blks1 ! k \<noteq> 0 \<and> holds mem s k (blk bm1 (blks1 ! k))" "length blks1 = NDIRECT + 1"
  defines "A' \<equiv> blks1[NDIRECT := b] @ E'"
  shows "slot A' k \<noteq> 0 \<and> holds mem s k (blk bm' (slot A' k))"
proof (cases "k < NDIRECT")
  case True
  then have "(blks1 @ E) ! k = blks1 ! k" "slot A' k = blks1 ! k" "k < length (blks1 @ E)"
    using assms(5) by (simp_all add: A'_def slot_def idx_def nth_append)
  then show ?thesis
    using assms(1,4) evolvesD(4) [OF assms(2), of k] True by auto
next
  case False
  then show ?thesis
    using assms(3) [rule_format, of "k - NDIRECT"] slot_append(2) [of "blks1[NDIRECT := b]" k E'] assms(1,5)
    by (simp add: A'_def)
qed

lemma write_data_ok:
  assumes good: "good bm (blks @ E)" and ind: "ind_ok bm blks E"
    and mem: "BLOCK_SIZE * nblk s \<le> length mem" and s: "nblk s \<le> MAXFILE"
    and full: "\<And>k. k < c0 \<Longrightarrow> slot (blks @ E) k \<noteq> 0" "NDIRECT < c0 \<Longrightarrow> blks ! NDIRECT \<noteq> 0"
    and space: "total (nblk s) - total c0 \<le> bm_free bm"
  obtains bm' blks' E' where "write_data bm blks mem (int s) = Inr (bm', blks')"
    "evolves bm (blks @ E) bm' (blks' @ E')
       ({..<min NDIRECT (nblk s)} \<union> (if NDIRECT < nblk s then {NDIRECT..nblk s} else {}))"
    "ind_ok bm' blks' E'" "NDIRECT < nblk s \<longrightarrow> blks' ! NDIRECT \<noteq> 0"
    "\<forall>k<nblk s. slot (blks' @ E') k \<noteq> 0 \<and> holds mem s k (blk bm' (slot (blks' @ E') k))"
proof -
  let ?A = "blks @ E" and ?m = "min NDIRECT (nblk s)"
  obtain bm1 blks1 arr where d:
    "write_direct bm blks (zeros BLOCK_SIZE) mem (int s) 0 0 = Inr (bm1, blks1, arr, BLOCK_SIZE * ?m, ?m)"
    "evolves bm ?A bm1 (blks1 @ E) {0..<?m}" "length arr = BLOCK_SIZE"
    "bm_free bm \<le> bm_free bm1 + (?m - min NDIRECT c0)" "ind_ok bm1 blks1 E" "blks1 ! NDIRECT = blks ! NDIRECT"
    "\<forall>k<?m. blks1 ! k \<noteq> 0 \<and> holds mem s k (blk bm1 (blks1 ! k))"
    by (rule direct_half_ok [OF good ind mem full(1) space])
  note len1 = ind_okD(1) [OF d(5)]
  have pos: "int (BLOCK_SIZE * ?m) < int s \<longleftrightarrow> NDIRECT < nblk s"
    using less_nblk_iff [of ?m s] unfolding of_nat_less_iff by (cases "NDIRECT \<le> nblk s") (simp_all add: min_def)
  show ?thesis
  proof (cases "NDIRECT < nblk s")
    case False
    then have "write_data bm blks mem (int s) = Inr (bm1, blks1)"
      using pos by (simp add: write_data_def d(1) del: of_nat_mult)
    then show ?thesis
      using d(2,5,7) False slot_append(1) [OF len1] by (intro that) (auto intro: evolves_mono)
  next
    case True
    have "need (blks1 @ E) 101 (nblk s + 1) = need ?A 101 (nblk s + 1)"
      using evolvesD(2,3) [OF d(2)] by (intro need_cong) auto
    then have "need (blks1 @ E) 101 (nblk s + 1) \<le> nblk s - max NDIRECT c0"
      using need_tail [of c0 ?A "nblk s"] full(1) by simp
    then have "(if blks1 ! NDIRECT = 0 then 1 else 0) + need (blks1 @ E) 101 (nblk s + 1) \<le> bm_free bm1"
      using d(4,6) space full(2) True by (auto simp: total_def split: if_splits)
    then obtain bm' b E' where t:
      "write_tail bm1 blks1 arr mem (int s) (BLOCK_SIZE * NDIRECT) = Inr (bm', blks1[NDIRECT := b])"
      "evolves bm1 (blks1 @ E) bm' (blks1[NDIRECT := b] @ E') {NDIRECT..nblk s}"
      "ind_ok bm' (blks1[NDIRECT := b]) E'" "b \<noteq> 0"
      "\<forall>k<nblk s - NDIRECT. E' ! k \<noteq> 0 \<and> holds mem s (NDIRECT + k) (blk bm' (E' ! k))"
      by (rule write_tail_ok [OF evolvesD(1) [OF d(2)] d(5) mem True s d(3)])
    let ?A' = "blks1[NDIRECT := b] @ E'"
    have "write_data bm blks mem (int s) = Inr (bm', blks1[NDIRECT := b])"
      using True pos t(1) d(1) by (simp add: write_data_def del: of_nat_mult)
    moreover have "slot ?A' k \<noteq> 0 \<and> holds mem s k (blk bm' (slot ?A' k))" if "k < nblk s" for k
      using that t(2,5) d(7) len1 by (rule tail_slots)
    moreover have "evolves bm ?A bm' ?A' ({..<?m} \<union> (if NDIRECT < nblk s then {NDIRECT..nblk s} else {}))"
      using True by (intro evolves_trans [OF d(2) t(2)]) auto
    ultimately show ?thesis
      using t(3,4) len1 by (intro that) auto
  qed
qed

section \<open>Freeing what is left over\<close>

text \<open>The loop of \<open>free_indirect_blocks\<close>, and what is left to do after it.\<close>

lemma free_indirect_half_ok:
  assumes good: "good bm (blks @ E)" and ind: "ind_ok bm blks E" "blks ! NDIRECT \<noteq> 0"
    and node: "i_blocks node = blks" "nblk (isize node) = c0" and c0: "NDIRECT < c0" "c0 \<le> MAXFILE"
    and full: "\<forall>k\<in>{beg..<c0 - NDIRECT}. E ! k \<noteq> 0"
    and rest: "\<And>k. max beg (c0 - NDIRECT) \<le> k \<Longrightarrow> k < NINDIRECT \<Longrightarrow> E ! k = 0"
  obtains bm1 ind where "free_indirect_blocks bm node beg =
      (if beg = 0 then res_bind (free_block bm1 (blks ! NDIRECT)) (\<lambda>bm2. Inr (bm2, node\<lparr>i_blocks := blks[NDIRECT := 0]\<rparr>))
       else Inr (write_block bm1 (blks ! NDIRECT) ind, node))"
    "evolves bm (blks @ E) bm1 (blks @ entries ind) {101 + beg..}" "length ind = BLOCK_SIZE"
    "\<forall>k. beg \<le> k \<and> k < NINDIRECT \<longrightarrow> entries ind ! k = 0"
proof -
  let ?b = "blks ! NDIRECT" and ?ind = "blk bm (blks ! NDIRECT)"
  have size: "isize node \<ge> BLOCK_SIZE * NDIRECT" "(isize node - 1) div BLOCK_SIZE + 1 = c0"
    using less_nblk_iff [of NDIRECT "isize node"] nblk_pos [of "isize node"] node(2) c0(1) by simp_all
  have A: "NDIRECT < length (blks @ E)" "(blks @ E) ! NDIRECT = ?b" and len: "length blks = NDIRECT + 1"
    using ind_okD(1) [OF ind(1)] by (simp_all add: nth_append)
  have buf: "read_block bm ?b (zeros BLOCK_SIZE) = ?ind"
    using good_entry(2) [OF good A(1)] ind(2) A(2) by (intro read_block_blk data_block_range) simp
  note E = ind_okD(4) [OF ind]
  have "c0 - NDIRECT \<le> NINDIRECT" "length ?ind = BLOCK_SIZE"
    using c0(2) length_blk good by (auto simp: good_def)
  then obtain bm1 ind' where f: "free_indirect_loop bm ?ind (c0 - NDIRECT) beg = Inr (bm1, ind')"
    "evolves bm (blks @ E) bm1 (blks @ entries ind') {101 + beg..<101 + (c0 - NDIRECT)}"
    "length ind' = BLOCK_SIZE" "\<forall>k\<in>{beg..<c0 - NDIRECT}. entries ind' ! k = 0"
    using free_indirect_loop_ok [of "c0 - NDIRECT" bm blks ?ind beg] good len full unfolding E by blast
  have "entries ind' ! k = 0" if "beg \<le> k" "k < NINDIRECT" for k
  proof (cases "k < c0 - NDIRECT")
    case False
    then show ?thesis
      using evolvesD(3) [OF f(2), of "101 + k"] rest [of k] that len ind_okD(2) [OF ind(1)]
      by (simp add: nth_append)
  qed (use f(4) that in simp)
  moreover have "free_indirect_blocks bm node beg =
      (if beg = 0 then res_bind (free_block bm1 ?b) (\<lambda>bm2. Inr (bm2, node\<lparr>i_blocks := blks[NDIRECT := 0]\<rparr>))
       else Inr (write_block bm1 ?b ind', node))"
    using size f(1) buf by (simp add: free_indirect_blocks_def node(1))
  moreover have "evolves bm (blks @ E) bm1 (blks @ entries ind') {101 + beg..}"
    by (rule evolves_mono [OF f(2)]) auto
  ultimately show ?thesis
    using that f(3) by blast
qed

lemma free_indirect_blocks_ok:
  assumes good: "good bm (blks @ E)" and ind: "ind_ok bm blks E" "blks ! NDIRECT \<noteq> 0"
    and node: "i_blocks node = blks" "nblk (isize node) = c0" and c0: "NDIRECT < c0" "c0 \<le> MAXFILE"
    and full: "\<forall>k\<in>{beg..<c0 - NDIRECT}. E ! k \<noteq> 0"
    and rest: "\<And>k. max beg (c0 - NDIRECT) \<le> k \<Longrightarrow> k < NINDIRECT \<Longrightarrow> E ! k = 0"
  defines "blks' \<equiv> (if beg = 0 then blks[NDIRECT := 0] else blks)"
  obtains bm' E' where "free_indirect_blocks bm node beg = Inr (bm', node\<lparr>i_blocks := blks'\<rparr>)"
    "evolves bm (blks @ E) bm' (blks' @ E') ({NDIRECT} \<union> {101 + beg..})" "ind_ok bm' blks' E'"
    "\<forall>k. beg \<le> k \<and> k < NINDIRECT \<longrightarrow> E' ! k = 0"
proof -
  let ?b = "blks ! NDIRECT" and ?I = "{NDIRECT} \<union> {101 + beg..}"
  obtain bm1 ind' where unf: "free_indirect_blocks bm node beg =
      (if beg = 0 then res_bind (free_block bm1 ?b) (\<lambda>bm2. Inr (bm2, node\<lparr>i_blocks := blks[NDIRECT := 0]\<rparr>))
       else Inr (write_block bm1 ?b ind', node))"
    and ev: "evolves bm (blks @ E) bm1 (blks @ entries ind') {101 + beg..}" and ind': "length ind' = BLOCK_SIZE"
    and zero: "\<forall>k. beg \<le> k \<and> k < NINDIRECT \<longrightarrow> entries ind' ! k = 0"
    by (rule free_indirect_half_ok [OF good ind node c0 full rest])
  note len = ind_okD(1) [OF ind(1)] and good1 = evolvesD(1) [OF ev]
  have A: "NDIRECT < length (blks @ entries ind')" "(blks @ entries ind') ! NDIRECT = ?b"
    "(blks @ entries ind')[NDIRECT := 0] = blks[NDIRECT := 0] @ entries ind'"
    using len by (simp_all add: nth_append list_update_append1)
  show ?thesis
  proof (cases "beg = 0")
    case True
    obtain bm2 where bm2: "free_block bm1 ?b = Inr bm2"
      "evolves bm1 (blks @ entries ind') bm2 (blks[NDIRECT := 0] @ entries ind') {NDIRECT}"
      using free_step [OF good1 A(1)] ind(2) unfolding A(2,3) by blast
    moreover have "ind_ok bm2 (blks[NDIRECT := 0]) (entries ind')"
      using zero True len by (auto simp: ind_ok_def intro: nth_equalityI)
    moreover have "evolves bm (blks @ E) bm2 (blks[NDIRECT := 0] @ entries ind') ?I"
      by (rule evolves_trans [OF ev bm2(2)]) auto
    ultimately show ?thesis
      using that [of bm2 "entries ind'"] zero unf True by (simp add: blks'_def)
  next
    case False
    note st = blk_step [OF good1 A(1), unfolded A(2), OF ind(2) ind']
    have "ind_ok (write_block bm1 ?b ind') blks (entries ind')"
      using st(2) ind(2) len by (simp add: ind_ok_def)
    moreover have "evolves bm (blks @ E) (write_block bm1 ?b ind') (blks @ entries ind') ?I"
      by (rule evolves_trans [OF ev st(1)]) auto
    ultimately show ?thesis
      using that [of "write_block bm1 ?b ind'" "entries ind'"] zero unf False node(1)
      by (simp add: blks'_def)
  qed
qed

lemma used_block_num_eq: "c_div (int s - 1) BLOCK_SIZE + 1 = int (max 1 (nblk s))"
proof (cases "s = 0")
  case False
  then have "c_div (int s - 1) BLOCK_SIZE + 1 = int ((s - 1) div BLOCK_SIZE + 1)"
    by (simp add: zdiv_int of_nat_diff)
  then show ?thesis
    using False nblk_pos [of s] by (simp add: max_def)
qed (simp add: c_div_def)

text \<open>The loop over the direct blocks starts behind those in use and empties all slots up to the
  hundredth.\<close>

lemma free_direct_half_ok:
  assumes good: "good bm (blks @ E)" and ind: "ind_ok bm blks E"
    and full: "\<And>k. max 1 c \<le> k \<Longrightarrow> k < c0 \<Longrightarrow> slot (blks @ E) k \<noteq> 0"
    and rest: "\<And>k. max 1 (max c c0) \<le> k \<Longrightarrow> k < MAXFILE \<Longrightarrow> slot (blks @ E) k = 0"
  obtains bm1 blks1 where
    "free_direct bm blks (max 1 c0) (max 1 c) = Inr (bm1, blks1, max (max 1 c) (min NDIRECT (max 1 c0)))"
    "evolves bm (blks @ E) bm1 (blks1 @ E) (- idx ` {..<max 1 c})" "ind_ok bm1 blks1 E"
    "blks1 ! NDIRECT = blks ! NDIRECT" "\<forall>k. max 1 c \<le> k \<and> k < NDIRECT \<longrightarrow> blks1 ! k = 0"
proof -
  let ?u = "max 1 c" and ?j = "min NDIRECT (max 1 c0)"
  note len = ind_okD(1) [OF ind]
  have "\<forall>k\<in>{?u..<?j}. blks ! k \<noteq> 0"
  proof
    fix k
    assume "k \<in> {?u..<?j}"
    then show "blks ! k \<noteq> 0"
      using full [of k] slot_append(1) [OF len, of k E] by (auto simp: less_max_iff_disj)
  qed
  then obtain bm1 blks1 where d: "free_direct bm blks (max 1 c0) ?u = Inr (bm1, blks1, max ?u ?j)"
    "evolves bm (blks @ E) bm1 (blks1 @ E) {?u..<?j}" "length blks1 = NDIRECT + 1"
    "\<forall>k\<in>{?u..<?j}. blks1 ! k = 0"
    using free_direct_ok [OF refl, of bm blks E ?u "max 1 c0"] good len by blast
  have "NDIRECT \<notin> {?u..<?j}"
    by simp
  note ind1 = ind_ok_evolves [OF ind d(2) this]
  have "blks1 ! k = 0" if "?u \<le> k" "k < NDIRECT" for k
  proof (cases "k < ?j")
    case False
    then have "blks1 ! k = blks ! k"
      using evolvesD(3) [OF d(2), of k] len d(3) that by (simp add: nth_append)
    then show ?thesis
      using rest [of k] that False slot_append(1) [OF len] by auto
  qed (use d(4) that in \<open>auto simp: less_max_iff_disj\<close>)
  moreover have "{?u..<?j} \<subseteq> - idx ` {..<?u}"
    by (auto simp: idx_def split: if_splits)
  note evolves_mono [OF d(2) this]
  ultimately show ?thesis
    using that d(1) ind1 by blast
qed

lemma free_tail_ok:
  assumes ev: "evolves bm (blks @ E) bm1 (blks1 @ E) I" "ind_ok bm1 blks1 E" and len: "length blks = NDIRECT + 1"
    and c0: "NDIRECT < c0" "c0 \<le> MAXFILE" "nblk (isize node) = c0"
    and full: "\<And>k. max 1 c \<le> k \<Longrightarrow> k < c0 \<Longrightarrow> slot (blks @ E) k \<noteq> 0"
    and rest: "\<And>k. max 1 (max c c0) \<le> k \<Longrightarrow> k < MAXFILE \<Longrightarrow> slot (blks @ E) k = 0"
    and i100: "blks ! NDIRECT \<noteq> 0" "blks1 ! NDIRECT = blks ! NDIRECT"
  defines "beg \<equiv> c - NDIRECT" and "node1 \<equiv> node\<lparr>i_blocks := blks1\<rparr>"
  obtains bm2 blks2 E' where "free_indirect_blocks bm1 node1 beg = Inr (bm2, node1\<lparr>i_blocks := blks2\<rparr>)"
    "evolves bm1 (blks1 @ E) bm2 (blks2 @ E') ({NDIRECT} \<union> {101 + beg..})" "ind_ok bm2 blks2 E'"
    "\<forall>k. beg \<le> k \<and> k < NINDIRECT \<longrightarrow> E' ! k = 0" "blks2 = (if beg = 0 then blks1[NDIRECT := 0] else blks1)"
proof -
  have E: "E ! k = slot (blks @ E) (NDIRECT + k)" for k
    using slot_append(2) [OF len, of "NDIRECT + k"] by simp
  have hyps: "blks1 ! NDIRECT \<noteq> 0" "i_blocks node1 = blks1" "nblk (isize node1) = c0"
    using i100 c0(3) by (simp_all add: node1_def)
  have nonzero: "\<forall>k\<in>{beg..<c0 - NDIRECT}. E ! k \<noteq> 0"
    unfolding E by (intro ballI full) (auto simp: beg_def)
  have "E ! k = 0" if "max beg (c0 - NDIRECT) \<le> k" "k < NINDIRECT" for k
    unfolding E using that by (intro rest) (auto simp: beg_def)
  note step = free_indirect_blocks_ok [OF evolvesD(1) [OF ev(1)] ev(2) hyps c0(1,2) nonzero this]
  define blks2 where f1: "blks2 = (if beg = 0 then blks1[NDIRECT := 0] else blks1)"
  obtain bm2 E' where "free_indirect_blocks bm1 node1 beg = Inr (bm2, node1\<lparr>i_blocks := blks2\<rparr>)"
    "evolves bm1 (blks1 @ E) bm2 (blks2 @ E') ({NDIRECT} \<union> {101 + beg..})" "ind_ok bm2 blks2 E'"
    "\<forall>k. beg \<le> k \<and> k < NINDIRECT \<longrightarrow> E' ! k = 0"
    unfolding f1 by (rule step)
  then show ?thesis
    using that f1 by blast
qed

lemma free_unused_ok:
  assumes good: "good bm (blks @ E)" and ind: "ind_ok bm blks E"
    and node: "i_blocks node = blks" "nblk (isize node) = c0" and c0: "c0 \<le> MAXFILE"
    and c: "c = nblk s" "c \<le> MAXFILE"
    and full: "\<And>k. max 1 c \<le> k \<Longrightarrow> k < c0 \<Longrightarrow> slot (blks @ E) k \<noteq> 0"
    and rest: "\<And>k. max 1 (max c c0) \<le> k \<Longrightarrow> k < MAXFILE \<Longrightarrow> slot (blks @ E) k = 0"
    and i100: "blks ! NDIRECT = 0 \<longleftrightarrow> max c c0 \<le> NDIRECT"
  obtains bm' blks' E' where
    "free_unused bm node (max 1 c0) (int s) = Inr (bm', node\<lparr>i_blocks := blks'\<rparr>)"
    "evolves bm (blks @ E) bm' (blks' @ E') (- idx ` {..<max 1 c})" "ind_ok bm' blks' E'"
    "blks' ! NDIRECT = 0 \<longleftrightarrow> c \<le> NDIRECT"
    "\<forall>k. max 1 c \<le> k \<longrightarrow> k < MAXFILE \<longrightarrow> slot (blks' @ E') k = 0"
proof -
  let ?u = "max 1 c" and ?I = "- idx ` {..<max 1 c}"
  note len = ind_okD(1) [OF ind]
  have used: "c_div (int s - 1) BLOCK_SIZE + 1 = int ?u"
    using used_block_num_eq c(1) by simp
  obtain bm1 blks1 where d: "free_direct bm blks (max 1 c0) ?u = Inr (bm1, blks1, max ?u (min NDIRECT (max 1 c0)))"
    "evolves bm (blks @ E) bm1 (blks1 @ E) ?I" "ind_ok bm1 blks1 E" "blks1 ! NDIRECT = blks ! NDIRECT"
    and zero: "\<forall>k. ?u \<le> k \<and> k < NDIRECT \<longrightarrow> blks1 ! k = 0"
    by (rule free_direct_half_ok [OF good ind full rest])
  note len1 = ind_okD(1) [OF d(3)]
  show ?thesis
  proof (cases "NDIRECT < c0")
    case False
    have "free_unused bm node (max 1 c0) (int s) = Inr (bm1, node\<lparr>i_blocks := blks1\<rparr>)"
      using d(1) False by (simp add: free_unused_def used node(1) Let_def less_max_iff_disj)
    moreover have "slot (blks1 @ E) k = 0" if "?u \<le> k" "k < MAXFILE" for k
      using zero rest [of k] that False slot_append [OF len1] slot_append [OF len]
      by (cases "k < NDIRECT") auto
    ultimately show ?thesis
      using d(2-4) i100 False that by auto
  next
    case True
    let ?beg = "c - NDIRECT" and ?node = "node\<lparr>i_blocks := blks1\<rparr>"
    obtain bm2 blks2 E' where f: "free_indirect_blocks bm1 ?node ?beg = Inr (bm2, ?node\<lparr>i_blocks := blks2\<rparr>)"
      "evolves bm1 (blks1 @ E) bm2 (blks2 @ E') ({NDIRECT} \<union> {101 + ?beg..})" "ind_ok bm2 blks2 E'"
      "\<forall>k. ?beg \<le> k \<and> k < NINDIRECT \<longrightarrow> E' ! k = 0" "blks2 = (if ?beg = 0 then blks1[NDIRECT := 0] else blks1)"
      by (rule free_tail_ok [OF d(2,3) len True c0 node(2) full rest _ d(4)]) (use i100 True in auto)
    have "max ?u (min NDIRECT (max 1 c0)) - NDIRECT = ?beg" "NDIRECT \<le> max ?u (min NDIRECT (max 1 c0))" "NDIRECT < max 1 c0"
      using True by auto
    then have "free_unused bm node (max 1 c0) (int s) = Inr (bm2, node\<lparr>i_blocks := blks2\<rparr>)"
      using d(1) f(1,5) by (simp add: free_unused_def used node(1) Let_def del: max.bounded_iff)
    moreover have "slot (blks2 @ E') k = 0" if "?u \<le> k" "k < MAXFILE" for k
    proof (cases "k < NDIRECT")
      case False
      then have "?beg \<le> k - NDIRECT" "k - NDIRECT < NINDIRECT"
        using that by auto
      then show ?thesis
        using f(4) slot_append(2) [OF ind_okD(1) [OF f(3)], of k E'] False by simp
    qed (use zero f(5) that slot_append(1) [OF ind_okD(1) [OF f(3)], of k E'] in auto)
    moreover have "{NDIRECT} \<union> {101 + ?beg..} \<subseteq> ?I"
      by (auto simp: idx_def split: if_splits)
    then have "evolves bm (blks @ E) bm2 (blks2 @ E') ?I"
      by (intro evolves_trans [OF d(2) f(2)]) auto
    moreover have "blks2 ! NDIRECT = 0 \<longleftrightarrow> c \<le> NDIRECT"
      using f(5) d(4) i100 True len1 by simp
    ultimately show ?thesis
      using f(3) that by blast
  qed
qed

section \<open>The whole operation\<close>

lemma inode_ids:
  assumes "bm_inv bm" "inode_ok bm n"
  shows "good bm (i_blocks n @ ind_entries bm n)" "ind_ok bm (i_blocks n) (ind_entries bm n)"
    "\<And>k. k < MAXFILE \<Longrightarrow> slot (i_blocks n @ ind_entries bm n) k = slots bm n ! k"
proof -
  note len = inode_okD(1) [OF assms(2)]
  have "is_valid_block bm a" if "a \<in> set (ids bm n)" "a \<noteq> 0" for a
    using inode_ok_owned_valid [OF assms(2)] that by (simp add: owned_def)
  then show "good bm (i_blocks n @ ind_entries bm n)"
    using assms by (simp add: good_def inode_ok_def owned_def ids_def)
  show "ind_ok bm (i_blocks n) (ind_entries bm n)"
    using len by (simp add: ind_ok_def ind_entries_def)
  show "slot (i_blocks n @ ind_entries bm n) k = slots bm n ! k" if "k < MAXFILE" for k
    using slot_append [OF len, of k] len that by (cases "k < NDIRECT") (simp_all add: slots_def nth_append)
qed

text \<open>The inode that refers to a good list of numbers is well formed, and holds the data.\<close>

lemma inode_from_ids:
  assumes good: "good bm (blks @ E)" and ind: "ind_ok bm blks E"
    and n: "i_blocks n = blks" "isize n = s" and s: "nblk s \<le> MAXFILE"
    and mem: "BLOCK_SIZE * nblk s \<le> length mem"
    and full: "\<And>k. k < nblk s \<Longrightarrow> slot (blks @ E) k \<noteq> 0 \<and> holds mem s k (blk bm (slot (blks @ E) k))"
    and rest: "\<And>k. max 1 (nblk s) \<le> k \<Longrightarrow> k < MAXFILE \<Longrightarrow> slot (blks @ E) k = 0"
    and i100: "blks ! NDIRECT = 0 \<longleftrightarrow> nblk s \<le> NDIRECT"
  shows "inode_ok bm n" "ids bm n = blks @ E" "content bm n = take s mem"
proof -
  note len = ind_okD(1,2) [OF ind]
  have inv: "bm_inv bm"
    using good by (simp add: good_def)
  have E: "ind_entries bm n = E"
    using ind n(1) by (simp add: ind_ok_def ind_entries_def)
  then show ids: "ids bm n = blks @ E"
    by (simp add: ids_def n(1))
  have sl: "slots bm n ! k = slot (blks @ E) k" if "k < MAXFILE" for k
    using slot_append [OF len(1), of k E] len that
    by (cases "k < NDIRECT") (simp_all add: slots_def E n(1) nth_append)
  have lens: "length (slots bm n) = MAXFILE"
    using len n(1) by simp
  have valid: "is_valid_block bm a" if "a \<in> set (blks @ E)" "a \<noteq> 0" for a
    using good that by (simp add: good_def)
  have set: "set (slots bm n) \<subseteq> set (blks @ E)"
    using set_ids [of n bm] ids n(1) len(1) by auto
  have "is_valid_block bm (slots bm n ! k)" if "k < nblk s" for k
    using that s full [of k] sl [of k] lens set nth_mem [of k "slots bm n"] by (intro valid) auto
  moreover have "is_valid_block bm b" if "b \<in> set (slots bm n)" "b \<noteq> 0" for b
    using that set by (intro valid) auto
  moreover have "slots bm n ! k = 0" if "max 1 (nblk s) \<le> k" "k < MAXFILE" for k
    using sl [of k] rest [of k] that by simp
  ultimately have "slots_ok bm (nblk s) (slots bm n)"
    using lens by (simp add: slots_ok_def)
  moreover have "is_valid_block bm (blks ! NDIRECT)" if "NDIRECT < nblk s"
    using that i100 len(1) nth_mem [of NDIRECT blks] by (intro valid) auto
  ultimately show "inode_ok bm n"
    using s i100 len(1) good by (auto simp: inode_ok_def owned_def ids good_def n)
  have "map (blk bm) (take (nblk s) (slots bm n)) = map (\<lambda>k. blk bm (slot (blks @ E) k)) [0..<nblk s]"
    using s lens sl by (intro nth_equalityI) simp_all
  then have "content bm n = take (min s (BLOCK_SIZE * nblk s)) mem"
    unfolding content_def n(2) using concat_holds [of "nblk s" "\<lambda>k. blk bm (slot (blks @ E) k)" mem s]
      full mem length_blk [OF inv] by simp
  then show "content bm n = take s mem"
    using nblk_le_iff [of s "nblk s"] by (simp add: min_absorb1)
qed

lemma idx_outside:
  "c \<le> k \<Longrightarrow> idx k \<notin> {..<min NDIRECT c} \<union> (if NDIRECT < c then {NDIRECT..c} else {})"
  by (auto simp: idx_def)

lemma idx_less: "k < MAXFILE \<Longrightarrow> idx k < 229"
  by (simp add: idx_def)

lemma idx_inj: "idx j = idx k \<longleftrightarrow> j = k"
  by (auto simp: idx_def)

text \<open>The list of numbers between the two halves: the slots behind the data are still those of the old
  file.\<close>

lemma middle_slots:
  assumes inv: "bm_inv bm" and ok: "inode_ok bm n"
    and ev: "evolves bm (i_blocks n @ ind_entries bm n) bm1 (blks1 @ E1)
      ({..<min NDIRECT new} \<union> (if NDIRECT < new then {NDIRECT..new} else {}))"
    and ind: "ind_ok bm1 blks1 E1" "NDIRECT < new \<longrightarrow> blks1 ! NDIRECT \<noteq> 0"
  defines "old \<equiv> nblk (isize n)"
  shows "max 1 new \<le> k \<Longrightarrow> k < old \<Longrightarrow> slot (blks1 @ E1) k \<noteq> 0"
    "max 1 (max new old) \<le> k \<Longrightarrow> k < MAXFILE \<Longrightarrow> slot (blks1 @ E1) k = 0"
    "blks1 ! NDIRECT = 0 \<longleftrightarrow> max new old \<le> NDIRECT"
proof -
  let ?A = "i_blocks n @ ind_entries bm n"
  note A = inode_ids(3) [OF inv ok] and c0 = inode_okD(2) [OF ok, folded old_def]
  note len = inode_okD(1) [OF ok] and len1 = ind_okD(1,2) [OF ind(1)]
  have lenA: "length ?A = 229"
    using len by simp
  have keep: "slot (blks1 @ E1) k = slot ?A k" if "new \<le> k" "k < MAXFILE" for k
    unfolding slot_def using idx_outside [OF that(1)] idx_less [OF that(2)] lenA
    by (intro evolvesD(3) [OF ev]) simp_all
  show "slot (blks1 @ E1) k \<noteq> 0" if "max 1 new \<le> k" "k < old"
    using keep [of k] inode_okD(8) [OF ok, of k] A [of k] that c0 inv by (auto simp: old_def)
  show "slot (blks1 @ E1) k = 0" if "max 1 (max new old) \<le> k" "k < MAXFILE"
    using keep [of k] A [of k] inode_okD(9) [OF ok, of k] that by (simp add: old_def)
  have "i_blocks n ! NDIRECT = 0 \<longleftrightarrow> old \<le> NDIRECT"
    using inode_okD(5,6) [OF ok] inv unfolding old_def by (metis linorder_not_le not_valid_zero)
  then show "blks1 ! NDIRECT = 0 \<longleftrightarrow> max new old \<le> NDIRECT"
    using ind(2) evolvesD(3) [OF ev, of NDIRECT] lenA len1 len by (cases "NDIRECT < new") (auto simp: nth_append)
qed

text \<open>What \<open>write_file\<close> does to the blocks before it stores the inode.\<close>

lemma write_blocks_ok:
  assumes inv: "bm_inv bm" and ok: "inode_ok bm n" and s: "nblk s \<le> MAXFILE"
    and mem: "BLOCK_SIZE * nblk s \<le> length mem"
    and space: "total (nblk s) - total (nblk (isize n)) \<le> bm_free bm"
  obtains bm1 blks1 bm2 blks2 E2 where "write_data bm (i_blocks n) mem (int s) = Inr (bm1, blks1)"
    "free_unused bm1 (n\<lparr>i_blocks := blks1\<rparr>) (max 1 (nblk (isize n))) (int s) = Inr (bm2, n\<lparr>i_blocks := blks2\<rparr>)"
    "evolves bm (ids bm n) bm2 (blks2 @ E2) UNIV"
    "\<forall>n'. i_blocks n' = blks2 \<longrightarrow> isize n' = s \<longrightarrow>
       inode_ok bm2 n' \<and> ids bm2 n' = blks2 @ E2 \<and> content bm2 n' = take s mem"
proof -
  let ?new = "nblk s" and ?old = "nblk (isize n)" and ?A = "i_blocks n @ ind_entries bm n"
  let ?I = "{..<min NDIRECT ?new} \<union> (if NDIRECT < ?new then {NDIRECT..?new} else {})"
  note A = inode_ids [OF inv ok] and c0 = inode_okD(2) [OF ok]
  have full: "slot ?A k \<noteq> 0" if "k < ?old" for k
    using inode_okD(8) [OF ok that] A(3) [of k] that c0 inv by auto
  have i100: "i_blocks n ! NDIRECT = 0 \<longleftrightarrow> ?old \<le> NDIRECT"
    using inode_okD(5,6) [OF ok] inv by (metis linorder_not_le not_valid_zero)
  then have i100': "i_blocks n ! NDIRECT \<noteq> 0" if "NDIRECT < ?old"
    using that by simp
  obtain bm1 blks1 E1 where w: "write_data bm (i_blocks n) mem (int s) = Inr (bm1, blks1)"
    "evolves bm ?A bm1 (blks1 @ E1) ?I" "ind_ok bm1 blks1 E1" "NDIRECT < ?new \<longrightarrow> blks1 ! NDIRECT \<noteq> 0"
    "\<forall>k<?new. slot (blks1 @ E1) k \<noteq> 0 \<and> holds mem s k (blk bm1 (slot (blks1 @ E1) k))"
    by (rule write_data_ok [OF A(1,2) mem s full i100' space])
  note len1 = ind_okD(1,2) [OF w(3)]
  note mid = middle_slots [OF inv ok w(2-4)]
  have node1: "i_blocks (n\<lparr>i_blocks := blks1\<rparr>) = blks1" "nblk (isize (n\<lparr>i_blocks := blks1\<rparr>)) = ?old"
    by simp_all
  obtain bm2 blks2 E2 where f0:
    "free_unused bm1 (n\<lparr>i_blocks := blks1\<rparr>) (max 1 ?old) (int s)
       = Inr (bm2, n\<lparr>i_blocks := blks1, i_blocks := blks2\<rparr>)"
    and f: "evolves bm1 (blks1 @ E1) bm2 (blks2 @ E2) (- idx ` {..<max 1 ?new})" "ind_ok bm2 blks2 E2"
    "blks2 ! NDIRECT = 0 \<longleftrightarrow> ?new \<le> NDIRECT"
    "\<forall>k. max 1 ?new \<le> k \<longrightarrow> k < MAXFILE \<longrightarrow> slot (blks2 @ E2) k = 0"
    by (rule free_unused_ok [OF evolvesD(1) [OF w(2)] w(3) node1 c0 refl s mid])
  have "slot (blks2 @ E2) k \<noteq> 0 \<and> holds mem s k (blk bm2 (slot (blks2 @ E2) k))" if "k < ?new" for k
  proof -
    have "idx k < length (blks1 @ E1)" "idx k \<notin> - idx ` {..<max 1 ?new}"
      using that idx_less [of k] s len1 by auto
    then show ?thesis
      using evolvesD(3,4) [OF f(1), of "idx k"] w(5) that by (simp add: slot_def)
  qed
  then have "\<forall>n'. i_blocks n' = blks2 \<longrightarrow> isize n' = s \<longrightarrow>
       inode_ok bm2 n' \<and> ids bm2 n' = blks2 @ E2 \<and> content bm2 n' = take s mem"
    using inode_from_ids [OF evolvesD(1) [OF f(1)] f(2) _ _ s mem] f(3,4) by blast
  moreover have "evolves bm (ids bm n) bm2 (blks2 @ E2) UNIV"
    unfolding ids_def by (rule evolves_trans [OF w(2) f(1)]) simp
  ultimately show ?thesis
    using that w(1) f0 by simp
qed

lemma pre_block_num_eq:
  "(if i_size n = 0 then 1 else (isize n - 1) div BLOCK_SIZE + 1) = max 1 (nblk (isize n))"
  using nblk_pos [of "isize n"] by (auto simp: unat_gt_0 max_def)

lemma isize_of_nat: "s \<le> BLOCK_SIZE * MAXFILE \<Longrightarrow> unat (word_of_int (int s) :: u32) = s"
  by (simp add: unat_of_nat)

text \<open>The inode that \<open>write_file\<close> stores, given what it did to the blocks.\<close>

lemma write_file_result:
  assumes n: "get_inode im i = Some n"
    and w: "write_data (im_bm im) (i_blocks n) mem (int s) = Inr (bm1, blks1)"
    and f: "free_unused bm1 (n\<lparr>i_blocks := blks1\<rparr>) (max 1 (nblk (isize n))) (int s) = Inr (bm2, n\<lparr>i_blocks := blks2\<rparr>)"
    and s: "s < 2 ^ 32"
  obtains im1 n1 where "write_file im i mem (int s) = Inr (put_inode im1 i (Some n1))" "im_bm im1 = bm2"
    "last_alloced im1 = last_alloced im" "i_blocks n1 = blks2" "isize n1 = s" "i_type n1 = i_type n"
proof -
  define im1 where "im1 = tick (tick (tick (im\<lparr>im_bm := bm2\<rparr>)))"
  define n1 where "n1 = n\<lparr>i_blocks := blks2, i_size := word_of_int (int s),
    i_atime := fst (time_NULL (im\<lparr>im_bm := bm2\<rparr>)), i_ctime := fst (time_NULL (tick (im\<lparr>im_bm := bm2\<rparr>))),
    i_mtime := fst (time_NULL (tick (tick (im\<lparr>im_bm := bm2\<rparr>))))\<rparr>"
  have "write_file im i mem (int s) = Inr (put_inode im1 i (Some n1))"
    using w f unfolding write_file_def n option.case Let_def pre_block_num_eq
    by (simp add: im1_def n1_def time_NULL_def split del: if_split del: One_nat_def)
  moreover have "isize n1 = s"
    using s by (simp add: n1_def unat_of_nat)
  ultimately show ?thesis
    using that by (simp add: im1_def n1_def)
qed

lemma write_file_ok:
  assumes inv: "fs_inv im" and fi: "files im i = Some (t, c)"
    and len: "length buf \<le> BLOCK_SIZE * MAXFILE" and tail: "BLOCK_SIZE \<le> length tail"
    and space: "total (nblk (length buf)) - total (nblk (length c)) \<le> bm_free (im_bm im)"
  shows "\<exists>im'. write_file im i (buf @ tail) (int (length buf)) = Inr im' \<and> fs_inv im' \<and>
    files im' = (files im)(i \<mapsto> (t, buf)) \<and>
    bm_free (im_bm im') + held im' i = bm_free (im_bm im) + held im i"
proof -
  obtain n where n: "get_inode im i = Some n" and tc: "t = i_type n" "c = content (im_bm im) n"
    using fi by (auto simp: files_def)
  let ?bm = "im_bm im" and ?s = "length buf" and ?mem = "buf @ tail"
  note bm = fs_invD(1) [OF inv] and ok = fs_invD(4) [OF inv n]
  have s: "nblk ?s \<le> MAXFILE" and mem: "BLOCK_SIZE * nblk ?s \<le> length ?mem" and small: "?s < 2 ^ 32"
    using len tail by (simp_all add: nblk_le_iff nblk_def)
  have "total (nblk ?s) - total (nblk (isize n)) \<le> bm_free ?bm"
    using space length_content(1) [OF bm ok] by (simp add: tc)
  from write_blocks_ok [OF bm ok s mem this] obtain bm1 blks1 bm2 blks2 E2 where
    w: "write_data ?bm (i_blocks n) ?mem (int ?s) = Inr (bm1, blks1)"
    and f: "free_unused bm1 (n\<lparr>i_blocks := blks1\<rparr>) (max 1 (nblk (isize n))) (int ?s) = Inr (bm2, n\<lparr>i_blocks := blks2\<rparr>)"
    and ev: "evolves ?bm (ids ?bm n) bm2 (blks2 @ E2) UNIV"
    and new: "\<forall>n'. i_blocks n' = blks2 \<longrightarrow> isize n' = ?s \<longrightarrow>
      inode_ok bm2 n' \<and> ids bm2 n' = blks2 @ E2 \<and> content bm2 n' = take ?s ?mem"
    by blast
  obtain im1 n' where res: "write_file im i ?mem (int ?s) = Inr (put_inode im1 i (Some n'))"
    and im1: "im_bm im1 = bm2" "last_alloced im1 = last_alloced im"
    and n': "i_blocks n' = blks2" "isize n' = ?s" "i_type n' = i_type n"
    by (rule write_file_result [OF n w f small])
  have ok': "inode_ok bm2 n'" "ids bm2 n' = blks2 @ E2" "content bm2 n' = buf"
    using new n' by simp_all
  have i: "i \<noteq> 0" "i \<le> INODE_NUM"
    using fs_invD(3) [OF inv] n get_inode_SomeD(1) [OF n] by auto
  have bm2: "bm_inv bm2"
    using evolvesD(1) [OF ev] by (simp add: good_def)
  note foreign = foreign_blocks [OF inv n ev]
  note put = commit_inode [OF inv i, of im1 n', unfolded im1 n', OF bm2 fs_invD(2) [OF inv] evolvesD(6) [OF ev]
      _ ok'(1) get_inode_SomeD(2) [OF n]]
  have dis: "set (owned bm2 n') \<inter> others im i = {}"
    using foreign by (auto simp: owned_def ok'(2))
  have upd: "fs_inv (put_inode im1 i (Some n'))" "files (put_inode im1 i (Some n')) = (files im)(i \<mapsto> (t, buf))"
    "bm_free (im_bm (put_inode im1 i (Some n'))) = bm_free bm2"
    "held (put_inode im1 i (Some n')) i = nz (blks2 @ E2)"
    using put foreign dis ok'(3) tc(1) by (simp_all add: owned_def ok'(2))
  then show ?thesis
    using res evolvesD(7) [OF ev] n by (auto simp: held_def owned_def)
qed

text \<open>C1. \<open>write_file\<close> with a buffer of at most 228 blocks, on a well-formed file system
  with enough free blocks for the blocks the file does not have yet, makes the buffer the content of
  the file. The file keeps its type, every other file is unchanged, the file system stays well formed
  whether the file grows or shrinks, and the blocks the file held or gave back are all accounted for: the
  free blocks and the blocks of the file are together as many as before. The caller's memory must be
  readable one block beyond the buffer.\<close>

theorem write_file_correct:
  assumes inv: "fs_inv im" and fi: "files im i = Some (t, c)"
    and len: "length buf \<le> BLOCK_SIZE * MAXFILE" and tail: "BLOCK_SIZE \<le> length tail"
    and space: "total (nblk (length buf)) - total (nblk (length c)) \<le> bm_free (im_bm im)"
  shows "\<exists>im'. write_file im i (buf @ tail) (int (length buf)) = Inr im' \<and> fs_inv im' \<and>
    files im' = (files im)(i \<mapsto> (t, buf)) \<and>
    bm_free (im_bm im') + held im' i = bm_free (im_bm im) + held im i"
  using assms by (rule write_file_ok)

theorem write_file_correct_witness:
  "files (root_im sample_env) 1 = Some (1, []) \<and>
   (\<exists>im'. write_file (root_im sample_env) 1 (''hello'' @ zeros BLOCK_SIZE) 5 = Inr im' \<and> fs_inv im' \<and>
      files im' = [1 \<mapsto> (1, ''hello'')])"
  using write_file_correct [OF root_im_facts(1), of sample_env 1 1 "[]" "''hello''" "zeros BLOCK_SIZE"]
  by (auto simp: root_im_facts bm_free_init total_def nblk_def)

section \<open>The blocks of a file, counted\<close>

lemma nz_slots:
  assumes "length A = 229" "A ! NDIRECT = 0" "lo \<le> hi" "hi \<le> MAXFILE"
    and "\<And>k. lo \<le> k \<Longrightarrow> k < hi \<Longrightarrow> slot A k \<noteq> 0"
    and "\<And>k. k < MAXFILE \<Longrightarrow> k < lo \<or> hi \<le> k \<Longrightarrow> slot A k = 0"
  shows "nz A = hi - lo"
proof -
  have "{k. k < length A \<and> A ! k \<noteq> 0} = idx ` {lo..<hi}"
  proof (rule set_eqI, rule iffI)
    fix k
    assume "k \<in> {k. k < length A \<and> A ! k \<noteq> 0}"
    then have k: "k < 229" "A ! k \<noteq> 0" "k \<noteq> NDIRECT"
      using assms(1,2) by auto
    define m where "m = (if k < NDIRECT then k else k - 1)"
    have "idx m = k" "m < MAXFILE"
      using k by (auto simp: m_def idx_def)
    then show "k \<in> idx ` {lo..<hi}"
      using assms(6) [of m] k(2) by (force simp: slot_def)
  next
    fix k
    assume "k \<in> idx ` {lo..<hi}"
    then obtain m where m: "k = idx m" "lo \<le> m" "m < hi"
      by auto
    then show "k \<in> {k. k < length A \<and> A ! k \<noteq> 0}"
      using assms(1,4) assms(5) [of m] idx_less [of m] by (simp add: slot_def)
  qed
  moreover have "inj_on idx {lo..<hi}"
    by (simp add: inj_on_def idx_inj)
  ultimately show ?thesis
    by (simp add: length_filter_conv_card card_image)
qed

text \<open>A file that is not empty holds a block for every 512 bytes, and the indirect block beyond
  100 of them; an empty file holds none, or the one it held before it became empty.\<close>

lemma held_cases:
  assumes "fs_inv im" "get_inode im i = Some n"
  shows "held im i = total (nblk (isize n)) \<or> isize n = 0 \<and> held im i = 1"
proof -
  let ?bm = "im_bm im" and ?c = "nblk (isize n)"
  let ?A = "i_blocks n @ ind_entries ?bm n"
  note inv = fs_invD(1) [OF assms(1)] and ok = fs_invD(4) [OF assms]
  note A = inode_ids [OF inv ok] and len = inode_okD(1) [OF ok]
  define hi where "hi = (if ?c = 0 \<and> slot ?A 0 \<noteq> 0 then 1 else ?c)"
  have lenA: "NDIRECT < length ?A" and A100: "?A ! NDIRECT = i_blocks n ! NDIRECT"
    using len by (simp_all add: nth_append)
  have sl: "slot (?A[NDIRECT := 0]) k = slot ?A k" for k
    by (simp add: slot_def idx_def)
  have "nz (?A[NDIRECT := 0]) = hi - 0"
  proof (rule nz_slots)
    show "slot (?A[NDIRECT := 0]) k \<noteq> 0" if "k < hi" for k
      using that inode_okD(8) [OF ok, of k] A(3) [of k] inode_okD(2) [OF ok] inv
      by (auto simp: sl hi_def split: if_splits)
    show "slot (?A[NDIRECT := 0]) k = 0" if "k < MAXFILE" "k < 0 \<or> hi \<le> k" for k
    proof (cases "max 1 ?c \<le> k")
      case False
      then show ?thesis
        using that(2) by (cases "?c = 0"; cases "k = 0") (auto simp: sl hi_def split: if_splits)
    qed (use that A(3) [of k] inode_okD(9) [OF ok, of k] in \<open>simp add: sl\<close>)
  qed (use len inode_okD(2) [OF ok] in \<open>auto simp: hi_def\<close>)
  moreover have "?A ! NDIRECT = 0 \<longleftrightarrow> ?c \<le> NDIRECT"
    using inode_okD(5,6) [OF ok] inv A100 by (metis linorder_not_le not_valid_zero)
  ultimately have "nz ?A = hi + (if NDIRECT < ?c then 1 else 0)"
    using nz_update [OF lenA, of 0] by (auto split: if_splits)
  then show ?thesis
    using assms(2) nblk_eq_0 [of "isize n"]
    by (auto simp: held_def owned_def ids_def total_def hi_def split: if_splits)
qed

end
