(* ===== verification/Remove_File.thy ===== *)
theory Remove_File
  imports Write_File
begin

text \<open>
  Correctness of \<open>inode_manager::remove_file\<close>: the file disappears and nothing else changes,
  but not all of its blocks come back. The number of entries of the indirect block is computed with
  \<open>strlen\<close>, which stops at the zero byte that every block number of this disk contains, so
  the data blocks behind the indirect block stay marked; and the block an empty file may hold
  is not looked at.
\<close>

lemma remove_direct_ok:
  assumes "j = min NDIRECT (nblk (isize n))"
  shows "i \<le> j \<Longrightarrow> good bm A \<Longrightarrow> length A = 229 \<Longrightarrow>
    \<forall>k\<in>{i..<j}. i_blocks n ! k = A ! k \<Longrightarrow> \<forall>k\<in>{i..<j}. A ! k \<noteq> 0 \<Longrightarrow>
    \<exists>bm' A'. remove_direct bm n i (BLOCK_SIZE * i) = Inr (bm', BLOCK_SIZE * j) \<and>
      evolves bm A bm' A' {i..<j} \<and> (\<forall>k\<in>{i..<j}. A' ! k = 0)"
proof (induction "j - i" arbitrary: i bm A)
  case 0
  then have "i = j" "\<not> (i < NDIRECT \<and> BLOCK_SIZE * i < isize n)"
    using assms less_nblk_iff [of i "isize n"] by auto
  then show ?case
    using 0 evolves_refl by (subst remove_direct.simps) auto
next
  case (Suc d)
  have i: "i < j" "i < NDIRECT" "BLOCK_SIZE * i < isize n" "i < length A"
    using Suc.hyps(2) Suc.prems(3) assms less_nblk_iff [of i "isize n"] by auto
  have Ai: "i_blocks n ! i = A ! i" "A ! i \<noteq> 0"
    using Suc.prems(4,5) i(1) by simp_all
  obtain bm1 where bm1: "free_block bm (A ! i) = Inr bm1" "evolves bm A bm1 (A[i := 0]) {i}"
    using free_step [OF Suc.prems(2) i(4) Ai(2)] .
  have unf: "remove_direct bm n i (BLOCK_SIZE * i) = remove_direct bm1 n (i + 1) (BLOCK_SIZE * (i + 1))"
    using i bm1(1) good_entry(1) [OF Suc.prems(2) i(4) Ai(2)]
    by (subst remove_direct.simps) (simp add: add.commute Ai(1))
  have "d = j - (i + 1)" "i + 1 \<le> j" "length (A[i := 0]) = 229"
    "\<forall>k\<in>{i + 1..<j}. i_blocks n ! k = A[i := 0] ! k" "\<forall>k\<in>{i + 1..<j}. A[i := 0] ! k \<noteq> 0"
    using Suc.hyps(2) Suc.prems(3-5) i(1) by simp_all
  then obtain bm' A' where IH: "remove_direct bm1 n (i + 1) (BLOCK_SIZE * (i + 1)) = Inr (bm', BLOCK_SIZE * j)"
    "evolves bm1 (A[i := 0]) bm' A' {i + 1..<j}" "\<forall>k\<in>{i + 1..<j}. A' ! k = 0"
    using Suc.hyps(1) [of "i + 1" bm1 "A[i := 0]"] evolvesD(1) [OF bm1(2)] by blast
  have "A' ! i = 0"
    using evolvesD(3) [OF IH(2), of i] i by simp
  then have "\<forall>k\<in>{i..<j}. A' ! k = 0"
    using IH(3) by (auto simp: Suc_le_eq le_less)
  moreover have "evolves bm A bm' A' {i..<j}"
    using evolves_trans [OF bm1(2) IH(2)] i(1) by auto
  ultimately show ?case
    using unf IH(1) by auto
qed

text \<open>A block number below \<open>BLOCK_NUM\<close> has a zero byte, so \<open>strlen\<close> counts at
  most two bytes and no entry.\<close>

lemma u32_at_small:
  assumes "u32_at bs off < BLOCK_NUM"
  shows "bs ! (off + 2) = NUL"
proof -
  define a b c d :: nat where "a = of_char (bs ! off)" and "b = of_char (bs ! (off + 1))"
    and "c = of_char (bs ! (off + 2))" and "d = of_char (bs ! (off + 3))"
  have less: "a < 256" "b < 256" "c < 256" "d < 256"
    by (simp_all add: a_def b_def c_def d_def)
  then have "a + 256 * b + 65536 * c + 16777216 * d < 4294967296"
    by linarith
  then have "unat (u32_at bs off) = a + 256 * b + 65536 * c + 16777216 * d"
    by (simp add: u32_at_def a_def b_def c_def d_def unat_of_nat del: of_nat_add of_nat_mult of_nat_numeral)
  then have "c = 0"
    using assms by (simp add: word_less_nat_alt)
  then have "of_char (bs ! (off + 2)) = (of_char NUL :: nat)"
    by (simp add: c_def)
  then show ?thesis
    by (simp only: of_char_eq_iff)
qed

lemma strlen_ids:
  assumes "length bs = BLOCK_SIZE" "u32_at bs 0 < BLOCK_NUM"
  obtains l where "strlen bs = Inr l" "l div 4 = 0"
proof -
  have nul: "bs ! 2 = NUL"
    using u32_at_small [OF assms(2)] by (simp add: numeral_2_eq_2)
  have "\<not> 2 < length (takeWhile (\<lambda>c. c \<noteq> NUL) bs)"
  proof
    assume less: "2 < length (takeWhile (\<lambda>c. c \<noteq> NUL) bs)"
    then have "NUL \<in> set (takeWhile (\<lambda>c. c \<noteq> NUL) bs)"
      using nth_mem [OF less] takeWhile_nth [OF less] nul by simp
    then show False
      by (auto dest: set_takeWhileD)
  qed
  moreover have "NUL \<in> set bs"
    using assms(1) nth_mem [of 2 bs] nul by simp
  ultimately show ?thesis
    using that by (simp add: strlen_def)
qed

section \<open>The whole operation\<close>

text \<open>The blocks of the file that stay marked in the bitmap after its removal: all data blocks behind
  the indirect block, and whatever an empty file holds.\<close>

definition leaked :: "inode_manager \<Rightarrow> u32 \<Rightarrow> nat" where
  "leaked im i = (case get_inode im i of None \<Rightarrow> 0
     | Some n \<Rightarrow> if isize n = 0 then held im i else nblk (isize n) - NDIRECT)"

lemma full_slots:
  assumes inv: "bm_inv bm" and ok: "inode_ok bm n"
  shows "k < nblk (isize n) \<Longrightarrow> slot (i_blocks n @ ind_entries bm n) k \<noteq> 0"
    "i_blocks n ! NDIRECT = 0 \<longleftrightarrow> nblk (isize n) \<le> NDIRECT"
    "length (i_blocks n @ ind_entries bm n) = 229" "(i_blocks n @ ind_entries bm n) ! NDIRECT = i_blocks n ! NDIRECT"
proof -
  note len = inode_okD(1) [OF ok] and c = inode_okD(2) [OF ok]
  show "slot (i_blocks n @ ind_entries bm n) k \<noteq> 0" if "k < nblk (isize n)"
    using inode_okD(8) [OF ok that] inode_ids(3) [OF inv ok, of k] that c inv by auto
  show "i_blocks n ! NDIRECT = 0 \<longleftrightarrow> nblk (isize n) \<le> NDIRECT"
    using inode_okD(5,6) [OF ok] inv by (metis linorder_not_le not_valid_zero)
qed (use inode_okD(1) [OF ok] in \<open>simp_all add: nth_append\<close>)

text \<open>The loop over the direct blocks empties the slots of the blocks in use.\<close>

lemma remove_direct_phase:
  assumes inv: "bm_inv bm" and ok: "inode_ok bm n"
  defines "j \<equiv> min NDIRECT (nblk (isize n))" and "A \<equiv> i_blocks n @ ind_entries bm n"
  obtains bm1 A1 where "remove_direct bm n 0 0 = Inr (bm1, BLOCK_SIZE * j)" "evolves bm A bm1 A1 {0..<j}"
    "length A1 = 229" "A1 ! NDIRECT = i_blocks n ! NDIRECT"
    "\<And>k. k < MAXFILE \<Longrightarrow> slot A1 k = (if k < j then 0 else slot A k)"
proof -
  note A = inode_ids(1) [OF inv ok, folded A_def] and full = full_slots [OF inv ok, folded A_def]
  have "A ! k \<noteq> 0" if "k < j" for k
    using full(1) [of k] that by (simp add: j_def slot_def idx_def)
  then have "\<forall>k\<in>{0..<j}. i_blocks n ! k = A ! k" "\<forall>k\<in>{0..<j}. A ! k \<noteq> 0"
    using inode_okD(1) [OF ok] by (simp_all add: j_def A_def nth_append)
  then obtain bm1 A1 where d: "remove_direct bm n 0 0 = Inr (bm1, BLOCK_SIZE * j)"
    "evolves bm A bm1 A1 {0..<j}" "\<forall>k\<in>{0..<j}. A1 ! k = 0"
    using remove_direct_ok [OF j_def [THEN meta_eq_to_obj_eq], of 0 bm A] A full(3) by fastforce
  have "slot A1 k = (if k < j then 0 else slot A k)" if "k < MAXFILE" for k
    using d(3) evolvesD(3) [OF d(2), of "idx k"] idx_less [OF that] full(3)
    by (auto simp: slot_def idx_def j_def)
  moreover have "length A1 = 229" "A1 ! NDIRECT = i_blocks n ! NDIRECT"
    using evolvesD(2,3) [OF d(2)] full(3,4) by (simp_all add: j_def)
  ultimately show ?thesis
    using that [OF d(1,2)] by blast
qed

text \<open>What follows frees the indirect block but none of the blocks behind it.\<close>

lemma remove_indirect_phase:
  assumes inv: "bm_inv bm" and ok: "inode_ok bm n" and big: "NDIRECT < nblk (isize n)"
    and ev: "evolves bm (i_blocks n @ ind_entries bm n) bm1 A1 {0..<NDIRECT}" and A1: "length A1 = 229"
    "A1 ! NDIRECT = i_blocks n ! NDIRECT"
  obtains bm2 where "get_indirect_blocks bm1 n = Inr (blk bm (i_blocks n ! NDIRECT), 0)"
    "free_block bm1 (i_blocks n ! NDIRECT) = Inr bm2" "evolves bm1 A1 bm2 (A1[NDIRECT := 0]) {NDIRECT}"
proof -
  let ?A = "i_blocks n @ ind_entries bm n" and ?b = "i_blocks n ! NDIRECT"
  note A = inode_ids(1) [OF inv ok] and full = full_slots [OF inv ok]
  have b: "?b \<noteq> 0" "data_block ?b"
    using full(2) big good_entry(2) [OF A, of NDIRECT] full(3,4) by auto
  have "blk bm1 ?b = blk bm ?b"
    using evolvesD(4) [OF ev, of NDIRECT] full(3,4) b(1) by simp
  then have read: "read_block bm1 ?b (zeros BLOCK_SIZE) = blk bm ?b"
    using data_block_range(1) [OF b(2)] by (simp add: read_block_blk)
  have "u32_at (blk bm ?b) 0 = slot ?A NDIRECT"
    using slot_append(2) [OF inode_okD(1) [OF ok], of NDIRECT] b(1) entries_nth [of 0 "blk bm ?b"]
    by (simp add: ind_entries_def)
  moreover have "data_block (slot ?A NDIRECT)"
    using full(1) [OF big] good_entry(2) [OF A, of "idx NDIRECT"] full(3) by (simp add: slot_def idx_def)
  ultimately obtain l where "strlen (blk bm ?b) = Inr l" "l div 4 = 0"
    using strlen_ids [of "blk bm ?b"] length_blk [OF inv] data_block_range(1) by metis
  then have "get_indirect_blocks bm1 n = Inr (blk bm ?b, 0)"
    using read by (simp add: get_indirect_blocks_def)
  moreover have "A1 ! NDIRECT \<noteq> 0" "NDIRECT < length A1"
    using A1 b(1) by simp_all
  ultimately show ?thesis
    using that free_step [OF evolvesD(1) [OF ev]] A1(2) by metis
qed

lemma remove_blocks_ok:
  assumes inv: "bm_inv bm" and ok: "inode_ok bm n"
  defines "j \<equiv> min NDIRECT (nblk (isize n))"
  obtains bm1 bm2 A' where "remove_direct bm n 0 0 = Inr (bm1, BLOCK_SIZE * j)"
    "(if BLOCK_SIZE * j < isize n
      then res_bind (get_indirect_blocks bm1 n) (\<lambda>(ind, indirect_block_num).
           res_bind (remove_indirect bm1 n ind indirect_block_num 0 (BLOCK_SIZE * j))
             (\<lambda>bm2. free_block bm2 (i_blocks n ! NDIRECT)))
      else Inr bm1) = Inr bm2"
    "evolves bm (ids bm n) bm2 A' UNIV"
    "nz A' = (if isize n = 0 then nz (ids bm n) else nblk (isize n) - NDIRECT)"
proof -
  let ?A = "i_blocks n @ ind_entries bm n" and ?c = "nblk (isize n)"
  note A = inode_ids [OF inv ok] and full = full_slots [OF inv ok] and c = inode_okD(2) [OF ok]
  obtain bm1 A1 where d: "remove_direct bm n 0 0 = Inr (bm1, BLOCK_SIZE * j)" "evolves bm ?A bm1 A1 {0..<j}"
    "length A1 = 229" "A1 ! NDIRECT = i_blocks n ! NDIRECT"
    "\<And>k. k < MAXFILE \<Longrightarrow> slot A1 k = (if k < j then 0 else slot ?A k)"
    unfolding j_def using remove_direct_phase [OF inv ok] by blast
  have empty: "slot ?A k = 0" if "max 1 ?c \<le> k" "k < MAXFILE" for k
    using inode_okD(9) [OF ok that] A(3) [OF that(2)] by simp
  show ?thesis
  proof (cases "NDIRECT < ?c")
    case False
    have "A1 = ?A" if "isize n = 0"
      using evolvesD(2,3) [OF d(2)] that by (intro nth_equalityI) (simp_all add: j_def)
    moreover have "nz A1 = 0 - 0" if "isize n \<noteq> 0"
    proof -
      have "max 1 ?c = ?c"
        using that nblk_eq_0 [of "isize n"] by linarith
      then have "slot A1 k = 0" if "k < MAXFILE" for k
        using d(5) [OF that] empty [of k] that False by (simp add: j_def split: if_splits)
      then show ?thesis
        using d(3,4) full(2) False by (intro nz_slots) auto
    qed
    ultimately have "nz A1 = (if isize n = 0 then nz ?A else ?c - NDIRECT)"
      using False by simp
    moreover have "\<not> BLOCK_SIZE * j < isize n"
      using False less_nblk_iff [of ?c "isize n"] by (simp add: j_def min_def)
    ultimately show ?thesis
      using that [of bm1 bm1 A1] d(1) evolves_mono [OF d(2)] by (simp add: ids_def)
  next
    case True
    have less: "BLOCK_SIZE * j < isize n" "j = NDIRECT"
      using True less_nblk_iff [of NDIRECT "isize n"] by (simp_all add: j_def)
    obtain bm2 where bm2: "get_indirect_blocks bm1 n = Inr (blk bm (i_blocks n ! NDIRECT), 0)"
      "free_block bm1 (i_blocks n ! NDIRECT) = Inr bm2" "evolves bm1 A1 bm2 (A1[NDIRECT := 0]) {NDIRECT}"
      using remove_indirect_phase [OF inv ok True _ d(3,4)] d(2) less(2) by blast
    have "slot (A1[NDIRECT := 0]) k = slot A1 k" for k
      by (simp add: slot_def idx_def)
    then have "nz (A1[NDIRECT := 0]) = ?c - NDIRECT"
      using d(3,5) less(2) full(1) empty True c by (intro nz_slots) auto
    moreover have "remove_indirect bm1 n (blk bm (i_blocks n ! NDIRECT)) 0 0 (BLOCK_SIZE * j) = Inr bm1"
      by (subst remove_indirect.simps) simp
    moreover have "evolves bm ?A bm2 (A1[NDIRECT := 0]) UNIV"
      by (rule evolves_trans [OF d(2) bm2(3)]) simp
    ultimately show ?thesis
      using that [of bm1 bm2 "A1[NDIRECT := 0]"] d(1) bm2(1,2) less(1) True by (simp add: ids_def)
  qed
qed

lemma commit_free:
  assumes inv: "fs_inv im" and n: "get_inode im i = Some n"
    and bm: "bm_inv (im_bm im1)" and lst: "last_alloced im1 \<le> INODE_NUM"
    and tab: "\<And>b. \<not> data_block b \<Longrightarrow> blk (im_bm im1) b = blk (im_bm im) b"
    and oth: "\<And>b. b \<in> others im i \<Longrightarrow>
      blk (im_bm im1) b = blk (im_bm im) b \<and> is_valid_block (im_bm im1) b"
  shows "fs_inv (free_inode im1 i)" "files (free_inode im1 i) = (files im)(i := None)"
    "bm_free (im_bm (free_inode im1 i)) = bm_free (im_bm im1)"
proof -
  have tab1: "get_inode im1 = get_inode im"
    using get_inode_frame [OF fs_invD(1) [OF inv] bm tab] .
  then have n1: "get_inode im1 i = Some n"
    using n by simp
  have i: "i \<noteq> 0" "i \<le> INODE_NUM"
    using fs_invD(3) [OF inv] n get_inode_SomeD(1) [OF n] by auto
  note fr = free_inode_blk [OF bm n1]
  have tab2: "get_inode (free_inode im1 i) = (get_inode im)(i := None)"
    using get_free_inode [OF bm n1] tab1 by simp
  have oth2: "blk (im_bm (free_inode im1 i)) b = blk (im_bm im) b \<and> is_valid_block (im_bm (free_inode im1 i)) b"
    if "b \<in> others im i" for b
    using oth [OF that] fr(1) is_valid_cong [OF fr(3)] valid_data_block [OF bm, of b] inode_block_range(2) [OF i(2)]
    by auto
  note upd = fs_inv_update [OF inv fr(2) _ tab2 i(1) oth2]
  show "fs_inv (free_inode im1 i)" "files (free_inode im1 i) = (files im)(i := None)"
    using upd fr(4) lst by simp_all
  show "bm_free (im_bm (free_inode im1 i)) = bm_free (im_bm im1)"
    using fr(3) by (simp add: bm_free_def free_set_def)
qed

lemma remove_file_ok:
  assumes inv: "fs_inv im" and fi: "files im i \<noteq> None"
  shows "\<exists>im'. remove_file im i = Inr im' \<and> fs_inv im' \<and> files im' = (files im)(i := None) \<and>
    bm_free (im_bm im') + leaked im i = bm_free (im_bm im) + held im i"
proof -
  obtain n where n: "get_inode im i = Some n"
    using fi by (auto simp: files_def)
  note bm = fs_invD(1) [OF inv] and ok = fs_invD(4) [OF inv n]
  from remove_blocks_ok [OF bm ok] obtain bm1 bm2 A' where
    d: "remove_direct (im_bm im) n 0 0 = Inr (bm1, BLOCK_SIZE * min NDIRECT (nblk (isize n)))"
    and f: "(if BLOCK_SIZE * min NDIRECT (nblk (isize n)) < isize n
      then res_bind (get_indirect_blocks bm1 n) (\<lambda>(ind, indirect_block_num).
           res_bind (remove_indirect bm1 n ind indirect_block_num 0 (BLOCK_SIZE * min NDIRECT (nblk (isize n))))
             (\<lambda>bm2. free_block bm2 (i_blocks n ! NDIRECT)))
      else Inr bm1) = Inr bm2"
    and ev: "evolves (im_bm im) (ids (im_bm im) n) bm2 A' UNIV"
    and nz: "nz A' = (if isize n = 0 then nz (ids (im_bm im) n) else nblk (isize n) - NDIRECT)"
    by blast
  let ?im1 = "im\<lparr>im_bm := bm2\<rparr>"
  have "remove_file im i = Inr (free_inode ?im1 i)"
    using leD [OF get_inode_SomeD(1) [OF n]] d f
    by (simp add: remove_file_def n split del: if_split)
  moreover have "bm_inv bm2"
    using evolvesD(1) [OF ev] by (simp add: good_def)
  note commit_free [OF inv n, of ?im1, simplified, OF this fs_invD(2) [OF inv] evolvesD(6) [OF ev]]
  note this [OF _ conjI [OF foreign_blocks(3,1) [OF inv n ev]]]
  moreover have "held im i = nz (ids (im_bm im) n)" "leaked im i = nz A'"
    by (simp_all add: held_def leaked_def n owned_def nz)
  ultimately show ?thesis
    using evolvesD(7) [OF ev] by auto
qed

text \<open>C11. \<open>remove_file\<close> on a well-formed file system removes exactly the file: every other
  file is unchanged and the file system stays well formed. The blocks of the file come back except for
  \<open>leaked\<close>: all data blocks behind the indirect block of a file of more than 100 blocks,
  and the block that an empty file holds if it was not empty before.\<close>

theorem remove_file_correct:
  assumes inv: "fs_inv im" and fi: "files im i \<noteq> None"
  shows "\<exists>im'. remove_file im i = Inr im' \<and> fs_inv im' \<and> files im' = (files im)(i := None) \<and>
    bm_free (im_bm im') + leaked im i = bm_free (im_bm im) + held im i"
  using assms by (rule remove_file_ok)

theorem remove_file_correct_witness:
  "files (root_im sample_env) 1 \<noteq> None \<and>
   (\<exists>im'. remove_file (root_im sample_env) 1 = Inr im' \<and> fs_inv im' \<and> files im' = Map.empty)"
  using remove_file_correct [OF root_im_facts(1), of sample_env 1] by (auto simp: root_im_facts)

end
