(* ===== verification/Extent.thy ===== *)
theory Extent
  imports Remove_File
begin

text \<open>
  \<open>extent_server\<close> and \<open>extent_client\<close>: the key-value view of the inode layer that
  the file system client works on. An operation is a function from the state to a result and a new
  state, or a fault; every operation of the extent layer reports \<open>OK\<close>. The interface
  \<open>extent_store\<close> states what the client relies on, and the read-modify-write steps of the
  client are proved in it.
\<close>

section \<open>Operations with a state and faults\<close>

type_synonym 'a io = "inode_manager \<Rightarrow> ('a \<times> inode_manager) res"

definition io_return :: "'a \<Rightarrow> 'a io" where
  "io_return x = (\<lambda>im. Inr (x, im))"

definition io_bind :: "'a io \<Rightarrow> ('a \<Rightarrow> 'b io) \<Rightarrow> 'b io" where
  "io_bind m f = (\<lambda>im. res_bind (m im) (\<lambda>(x, im'). f x im'))"

lemma io_simps [simp]:
  "io_return x im = Inr (x, im)"
  "m im = Inr (y, im') \<Longrightarrow> io_bind m f im = f y im'"
  "m im = Inl e \<Longrightarrow> io_bind m f im = Inl e"
  by (simp_all add: io_return_def io_bind_def)

text \<open>The status codes of \<open>extent_protocol\<close> and \<open>chfs_client\<close>.\<close>

datatype xxstatus = OK | RPCERR | NOENT | IOERR | EXIST

section \<open>\<open>extent_server\<close>\<close>

text \<open>The key of an extent: the lower 31 bits of the identifier, as a 32-bit number.\<close>

definition eid_inum :: "u64 \<Rightarrow> u32" where
  "eid_inum eid = ucast (and eid 0x7fffffff)"

definition es_create :: "u32 \<Rightarrow> (xxstatus \<times> u64) io" where
  "es_create type im = (let (i, im') = alloc_inode im type in Inr ((OK, ucast i), im'))"

text \<open>
  \<open>put\<close> hands \<open>c_str()\<close> and \<open>size()\<close> to \<open>write_file\<close>. The bytes
  that are there to be read are the string, its terminating NUL and \<open>behind\<close>, whatever may be read
  after it; C++ promises no such byte, which is \<open>es_put_with []\<close>. But \<open>write_file\<close> copies a
  last direct block of fewer than 512 bytes as a whole block and needs up to 510 of them
  (\<open>put_overread\<close> in theory \<open>Overread\<close>). \<open>es_put\<close>, which the other operations
  call, \<^emph>\<open>assumes\<close> that 511 bytes may be read there, of any value: this is the one access
  outside of an object of the program that the model lets pass.
\<close>

definition es_put_with :: "byte list \<Rightarrow> u64 \<Rightarrow> byte list \<Rightarrow> xxstatus io" where
  "es_put_with behind eid buf im =
     (let sz = sint (word_of_nat (length buf) :: u32)
      in res_bind (write_file im (eid_inum eid) (buf @ NUL # behind) sz) (\<lambda>im1. Inr (OK, im1)))"

definition es_put :: "u64 \<Rightarrow> byte list \<Rightarrow> xxstatus io" where
  "es_put eid buf im = (let (heap, im1) = heap_bytes im 511 in es_put_with heap eid buf im1)"

definition es_get :: "u64 \<Rightarrow> (xxstatus \<times> byte list) io" where
  "es_get eid im =
     res_bind (read_file im (eid_inum eid) None 0) (\<lambda>(cbuf, sz, im1).
     if sz = 0 then Inr ((OK, []), im1)
     else if sz < 0 then Inl Out_of_range
     else case cbuf of None \<Rightarrow> Inl Out_of_bounds
          | Some b \<Rightarrow> res_bind (load b 0 (nat sz)) (\<lambda>buf. Inr ((OK, buf), im1)))"

definition es_getattr :: "u64 \<Rightarrow> (xxstatus \<times> attr) io" where
  "es_getattr eid im =
     Inr ((OK, get_attr im (eid_inum eid)
       \<lparr>a_type = 0, a_atime = 0, a_mtime = 0, a_ctime = 0, a_size = 0\<rparr>), im)"

definition es_remove :: "u64 \<Rightarrow> xxstatus io" where
  "es_remove eid im = res_bind (remove_file im (eid_inum eid)) (\<lambda>im1. Inr (OK, im1))"

section \<open>\<open>extent_client\<close>\<close>

definition ec_create :: "u32 \<Rightarrow> (xxstatus \<times> u64) io" where
  "ec_create type = io_bind (es_create type) (\<lambda>(ret, eid). io_return (ret, eid))"

definition ec_get :: "u64 \<Rightarrow> (xxstatus \<times> byte list) io" where
  "ec_get eid = io_bind (es_get eid) (\<lambda>(ret, buf). io_return (ret, buf))"

definition ec_getattr :: "u64 \<Rightarrow> (xxstatus \<times> attr) io" where
  "ec_getattr eid = io_bind (es_getattr eid) (\<lambda>(ret, a). io_return (ret, a))"

definition ec_put :: "u64 \<Rightarrow> byte list \<Rightarrow> xxstatus io" where
  "ec_put eid buf = io_bind (es_put eid buf) io_return"

definition ec_remove :: "u64 \<Rightarrow> xxstatus io" where
  "ec_remove eid = io_bind (es_remove eid) io_return"

lemma ec_es:
  "ec_create = es_create" "ec_get = es_get" "ec_getattr = es_getattr" "ec_put = es_put" "ec_remove = es_remove"
  by (auto simp: fun_eq_iff ec_create_def ec_get_def ec_getattr_def ec_put_def ec_remove_def io_bind_def
      io_return_def res_bind_def split: sum.splits)

section \<open>The interface of the store\<close>

text \<open>The blocks a file of \<open>n\<close> bytes needs.\<close>

definition cost :: "nat \<Rightarrow> nat" where
  "cost n = total (nblk n)"

lemma cost_mono: "m \<le> n \<Longrightarrow> cost m \<le> cost n"
  by (auto simp: cost_def total_def nblk_def div_le_mono split: if_splits intro: add_mono)

text \<open>
  The files of the store are a map from keys to types and contents. Reading and the attributes never
  fail; a \<open>put\<close> succeeds when the content fits the largest file and the free space;
  an empty file may keep one block, hence the \<open>cost (max 1 _)\<close> in the law about the space.
\<close>

locale extent_store =
  fixes inv :: "'s \<Rightarrow> bool"
    and store :: "'s \<Rightarrow> u32 \<rightharpoonup> u16 \<times> byte list"
    and room :: "'s \<Rightarrow> nat"
    and create :: "u32 \<Rightarrow> 's \<Rightarrow> ((xxstatus \<times> u64) \<times> 's) res"
    and get :: "u64 \<Rightarrow> 's \<Rightarrow> ((xxstatus \<times> byte list) \<times> 's) res"
    and getattr :: "u64 \<Rightarrow> 's \<Rightarrow> ((xxstatus \<times> attr) \<times> 's) res"
    and put :: "u64 \<Rightarrow> byte list \<Rightarrow> 's \<Rightarrow> (xxstatus \<times> 's) res"
    and remove :: "u64 \<Rightarrow> 's \<Rightarrow> (xxstatus \<times> 's) res"
  assumes zero_unused: "inv s \<Longrightarrow> store s 0 = None"
    and get_ok: "inv s \<Longrightarrow> \<exists>s'. get eid s
        = Inr ((OK, case store s (eid_inum eid) of None \<Rightarrow> [] | Some (t, c) \<Rightarrow> c), s') \<and>
      inv s' \<and> store s' = store s \<and> room s' = room s"
    and getattr_ok: "inv s \<Longrightarrow> \<exists>a. getattr eid s = Inr ((OK, a), s) \<and>
      (case store s (eid_inum eid) of None \<Rightarrow> a_type a = 0 \<and> a_size a = 0
       | Some (t, c) \<Rightarrow> a_type a = scast t \<and> a_size a = of_nat (length c))"
    and put_ok: "inv s \<Longrightarrow> store s (eid_inum eid) = Some (t, c) \<Longrightarrow> length buf \<le> BLOCK_SIZE * MAXFILE \<Longrightarrow>
      cost (length buf) - cost (length c) \<le> room s \<Longrightarrow>
      \<exists>s'. put eid buf s = Inr (OK, s') \<and> inv s' \<and>
        store s' = (store s)(eid_inum eid \<mapsto> (t, buf)) \<and>
        room s + cost (length c) \<le> room s' + cost (max 1 (length buf))"
    and put_absent: "inv s \<Longrightarrow> store s (eid_inum eid) = None \<Longrightarrow>
      \<exists>s'. put eid buf s = Inr (OK, s') \<and> inv s' \<and> store s' = store s \<and> room s' = room s"
    and create_ok: "inv s \<Longrightarrow> type \<in> {T_DIR, T_FILE, T_SYMBOLIC} \<Longrightarrow>
      \<exists>eid s'. create type s = Inr ((OK, eid), s') \<and> inv s' \<and> room s' = room s \<and>
        (if eid = 0 then store s' = store s \<and> (\<forall>j. j \<noteq> 0 \<and> j < 1024 \<longrightarrow> store s j \<noteq> None)
         else eid \<le> 1024 \<and> store s (eid_inum eid) = None \<and>
           store s' = (store s)(eid_inum eid \<mapsto> (ucast type, [])))"
    and remove_ok: "inv s \<Longrightarrow> \<exists>s'. remove eid s = Inr (OK, s') \<and> inv s' \<and>
      store s' = (store s)(eid_inum eid := None) \<and> room s \<le> room s'"
begin

text \<open>Appending to an extent, as the directory operations do.\<close>

lemma append_ok:
  assumes "inv s" "store s (eid_inum eid) = Some (t, c)" "length (c @ x) \<le> BLOCK_SIZE * MAXFILE"
    "cost (length (c @ x)) - cost (length c) \<le> room s"
  obtains s1 s2 where "get eid s = Inr ((OK, c), s1)" "put eid (c @ x) s1 = Inr (OK, s2)" "inv s2"
    "store s2 = (store s)(eid_inum eid \<mapsto> (t, c @ x))"
proof -
  obtain s1 where "get eid s = Inr ((OK, c), s1)" "inv s1" "store s1 = store s" "room s1 = room s"
    using get_ok [OF assms(1), of eid] assms(2) by auto
  then show ?thesis
    using that put_ok [of s1 eid t c "c @ x"] assms by auto
qed

text \<open>What is put is what is got, and a removed extent reads as empty.\<close>

lemma put_get:
  assumes "inv s" "store s (eid_inum eid) = Some (t, c)" "length buf \<le> BLOCK_SIZE * MAXFILE"
    "cost (length buf) - cost (length c) \<le> room s"
  obtains s1 s2 where "put eid buf s = Inr (OK, s1)" "get eid s1 = Inr ((OK, buf), s2)" "inv s2"
    "store s2 = (store s)(eid_inum eid \<mapsto> (t, buf))"
proof -
  obtain s1 where s1: "put eid buf s = Inr (OK, s1)" "inv s1" "store s1 = (store s)(eid_inum eid \<mapsto> (t, buf))"
    using put_ok [OF assms] by blast
  then show ?thesis
    using that get_ok [OF s1(2), of eid] by auto
qed

lemma remove_get:
  assumes "inv s"
  obtains s1 s2 where "remove eid s = Inr (OK, s1)" "get eid s1 = Inr ((OK, []), s2)" "inv s2"
    "store s2 = (store s)(eid_inum eid := None)"
proof -
  obtain s1 where s1: "remove eid s = Inr (OK, s1)" "inv s1" "store s1 = (store s)(eid_inum eid := None)"
    using remove_ok [OF assms] by blast
  then show ?thesis
    using that get_ok [OF s1(2), of eid] by auto
qed

lemma get_file:
  assumes "inv s" "store s (eid_inum eid) = Some (t, c)"
  obtains s' where "get eid s = Inr ((OK, c), s')" "inv s'" "store s' = store s" "room s' = room s"
  using get_ok [OF assms(1), of eid] assms(2) by auto

lemma getattr_file:
  assumes "inv s" "store s (eid_inum eid) = Some (t, c)"
  obtains a where "getattr eid s = Inr ((OK, a), s)" "a_type a = scast t" "a_size a = of_nat (length c)"
  using getattr_ok [OF assms(1), of eid] assms(2) by auto

end

section \<open>The extent server provides it\<close>

lemma heap_bytes_simps:
  "heap_bytes im n = (map (env_heap (im_env im) (env_tick (im_env im))) [0..<n], tick im)"
  by (simp add: heap_bytes_def)

lemma held_cong: "im_bm im = im_bm im' \<Longrightarrow> held im = held im'"
  unfolding held_def by (auto simp: fun_eq_iff get_inode_cong [of im im'] split: option.splits)

lemma cost_held:
  assumes "fs_inv im" "files im i = Some (t, c)"
  shows "cost (length c) \<le> held im i" "held im i \<le> cost (max 1 (length c))"
proof -
  obtain n where n: "get_inode im i = Some n" "c = content (im_bm im) n"
    using assms(2) by (auto simp: files_def)
  then have "length c = isize n"
    using length_content(1) [OF fs_invD(1) [OF assms(1)] fs_invD(4) [OF assms(1) n(1)]] by simp
  then show "cost (length c) \<le> held im i" "held im i \<le> cost (max 1 (length c))"
    using held_cases [OF assms(1) n(1)] by (auto simp: cost_def total_def nblk_def max_def)
qed

lemma files_None: "files im i = None \<longleftrightarrow> get_inode im i = None"
  by (simp add: files_def)

lemma files_size:
  assumes "fs_inv im" "files im i = Some (t, c)"
  shows "length c \<le> BLOCK_SIZE * MAXFILE"
  using assms length_content [OF fs_invD(1) [OF assms(1)] fs_invD(4) [OF assms(1)]]
  by (auto simp: files_def)

lemma eid_inum_unat: "unat (eid_inum eid) = unat eid mod 2 ^ 31"
proof -
  have "and eid 0x7fffffff = take_bit 31 eid"
    by (simp add: take_bit_eq_mask mask_eq_exp_minus_1)
  then have "unat (and eid 0x7fffffff) = unat eid mod 2 ^ 31"
    by (simp only: unsigned_take_bit_eq) (simp add: take_bit_eq_mod)
  moreover have "unat eid mod 2 ^ 31 < 2 ^ 32"
    using mod_less_divisor [of "2 ^ 31" "unat eid"] by simp
  ultimately show ?thesis
    by (simp add: eid_inum_def unsigned_ucast_eq take_bit_eq_mod)
qed

lemma eid_inum_ucast: "(i :: u32) \<le> 1024 \<Longrightarrow> eid_inum (ucast i) = i"
  by (simp add: word_unat_eq_iff eid_inum_unat unsigned_ucast_eq word_le_nat_alt take_bit_eq_mod)

lemma es_get_ok:
  assumes "fs_inv im"
  shows "\<exists>im'. es_get eid im = Inr ((OK, case files im (eid_inum eid) of None \<Rightarrow> [] | Some (t, c) \<Rightarrow> c), im') \<and>
    fs_inv im' \<and> files im' = files im \<and> bm_free (im_bm im') = bm_free (im_bm im)"
proof (cases "files im (eid_inum eid)")
  case None
  then have "read_file im (eid_inum eid) None 0 = Inr (None, 0, im)"
    by (simp add: read_file_def files_None)
  then show ?thesis
    using None assms by (simp add: es_get_def)
next
  case (Some tc)
  obtain t c where tc: "tc = (t, c)"
    by fastforce
  obtain out im' where r: "read_file im (eid_inum eid) None 0 = Inr (Some out, int (length c), im')"
    "take (length c) out = c" "fs_inv im'" "files im' = files im" "bm_free (im_bm im') = bm_free (im_bm im)"
    using read_file_ok [OF assms, of "eid_inum eid" t c None 0] Some tc by auto
  have "length c \<le> length out"
    using r(2) by (metis length_take min.cobounded1)
  then show ?thesis
    using r Some tc by (auto simp: es_get_def load_def)
qed

lemma es_getattr_ok:
  assumes "fs_inv im"
  shows "\<exists>a. es_getattr eid im = Inr ((OK, a), im) \<and>
    (case files im (eid_inum eid) of None \<Rightarrow> a_type a = 0 \<and> a_size a = 0
     | Some (t, c) \<Rightarrow> a_type a = scast t \<and> a_size a = of_nat (length c))"
proof (cases "get_inode im (eid_inum eid)")
  case None
  then show ?thesis
    by (simp add: es_getattr_def get_attr_def files_def)
next
  case (Some n)
  then show ?thesis
    using get_inode_SomeD(1) [OF Some] length_content(1) [OF fs_invD(1) [OF assms] fs_invD(4) [OF assms Some]]
    by (auto simp: es_getattr_def get_attr_def files_def)
qed

lemma int_size: "n \<le> BLOCK_SIZE * MAXFILE \<Longrightarrow> sint (word_of_nat n :: u32) = int n"
  by (subst sint_small) (simp_all add: unat_of_nat)

lemma es_put_with_ok:
  assumes inv: "fs_inv im" and fi: "files im (eid_inum eid) = Some (t, c)"
    and len: "length buf \<le> BLOCK_SIZE * MAXFILE" and space: "cost (length buf) - cost (length c) \<le> bm_free (im_bm im)"
    and behind: "BLOCK_SIZE - 1 \<le> length behind"
  shows "\<exists>im'. es_put_with behind eid buf im = Inr (OK, im') \<and> fs_inv im' \<and>
    files im' = (files im)(eid_inum eid \<mapsto> (t, buf)) \<and>
    bm_free (im_bm im) + cost (length c) \<le> bm_free (im_bm im') + cost (max 1 (length buf))"
proof -
  let ?i = "eid_inum eid"
  obtain im' where w: "write_file im ?i (buf @ NUL # behind) (int (length buf)) = Inr im'" "fs_inv im'"
    "files im' = (files im)(?i \<mapsto> (t, buf))"
    "bm_free (im_bm im') + held im' ?i = bm_free (im_bm im) + held im ?i"
    using write_file_ok [of im ?i t c buf "NUL # behind"] inv fi len space behind by (auto simp: cost_def)
  have "es_put_with behind eid buf im = Inr (OK, im')"
    using w(1) int_size [OF len] by (simp add: es_put_with_def)
  then show ?thesis
    using w cost_held(1) [OF inv fi] cost_held(2) [of im' ?i t buf] by auto
qed

lemma es_put_ok:
  assumes "fs_inv im" "files im (eid_inum eid) = Some (t, c)" "length buf \<le> BLOCK_SIZE * MAXFILE"
    "cost (length buf) - cost (length c) \<le> bm_free (im_bm im)"
  shows "\<exists>im'. es_put eid buf im = Inr (OK, im') \<and> fs_inv im' \<and>
    files im' = (files im)(eid_inum eid \<mapsto> (t, buf)) \<and>
    bm_free (im_bm im) + cost (length c) \<le> bm_free (im_bm im') + cost (max 1 (length buf))"
  using es_put_with_ok [of "tick im" eid t c buf "fst (heap_bytes im 511)"] assms
  by (simp add: es_put_def heap_bytes_simps)

lemma es_create_ok:
  assumes inv: "fs_inv im" and type: "type \<in> {T_DIR, T_FILE, T_SYMBOLIC}"
  shows "\<exists>eid im'. es_create type im = Inr ((OK, eid), im') \<and> fs_inv im' \<and>
    bm_free (im_bm im') = bm_free (im_bm im) \<and>
    (if eid = 0 then files im' = files im \<and> (\<forall>j. j \<noteq> 0 \<and> j < 1024 \<longrightarrow> files im j \<noteq> None)
     else eid \<le> 1024 \<and> files im (eid_inum eid) = None \<and>
       files im' = (files im)(eid_inum eid \<mapsto> (ucast type, [])))"
proof -
  obtain i im' where al: "alloc_inode im type = (i, im')"
    by fastforce
  have "(ucast type :: u16) \<noteq> 0"
    using type by auto
  note ok = alloc_inode_ok [OF inv this al]
  have i: "i \<le> 1024"
    using ok by (cases "i = 0") auto
  then have "ucast i \<le> (1024 :: u64)" "ucast i = (0 :: u64) \<longleftrightarrow> i = 0"
    by (auto simp: word_le_nat_alt unsigned_ucast_eq take_bit_eq_mod word_unat_eq_iff)
  then show ?thesis
    using ok eid_inum_ucast [OF i] by (simp add: es_create_def al)
qed

lemma leaked_le_held: "fs_inv im \<Longrightarrow> leaked im i \<le> held im i"
proof (cases "get_inode im i")
  case (Some n)
  assume "fs_inv im"
  then show ?thesis
    using held_cases [OF _ Some] by (auto simp: leaked_def Some total_def)
qed (simp add: leaked_def)

lemma es_remove_ok:
  assumes "fs_inv im"
  shows "\<exists>im'. es_remove eid im = Inr (OK, im') \<and> fs_inv im' \<and>
    files im' = (files im)(eid_inum eid := None) \<and> bm_free (im_bm im) \<le> bm_free (im_bm im')"
proof (cases "files im (eid_inum eid)")
  case None
  then have "remove_file im (eid_inum eid) = Inr im"
    by (simp add: remove_file_def files_None)
  then show ?thesis
    using assms None by (simp add: es_remove_def fun_upd_idem)
next
  case (Some tc)
  then obtain im' where "remove_file im (eid_inum eid) = Inr im'" "fs_inv im'"
    "files im' = (files im)(eid_inum eid := None)"
    "bm_free (im_bm im') + leaked im (eid_inum eid) = bm_free (im_bm im) + held im (eid_inum eid)"
    using remove_file_ok [OF assms, of "eid_inum eid"] by auto
  then show ?thesis
    using leaked_le_held [OF assms, of "eid_inum eid"] by (auto simp: es_remove_def)
qed

lemma es_put_absent:
  assumes "fs_inv im" "files im (eid_inum eid) = None"
  shows "\<exists>im'. es_put eid buf im = Inr (OK, im') \<and> fs_inv im' \<and> files im' = files im \<and>
    bm_free (im_bm im') = bm_free (im_bm im)"
proof -
  have "get_inode (tick im) (eid_inum eid) = None"
    using assms(2) by (simp add: files_None)
  then show ?thesis
    using assms(1) by (simp add: es_put_def es_put_with_def heap_bytes_simps write_file_def)
qed

interpretation es: extent_store fs_inv files "\<lambda>im. bm_free (im_bm im)"
  ec_create ec_get ec_getattr ec_put ec_remove
  unfolding ec_es
  by unfold_locales (fact es_get_ok es_getattr_ok es_put_ok es_put_absent es_create_ok es_remove_ok
      | simp add: files_None fs_invD(3))+

end
