(* ===== verification/Dir_Format.thy ===== *)
theory Dir_Format
  imports Prelude
begin

text \<open>
  The text format of a directory, \<open>inum/name/inum/name/\<close> and so on, as
  \<open>chfs_client.cc\<close> writes and reads it: \<open>filename\<close> prints an inode number,
  \<open>n2i\<close> reads one through a string stream, and the loop of \<open>readdir\<close> splits the
  text at slashes. Also the operations of \<open>std::string\<close> that the client uses.
\<close>

section \<open>\<open>std::string\<close>\<close>

definition substr :: "string \<Rightarrow> nat \<Rightarrow> nat \<Rightarrow> string res" where
  "substr s pos n = (if pos > length s then Inl Out_of_range else Inr (take n (drop pos s)))"

definition resize :: "string \<Rightarrow> nat \<Rightarrow> string" where
  "resize s n = take n s @ replicate (n - length s) NUL"

definition replace :: "string \<Rightarrow> nat \<Rightarrow> nat \<Rightarrow> string \<Rightarrow> string res" where
  "replace s pos n t =
     (if pos > length s then Inl Out_of_range else Inr (take pos s @ t @ drop (pos + n) s))"

definition find_slash :: "string \<Rightarrow> nat \<Rightarrow> nat option" where
  "find_slash s pos = (if CHR ''/'' \<in> set (drop pos s)
     then Some (pos + length (takeWhile (\<lambda>c. c \<noteq> CHR ''/'') (drop pos s))) else None)"

section \<open>Numbers\<close>

definition digit :: "nat \<Rightarrow> char" where
  "digit d = char_of (48 + d)"

definition is_digit :: "char \<Rightarrow> bool" where
  "is_digit c \<longleftrightarrow> 48 \<le> (of_char c :: nat) \<and> (of_char c :: nat) \<le> 57"

definition digit_val :: "char \<Rightarrow> nat" where
  "digit_val c = of_char c - 48"

fun decimal :: "nat \<Rightarrow> string" where
  "decimal n = (if n < 10 then [digit n] else decimal (n div 10) @ [digit (n mod 10)])"

declare decimal.simps [simp del]

definition filename :: "u64 \<Rightarrow> string" where
  "filename inum = decimal (unat inum)"

definition is_space :: "char \<Rightarrow> bool" where
  "is_space c \<longleftrightarrow> c = CHR '' '' \<or> (9 \<le> (of_char c :: nat) \<and> (of_char c :: nat) \<le> 13)"

definition number :: "string \<Rightarrow> nat" where
  "number = foldl (\<lambda>a c. 10 * a + digit_val c) 0"

text \<open>
  \<open>istringstream >> unsigned long long\<close>: white space is skipped; if nothing is left the
  variable keeps its value, which the code has not initialised (\<open>junk\<close>); a sign is accepted, and
  \<open>-\<close> negates modulo \<open>2 ^ 64\<close>; no digit gives 0; a number that does not fit
  gives the largest one; what follows the digits is not read.
\<close>

definition n2i :: "u64 \<Rightarrow> string \<Rightarrow> u64" where
  "n2i junk n =
     (case dropWhile is_space n of
        [] \<Rightarrow> junk
      | c # cs \<Rightarrow>
          let neg = (c = CHR ''-'');
              ds = takeWhile is_digit (if neg \<or> c = CHR ''+'' then cs else c # cs)
          in if ds = [] then 0
             else if number ds \<ge> 2 ^ 64 then - 1
             else if neg then - of_nat (number ds) else of_nat (number ds))"

section \<open>Entries\<close>

record dirent =
  d_name :: string
  d_inum :: u64

datatype dir_status = Parse_ok | Parse_error

text \<open>The loop of \<open>readdir\<close>; \<open>junk\<close> gives the uninitialised value that
  \<open>n2i\<close> would return at each position.\<close>

function readdir_loop ::
  "(nat \<Rightarrow> u64) \<Rightarrow> string \<Rightarrow> nat \<Rightarrow> dirent list \<Rightarrow> dir_status \<times> dirent list" where
  "readdir_loop junk buf pos lst =
     (if pos < length buf
      then case find_slash buf pos of
          None \<Rightarrow> (Parse_error, lst)
        | Some slash_pos \<Rightarrow>
            let inum_str = take (slash_pos - pos) (drop pos buf);
                pos1 = slash_pos + 1
            in if pos1 \<ge> length buf then (Parse_error, lst)
               else case find_slash buf pos1 of
                   None \<Rightarrow> (Parse_error, lst)
                 | Some slash_pos2 \<Rightarrow>
                     let name_str = take (slash_pos2 - pos1) (drop pos1 buf)
                     in readdir_loop junk buf (slash_pos2 + 1)
                          (lst @ [\<lparr>d_name = name_str, d_inum = n2i (junk pos) inum_str\<rparr>])
      else (Parse_ok, lst))"
  by pat_completeness auto
termination
  by (relation "measure (\<lambda>(junk, buf, pos, lst). length buf - pos)")
    (auto simp: find_slash_def split: if_splits)

declare readdir_loop.simps [simp del]

definition entry :: "u64 \<Rightarrow> string \<Rightarrow> string" where
  "entry inum name = filename inum @ ''/'' @ name @ ''/''"

definition print_dir :: "dirent list \<Rightarrow> string" where
  "print_dir ds = concat (map (\<lambda>d. entry (d_inum d) (d_name d)) ds)"

section \<open>Round trips\<close>

lemma digit_props: "d < 10 \<Longrightarrow> is_digit (digit d) \<and> digit_val (digit d) = d"
  by (simp add: digit_def is_digit_def digit_val_def)

lemma decimal_digits: "c \<in> set (decimal n) \<Longrightarrow> is_digit c"
proof (induction n rule: decimal.induct)
  case (1 n)
  then show ?case
    using digit_props [of n] digit_props [of "n mod 10"] by (subst (asm) (2) decimal.simps) (auto split: if_splits)
qed

lemma decimal_nonempty [simp]: "decimal n \<noteq> []"
  by (subst decimal.simps) simp

lemma length_decimal: "n < 10 ^ k \<Longrightarrow> 0 < k \<Longrightarrow> length (decimal n) \<le> k"
proof (induction n arbitrary: k rule: decimal.induct)
  case (1 n)
  show ?case
  proof (cases "n < 10")
    case True
    then show ?thesis
      using "1.prems" by (subst decimal.simps) simp
  next
    case False
    obtain k' where k': "k = Suc k'"
      using "1.prems"(2) by (cases k) simp_all
    then have k: "k = Suc k'" "0 < k'"
      using False "1.prems"(1) by (cases k'; simp)+
    then have "n div 10 < 10 ^ k'"
      using "1.prems" by (simp add: less_mult_imp_div_less mult.commute)
    then show ?thesis
      using "1.IH" [OF False] k False by (subst decimal.simps) simp
  qed
qed

lemma length_filename: "inum \<le> 1024 \<Longrightarrow> length (filename inum) \<le> 4"
  unfolding filename_def by (rule length_decimal) (simp_all add: word_le_nat_alt)

lemma number_append: "number (xs @ [c]) = 10 * number xs + digit_val c"
  by (simp add: number_def)

lemma number_decimal: "number (decimal n) = n"
proof (induction n rule: decimal.induct)
  case (1 n)
  show ?case
  proof (cases "n < 10")
    case True
    then show ?thesis
      using digit_props [of n] by (subst decimal.simps) (simp add: number_def)
  next
    case False
    then show ?thesis
      using 1 digit_props [of "n mod 10"] by (subst decimal.simps) (simp add: number_append)
  qed
qed

lemma digit_not_space: "is_digit c \<Longrightarrow> \<not> is_space c \<and> c \<noteq> CHR ''/'' \<and> c \<noteq> CHR ''-'' \<and> c \<noteq> CHR ''+''"
  by (auto simp: is_digit_def is_space_def)

lemma n2i_filename [simp]: "n2i junk (filename i) = i"
proof -
  obtain c cs where c: "decimal (unat i) = c # cs"
    by (cases "decimal (unat i)") auto
  have digits: "\<forall>x\<in>set (c # cs). is_digit x"
    using decimal_digits [of _ "unat i"] c by auto
  then have first: "\<not> is_space c" "c \<noteq> CHR ''-''" "c \<noteq> CHR ''+''"
    and all: "takeWhile is_digit (c # cs) = c # cs"
    using digit_not_space [of c] by (simp_all add: takeWhile_eq_all_conv)
  have val: "number (c # cs) = unat i"
    using number_decimal [of "unat i"] by (simp add: c)
  have "unat i < 2 ^ 64"
    using unsigned_less [of i, where ?'a = nat] by simp
  then show ?thesis
    by (simp add: n2i_def filename_def c Let_def first all val del: takeWhile.simps)
qed

lemma filename_no_slash: "CHR ''/'' \<notin> set (filename i)"
  using decimal_digits digit_not_space by (force simp: filename_def)

lemma find_slash_append:
  "CHR ''/'' \<notin> set xs \<Longrightarrow> length pre = pos \<Longrightarrow>
   find_slash (pre @ xs @ CHR ''/'' # rest) pos = Some (pos + length xs)"
  by (simp add: find_slash_def takeWhile_append takeWhile_eq_all_conv)

text \<open>One step of the loop over a printed entry.\<close>

lemma readdir_loop_entry:
  assumes "CHR ''/'' \<notin> set name"
  shows "readdir_loop junk (pre @ entry i name @ rest) (length pre) lst
    = readdir_loop junk ((pre @ entry i name) @ rest) (length (pre @ entry i name))
        (lst @ [\<lparr>d_name = name, d_inum = i\<rparr>])"
proof -
  let ?buf = "pre @ entry i name @ rest"
  have 1: "find_slash ?buf (length pre) = Some (length pre + length (filename i))"
    using find_slash_append [OF filename_no_slash refl, of pre i "name @ ''/'' @ rest"] by (simp add: entry_def)
  have 2: "find_slash ?buf (length pre + length (filename i) + 1)
      = Some (length pre + length (filename i) + 1 + length name)"
    using find_slash_append [OF assms, of "pre @ filename i @ ''/''" _ rest] by (simp add: entry_def)
  have 3: "drop (length pre) ?buf = filename i @ ''/'' @ name @ ''/'' @ rest"
    "drop (length pre + length (filename i) + 1) ?buf = name @ ''/'' @ rest"
    by (simp_all add: entry_def)
  have "length pre + length (filename i) + 1 < length ?buf"
    by (simp add: entry_def)
  then show ?thesis
    using 1 2 3 by (subst readdir_loop.simps) (simp add: Let_def entry_def add_ac)
qed

lemma readdir_loop_print:
  "\<forall>d\<in>set ds. CHR ''/'' \<notin> set (d_name d) \<Longrightarrow>
   readdir_loop junk (pre @ print_dir ds) (length pre) lst = (Parse_ok, lst @ ds)"
proof (induction ds arbitrary: pre lst)
  case Nil
  then show ?case
    by (subst readdir_loop.simps) (simp add: print_dir_def)
next
  case (Cons d ds)
  have "readdir_loop junk (pre @ print_dir (d # ds)) (length pre) lst
      = readdir_loop junk ((pre @ entry (d_inum d) (d_name d)) @ print_dir ds)
          (length (pre @ entry (d_inum d) (d_name d))) (lst @ [d])"
    using readdir_loop_entry [of "d_name d" junk pre "d_inum d" "print_dir ds" lst] Cons.prems
    by (cases d) (simp add: print_dir_def)
  also have "\<dots> = (Parse_ok, (lst @ [d]) @ ds)"
    using Cons.prems by (intro Cons.IH) simp
  finally show ?case by simp
qed

lemma print_dir_append: "print_dir (ds @ ds') = print_dir ds @ print_dir ds'"
  by (simp add: print_dir_def)

text \<open>Names that the loop reads contain no slash.\<close>

lemma find_slash_name:
  assumes "find_slash buf p = Some q"
  shows "CHR ''/'' \<notin> set (take (q - p) (drop p buf))"
proof -
  have "q - p = length (takeWhile (\<lambda>c. c \<noteq> CHR ''/'') (drop p buf))"
    using assms by (auto simp: find_slash_def split: if_splits)
  then have "take (q - p) (drop p buf) = takeWhile (\<lambda>c. c \<noteq> CHR ''/'') (drop p buf)"
    using takeWhile_eq_take [of "\<lambda>c. c \<noteq> CHR ''/''" "drop p buf"] by simp
  then show ?thesis
    by (auto dest: set_takeWhileD)
qed

lemma readdir_loop_cases:
  obtains (stop) st where "readdir_loop junk buf pos lst = (st, lst)"
  | (step) p1 p2 where "pos < length buf" "find_slash buf pos = Some p1" "\<not> p1 + 1 \<ge> length buf"
    "find_slash buf (p1 + 1) = Some p2"
    "readdir_loop junk buf pos lst = readdir_loop junk buf (p2 + 1) (lst @
       [\<lparr>d_name = take (p2 - (p1 + 1)) (drop (p1 + 1) buf), d_inum = n2i (junk pos) (take (p1 - pos) (drop pos buf))\<rparr>])"
proof -
  note unf = readdir_loop.simps [of junk buf pos lst]
  show ?thesis
  proof (cases "find_slash buf pos")
    case None
    then show ?thesis
      using stop unf by (cases "pos < length buf") simp_all
  next
    case (Some p1)
    show ?thesis
    proof (cases "\<not> pos < length buf \<or> p1 + 1 \<ge> length buf \<or> find_slash buf (p1 + 1) = None")
      case True
      then show ?thesis
        using stop unf Some by (auto simp: Let_def split: if_splits)
    next
      case False
      then obtain p2 where "find_slash buf (p1 + 1) = Some p2"
        by auto
      then show ?thesis
        using step unf Some False by (simp add: Let_def)
    qed
  qed
qed

lemma readdir_loop_names:
  "\<forall>d\<in>set lst. CHR ''/'' \<notin> set (d_name d) \<Longrightarrow>
   \<forall>d\<in>set (snd (readdir_loop junk buf pos lst)). CHR ''/'' \<notin> set (d_name d)"
proof (induction "length buf - pos" arbitrary: pos lst rule: less_induct)
  case less
  show ?case
  proof (cases rule: readdir_loop_cases [of junk buf pos lst])
    case (step p1 p2)
    have "p1 + 1 \<le> p2" "pos \<le> p1"
      using step(2,4) by (auto simp: find_slash_def split: if_splits)
    then show ?thesis
      unfolding step(5) using step(1) less.prems find_slash_name [OF step(4)]
      by (intro less.hyps) auto
  qed (use less.prems in simp)
qed

section \<open>Any text\<close>

text \<open>The texts the loop reads to the end: every second slash ends an entry, and nothing follows the last
  one.\<close>

definition dir_text :: "string \<Rightarrow> bool" where
  "dir_text c \<longleftrightarrow> even (count_list c CHR ''/'') \<and> (c = [] \<or> last c = CHR ''/'')"

lemma find_slash_split:
  assumes "find_slash buf pos = Some q"
  obtains xs where "CHR ''/'' \<notin> set xs" "drop pos buf = xs @ CHR ''/'' # drop (q + 1) buf" "q = pos + length xs"
proof -
  have q: "q = pos + length (takeWhile (\<lambda>c. c \<noteq> CHR ''/'') (drop pos buf))" "CHR ''/'' \<in> set (drop pos buf)"
    using assms by (simp_all add: find_slash_def split: if_splits)
  obtain xs ys where xs: "drop pos buf = xs @ CHR ''/'' # ys" "CHR ''/'' \<notin> set xs"
    using split_list_first [OF q(2)] by blast
  have "takeWhile (\<lambda>c. c \<noteq> CHR ''/'') (drop pos buf) = xs"
    using xs by (simp add: takeWhile_append takeWhile_eq_all_conv)
  then have "q = pos + length xs"
    using q(1) by simp
  moreover from this have "drop (q + 1) buf = drop (length xs + 1) (drop pos buf)"
    by (simp add: add.commute)
  then have "drop (q + 1) buf = ys"
    by (simp add: xs(1))
  ultimately show ?thesis
    using that [of xs] xs by simp
qed

lemma find_slash_None: "find_slash buf pos = None \<longleftrightarrow> CHR ''/'' \<notin> set (drop pos buf)"
  by (simp add: find_slash_def)

text \<open>One entry of the text: its two slashes, and what is left after them.\<close>

lemma entry_split:
  assumes "find_slash buf pos = Some p1" "find_slash buf (p1 + 1) = Some p2"
  shows "dir_text (drop pos buf) \<longleftrightarrow> dir_text (drop (p2 + 1) buf)"
    and "count_list (drop pos buf) CHR ''/'' = 2 + count_list (drop (p2 + 1) buf) CHR ''/''" and "pos < p2 + 1"
proof -
  obtain xs where xs: "CHR ''/'' \<notin> set xs" "drop pos buf = xs @ CHR ''/'' # drop (p1 + 1) buf" "p1 = pos + length xs"
    using find_slash_split [OF assms(1)] .
  obtain ys where ys: "CHR ''/'' \<notin> set ys" "drop (p1 + 1) buf = ys @ CHR ''/'' # drop (p2 + 1) buf"
    "p2 = p1 + 1 + length ys"
    using find_slash_split [OF assms(2)] .
  have both: "drop pos buf = xs @ CHR ''/'' # ys @ CHR ''/'' # drop (p2 + 1) buf"
    unfolding xs(2) ys(2) ..
  show count: "count_list (drop pos buf) CHR ''/'' = 2 + count_list (drop (p2 + 1) buf) CHR ''/''"
    using xs(1) ys(1) unfolding both by simp
  then show "dir_text (drop pos buf) \<longleftrightarrow> dir_text (drop (p2 + 1) buf)"
    unfolding dir_text_def by (simp add: both)
  show "pos < p2 + 1"
    using xs(3) ys(3) by simp
qed

lemma readdir_loop_text:
  "\<exists>ds. readdir_loop junk buf pos lst = (if dir_text (drop pos buf) then Parse_ok else Parse_error, lst @ ds) \<and>
     length ds = count_list (drop pos buf) CHR ''/'' div 2"
proof (induction "length buf - pos" arbitrary: pos lst rule: less_induct)
  case less
  note unf = readdir_loop.simps [of junk buf pos lst]
  consider "\<not> pos < length buf" | "pos < length buf" "find_slash buf pos = None"
    | p1 where "pos < length buf" "find_slash buf pos = Some p1" "find_slash buf (p1 + 1) = None \<or> length buf \<le> p1 + 1"
    | p1 p2 where "pos < length buf" "find_slash buf pos = Some p1" "\<not> length buf \<le> p1 + 1" "find_slash buf (p1 + 1) = Some p2"
    by fastforce
  then show ?case
  proof cases
    case 1
    then show ?thesis
      using unf by (simp add: dir_text_def)
  next
    case 2
    then have "last (drop pos buf) \<noteq> CHR ''/''" "count_list (drop pos buf) CHR ''/'' = 0" "drop pos buf \<noteq> []"
      using last_in_set [of "drop pos buf"] by (auto simp: find_slash_None)
    then show ?thesis
      using unf 2 by (simp add: dir_text_def)
  next
    case (3 p1)
    obtain xs where xs: "CHR ''/'' \<notin> set xs" "drop pos buf = xs @ CHR ''/'' # drop (p1 + 1) buf"
      using find_slash_split [OF 3(2)] .
    have "CHR ''/'' \<notin> set (drop (p1 + 1) buf)"
      using 3(3) by (auto simp: find_slash_None)
    then have "count_list (drop pos buf) CHR ''/'' = 1"
      using xs by (simp add: xs(2))
    then show ?thesis
      using unf 3 by (auto simp: dir_text_def Let_def)
  next
    case (4 p1 p2)
    note e = entry_split [OF 4(2,4)]
    let ?rest = "drop (p2 + 1) buf"
    have "length buf - (p2 + 1) < length buf - pos"
      using 4(1) e(3) by simp
    note less.hyps [OF this, of "lst @ [\<lparr>d_name = take (p2 - (p1 + 1)) (drop (p1 + 1) buf),
      d_inum = n2i (junk pos) (take (p1 - pos) (drop pos buf))\<rparr>]"]
    then obtain ds where "readdir_loop junk buf pos lst = (if dir_text ?rest then Parse_ok else Parse_error,
        (lst @ [\<lparr>d_name = take (p2 - (p1 + 1)) (drop (p1 + 1) buf),
          d_inum = n2i (junk pos) (take (p1 - pos) (drop pos buf))\<rparr>]) @ ds)"
      "length ds = count_list ?rest CHR ''/'' div 2"
      using unf 4 by (auto simp: Let_def)
    then show ?thesis
      using e(1,2) by auto
  qed
qed

end
