(* ===== verification/Chfs_Client.thy ===== *)
theory Chfs_Client
  imports Extent Dir_Format
begin

text \<open>
  Class \<open>chfs_client\<close> of \<open>chfs_client.cc\<close>, function by function, over the extent
  client. Output parameters are results; one that a call may leave alone is also an argument. A name is
  the list of characters of the C string. \<open>off_t\<close> and \<open>size_t\<close> are 64-bit words,
  the first read through \<open>sint\<close>; allocation of memory never fails.
\<close>

record fileinfo =
  fi_size :: u64
  fi_atime :: u64
  fi_mtime :: u64
  fi_ctime :: u64

record dirinfo =
  di_atime :: u64
  di_mtime :: u64
  di_ctime :: u64

section \<open>Attributes\<close>

definition isfile :: "u64 \<Rightarrow> bool io" where
  "isfile inum = io_bind (ec_getattr inum) (\<lambda>(st, a).
     if st \<noteq> OK then io_return False else io_return (a_type a = T_FILE))"

definition isdir :: "u64 \<Rightarrow> bool io" where
  "isdir inum = io_bind (ec_getattr inum) (\<lambda>(st, a).
     if st \<noteq> OK then io_return False else io_return (a_type a = T_DIR))"

definition issymlink :: "u64 \<Rightarrow> bool io" where
  "issymlink inum = io_bind (ec_getattr inum) (\<lambda>(st, a).
     if st \<noteq> OK then io_return False else io_return (a_type a = T_SYMBOLIC))"

definition getfile :: "u64 \<Rightarrow> fileinfo \<Rightarrow> (xxstatus \<times> fileinfo) io" where
  "getfile inum fin = io_bind (ec_getattr inum) (\<lambda>(st, a).
     if st \<noteq> OK then io_return (IOERR, fin)
     else io_return (OK, \<lparr>fi_size = ucast (a_size a), fi_atime = ucast (a_atime a),
                          fi_mtime = ucast (a_mtime a), fi_ctime = ucast (a_ctime a)\<rparr>))"

definition getdir :: "u64 \<Rightarrow> dirinfo \<Rightarrow> (xxstatus \<times> dirinfo) io" where
  "getdir inum din = io_bind (ec_getattr inum) (\<lambda>(st, a).
     if st \<noteq> OK then io_return (IOERR, din)
     else io_return (OK, \<lparr>di_atime = ucast (a_atime a), di_mtime = ucast (a_mtime a),
                          di_ctime = ucast (a_ctime a)\<rparr>))"

definition setattr :: "u64 \<Rightarrow> u64 \<Rightarrow> xxstatus io" where
  "setattr ino sz = io_bind (ec_get ino) (\<lambda>(st, buf).
     if st \<noteq> OK then io_return IOERR
     else let prev_size = length buf
          in if prev_size = unat sz then io_return OK
             else (\<lambda>im. res_bind (if prev_size < unat sz then substr buf 0 (unat sz)
                                  else Inr (resize buf (unat sz))) (\<lambda>buf'.
                  io_bind (ec_put ino buf') (\<lambda>st. io_return (if st \<noteq> OK then IOERR else OK)) im)))"

section \<open>Directories\<close>

definition check_dir_inode :: "u64 \<Rightarrow> (xxstatus \<times> attr) io" where
  "check_dir_inode parent = io_bind (ec_getattr parent) (\<lambda>(st, a).
     if st \<noteq> OK then io_return (IOERR, a)
     else if a_type a \<noteq> T_DIR then io_return (IOERR, a)
     else io_return (OK, a))"

text \<open>The values of the local variable that \<open>n2i\<close> may leave uninitialised.\<close>

definition uninit :: "(nat \<Rightarrow> u64) io" where
  "uninit im = Inr (env_stack (im_env im) (env_tick (im_env im)), tick im)"

definition readdir :: "u64 \<Rightarrow> dirent list \<Rightarrow> (xxstatus \<times> dirent list) io" where
  "readdir dir lst = io_bind (check_dir_inode dir) (\<lambda>(st, a).
     if st \<noteq> OK then io_return (IOERR, lst)
     else io_bind (ec_get dir) (\<lambda>(st, buf).
          if st \<noteq> OK then io_return (IOERR, lst)
          else io_bind uninit (\<lambda>junk.
               case readdir_loop junk buf 0 lst of
                 (Parse_error, lst') \<Rightarrow> io_return (IOERR, lst')
               | (Parse_ok, lst') \<Rightarrow> io_return (OK, lst'))))"

definition lookup :: "u64 \<Rightarrow> string \<Rightarrow> bool \<Rightarrow> u64 \<Rightarrow> (xxstatus \<times> bool \<times> u64) io" where
  "lookup parent name found ino_out = io_bind (check_dir_inode parent) (\<lambda>(st, a).
     if st \<noteq> OK then io_return (IOERR, found, ino_out)
     else io_bind (readdir parent []) (\<lambda>(st, dirent_list).
          if st \<noteq> OK then io_return (IOERR, found, ino_out)
          else case find (\<lambda>elem. d_name elem = name) dirent_list of
                 None \<Rightarrow> io_return (OK, found, ino_out)
               | Some elem \<Rightarrow> io_return (OK, True, d_inum elem)))"

definition create :: "u64 \<Rightarrow> string \<Rightarrow> u64 \<Rightarrow> (xxstatus \<times> u64) io" where
  "create parent name ino_out = io_bind (check_dir_inode parent) (\<lambda>(st, a).
     if st \<noteq> OK then io_return (IOERR, ino_out)
     else io_bind (lookup parent name False ino_out) (\<lambda>(st, found, ino_out).
          if st \<noteq> OK then io_return (IOERR, ino_out)
          else if found then io_return (EXIST, ino_out)
          else io_bind (ec_create T_FILE) (\<lambda>(st, ino_out).
               if st \<noteq> OK then io_return (IOERR, ino_out)
               else io_bind (ec_get parent) (\<lambda>(st, buf).
                    if st \<noteq> OK then io_return (IOERR, ino_out)
                    else io_bind (ec_put parent (buf @ filename ino_out @ ''/'' @ name @ ''/'')) (\<lambda>st.
                         io_return (if st \<noteq> OK then IOERR else OK, ino_out))))))"

definition mkdir :: "u64 \<Rightarrow> string \<Rightarrow> u64 \<Rightarrow> (xxstatus \<times> u64) io" where
  "mkdir parent name ino_out = io_bind (check_dir_inode parent) (\<lambda>(st, a).
     if st \<noteq> OK then io_return (IOERR, ino_out)
     else if name = ''.'' \<or> name = ''..'' then io_return (IOERR, ino_out)
     else io_bind (lookup parent name False ino_out) (\<lambda>(st, found, ino_out).
          if st \<noteq> OK then io_return (IOERR, ino_out)
          else if found then io_return (EXIST, ino_out)
          else io_bind (ec_create T_DIR) (\<lambda>(st, ino_out).
               if st \<noteq> OK then io_return (IOERR, ino_out)
               else io_bind (ec_get parent) (\<lambda>(st, buf).
                    if st \<noteq> OK then io_return (IOERR, ino_out)
                    else io_bind (ec_put parent (buf @ filename ino_out @ ''/'' @ name @ ''/'')) (\<lambda>st.
                         io_return (if st \<noteq> OK then IOERR else OK, ino_out))))))"

section \<open>Data\<close>

definition chfs_read :: "u64 \<Rightarrow> u64 \<Rightarrow> u64 \<Rightarrow> string \<Rightarrow> (xxstatus \<times> string) io" where
  "chfs_read ino sz off data = io_bind (ec_getattr ino) (\<lambda>(st, a).
     if st \<noteq> OK then io_return (IOERR, data)
     else io_bind (ec_get ino) (\<lambda>(st, buf).
          if st \<noteq> OK then io_return (IOERR, data)
          else let len = (of_nat (length buf) :: u64)
               in if sint len \<le> sint off then io_return (OK, [])
                  else if off + sz \<ge> len
                  then (\<lambda>im. res_bind (substr buf (unat off) (unat (len - off))) (\<lambda>d. Inr ((OK, d), im)))
                  else (\<lambda>im. res_bind (substr buf (unat off) (unat sz)) (\<lambda>d. Inr ((OK, d), im)))))"

text \<open>\<open>data\<close> is the memory at the pointer the caller passes.\<close>

definition chfs_write :: "u64 \<Rightarrow> u64 \<Rightarrow> u64 \<Rightarrow> byte list \<Rightarrow> u64 \<Rightarrow> (xxstatus \<times> u64) io" where
  "chfs_write ino sz off data bytes_written = io_bind (ec_getattr ino) (\<lambda>(st, a).
     if st \<noteq> OK then io_return (IOERR, bytes_written)
     else (\<lambda>im. res_bind (load data 0 (unat sz)) (\<lambda>next_buf.
          io_bind (ec_get ino) (\<lambda>(st, prev_buf).
          if st \<noteq> OK then io_return (IOERR, bytes_written)
          else (\<lambda>im.
               let prev_buf1 = (if sint off > sint (of_nat (length prev_buf) :: u64)
                                then resize prev_buf (unat off) else prev_buf)
               in res_bind (replace prev_buf1 (unat off) (unat sz) next_buf) (\<lambda>prev_buf2.
                  io_bind (ec_put ino prev_buf2) (\<lambda>st.
                    io_return (if st \<noteq> OK then IOERR else OK, sz)) im))) im)))"

section \<open>Links\<close>

definition unlink :: "u64 \<Rightarrow> string \<Rightarrow> xxstatus io" where
  "unlink parent name = io_bind (check_dir_inode parent) (\<lambda>(st, a).
     if st \<noteq> OK then io_return IOERR
     else io_bind (lookup parent name False 0) (\<lambda>(st, found, file_ino).
          if st \<noteq> OK then io_return IOERR
          else if \<not> found then io_return NOENT
          else io_bind (isfile file_ino) (\<lambda>is_file.
               if \<not> is_file then io_return IOERR
               else io_bind (ec_remove file_ino) (\<lambda>st.
                    if st \<noteq> OK then io_return IOERR
                    else io_bind (readdir parent []) (\<lambda>(st, lst).
                         if st \<noteq> OK then io_return IOERR
                         else io_bind (ec_put parent (concat (map
                                (\<lambda>cur. filename (d_inum cur) @ ''/'' @ d_name cur @ ''/'')
                                (filter (\<lambda>cur. name \<noteq> d_name cur) lst)))) (\<lambda>st.
                              io_return (if st \<noteq> OK then IOERR else OK)))))))"

definition create_symbolic_link ::
  "u64 \<Rightarrow> string \<Rightarrow> string \<Rightarrow> u64 \<Rightarrow> (xxstatus \<times> u64) io" where
  "create_symbolic_link parent true_file_path link_name ino = io_bind (check_dir_inode parent) (\<lambda>(st, a).
     if st \<noteq> OK then io_return (IOERR, ino)
     else io_bind (lookup parent link_name False ino) (\<lambda>(st, found, ino).
          if st \<noteq> OK then io_return (IOERR, ino)
          else if found then io_return (EXIST, ino)
          else io_bind (ec_create T_SYMBOLIC) (\<lambda>(st, ino).
               if st \<noteq> OK then io_return (IOERR, ino)
               else io_bind (ec_get parent) (\<lambda>(st, buf).
                    if st \<noteq> OK then io_return (IOERR, ino)
                    else io_bind (ec_put ino true_file_path) (\<lambda>_.
                         io_bind (ec_put parent (buf @ filename ino @ ''/'' @ link_name @ ''/'')) (\<lambda>st.
                         io_return (if st \<noteq> OK then IOERR else OK, ino)))))))"

definition parse_symbolic_link :: "string \<Rightarrow> u64 \<Rightarrow> (xxstatus \<times> string) io" where
  "parse_symbolic_link buf ino = io_bind (issymlink ino) (\<lambda>is_link.
     if \<not> is_link then io_return (IOERR, buf)
     else io_bind (ec_get ino) (\<lambda>(st, data).
          if st \<noteq> OK then io_return (IOERR, buf) else io_return (OK, data)))"

section \<open>Construction\<close>

text \<open>\<open>extent_client\<close>, \<open>extent_server\<close> and \<open>inode_manager\<close> are
  constructed one inside the other; the constructor with two arguments then empties the root
  directory, the one without arguments does not.\<close>

definition extent_server_init :: "u32 \<Rightarrow> env \<Rightarrow> inode_manager res" where
  "extent_server_init junk e = inode_manager_init junk e"

definition extent_client_init :: "u32 \<Rightarrow> env \<Rightarrow> inode_manager res" where
  "extent_client_init junk e = extent_server_init junk e"

definition chfs_client_init :: "u32 \<Rightarrow> env \<Rightarrow> inode_manager res" where
  "chfs_client_init junk e =
     res_bind (extent_client_init junk e) (\<lambda>im. res_bind (ec_put 1 [] im) (\<lambda>(st, im'). Inr im'))"

definition chfs_client_new :: "u32 \<Rightarrow> env \<Rightarrow> inode_manager res" where
  "chfs_client_new junk e = extent_client_init junk e"

end
