(* ===== verification/Client_Dir.thy ===== *)
theory Client_Dir
  imports Chfs_Client
begin

text \<open>
  Correctness of the directory operations of the client. A directory is a file of type
  \<open>T_DIR\<close> whose content is printed from a list of entries; every operation is described by
  what it does to the map of files and to that list.
\<close>

definition names_ok :: "dirent list \<Rightarrow> bool" where
  "names_ok ds \<longleftrightarrow> (\<forall>d\<in>set ds. CHR ''/'' \<notin> set (d_name d))"

definition is_dir :: "inode_manager \<Rightarrow> u64 \<Rightarrow> dirent list \<Rightarrow> bool" where
  "is_dir im p ds \<longleftrightarrow> files im (eid_inum p) = Some (1, print_dir ds) \<and> names_ok ds"

text \<open>The state may change only in what no file shows: access times and the environment.\<close>

definition same :: "inode_manager \<Rightarrow> inode_manager \<Rightarrow> bool" where
  "same im im' \<longleftrightarrow> fs_inv im' \<and> files im' = files im \<and> bm_free (im_bm im') = bm_free (im_bm im)"

lemma same_refl [simp]: "fs_inv im \<Longrightarrow> same im im"
  by (simp add: same_def)

lemma same_trans: "same im im1 \<Longrightarrow> same im1 im2 \<Longrightarrow> same im im2"
  by (simp add: same_def)

lemma sameD:
  assumes "same im im'"
  shows "fs_inv im'" "files im' = files im" "bm_free (im_bm im') = bm_free (im_bm im)"
    "is_dir im' p ds = is_dir im p ds"
  using assms by (simp_all add: same_def is_dir_def)

lemma type_codes [simp]:
  "(scast (1 :: u16) :: u32) = 1" "(scast (2 :: u16) :: u32) = 2" "(scast (3 :: u16) :: u32) = 3"
  by simp_all

lemma ucast_scast: "(ucast (scast (t :: u16) :: u32) :: u16) = t"
  by transfer (simp add: take_bit_signed_take_bit)

lemma scast_inj: "(scast (t :: u16) :: u32) = scast t' \<longleftrightarrow> t = t'"
  by (metis ucast_scast)

section \<open>Queries\<close>

lemma ec_getattr_type:
  assumes "fs_inv im"
  obtains a where "ec_getattr eid im = Inr ((OK, a), im)"
    "a_type a = (case files im (eid_inum eid) of None \<Rightarrow> 0 | Some (t, c) \<Rightarrow> scast t)"
    "a_size a = (case files im (eid_inum eid) of None \<Rightarrow> 0 | Some (t, c) \<Rightarrow> of_nat (length c))"
  using es.getattr_ok [OF assms, of eid] by (auto split: option.splits prod.splits)

lemma ec_get_file:
  assumes "fs_inv im" "files im (eid_inum eid) = Some (t, c)"
  obtains im' where "ec_get eid im = Inr ((OK, c), im')" "same im im'"
  using es.get_file [OF assms] by (auto simp: same_def)

lemma check_dir_inode_ok:
  assumes "fs_inv im"
  shows "\<exists>a. check_dir_inode p im =
    Inr ((if \<exists>c. files im (eid_inum p) = Some (1, c) then OK else IOERR, a), im)"
proof -
  obtain a where a: "ec_getattr p im = Inr ((OK, a), im)"
    "a_type a = (case files im (eid_inum p) of None \<Rightarrow> 0 | Some (t, c) \<Rightarrow> scast t)"
    using ec_getattr_type [OF assms] by metis
  have "a_type a = T_DIR \<longleftrightarrow> (\<exists>c. files im (eid_inum p) = Some (1, c))"
    using scast_inj [of _ 1] by (auto simp: a(2) split: option.splits)
  then show ?thesis
    by (simp add: check_dir_inode_def io_bind_def a(1))
qed

lemma check_dir_ok:
  assumes "fs_inv im" "is_dir im p ds"
  obtains a where "check_dir_inode p im = Inr ((OK, a), im)"
  using check_dir_inode_ok [OF assms(1), of p] assms(2) by (auto simp: is_dir_def)

text \<open>\<open>readdir\<close> on any text, as it may stand in a directory somebody wrote to.\<close>

lemma readdir_text:
  assumes "fs_inv im" "files im (eid_inum p) = Some (1, c)" "\<forall>d\<in>set lst. CHR ''/'' \<notin> set (d_name d)"
  shows "\<exists>ds im'. readdir p lst im = Inr ((if dir_text c then OK else IOERR, lst @ ds), im') \<and> same im im' \<and>
    length ds = count_list c CHR ''/'' div 2 \<and> (\<forall>d\<in>set ds. CHR ''/'' \<notin> set (d_name d))"
proof -
  obtain a where a: "check_dir_inode p im = Inr ((OK, a), im)"
    using check_dir_inode_ok [OF assms(1), of p] assms(2) by auto
  obtain im1 where g: "ec_get p im = Inr ((OK, c), im1)" "same im im1"
    using ec_get_file [OF assms(1,2)] .
  define junk where "junk = env_stack (im_env im1) (env_tick (im_env im1))"
  obtain ds where ds: "readdir_loop junk c 0 lst = (if dir_text c then Parse_ok else Parse_error, lst @ ds)"
    "length ds = count_list c CHR ''/'' div 2"
    using readdir_loop_text [of junk c 0 lst] by auto
  have "\<forall>d\<in>set (lst @ ds). CHR ''/'' \<notin> set (d_name d)"
    using readdir_loop_names [OF assms(3), of junk c 0] ds(1) by simp
  moreover have "readdir p lst im = Inr ((if dir_text c then OK else IOERR, lst @ ds), tick im1)"
    using ds(1) by (simp add: readdir_def io_bind_def a g(1) uninit_def junk_def)
  moreover have "same im (tick im1)"
    using g(2) by (simp add: same_def)
  ultimately show ?thesis
    using ds(2) by auto
qed

lemma not_text_ops:
  assumes inv: "fs_inv im" and f: "files im (eid_inum p) = Some (1, c)" "\<not> dir_text c"
  obtains im' where "same im im'" "lookup p n found i0 im = Inr ((IOERR, found, i0), im')"
proof -
  obtain a where a: "check_dir_inode p im = Inr ((OK, a), im)"
    using check_dir_inode_ok [OF inv, of p] f(1) by auto
  obtain ds im' where "readdir p [] im = Inr ((IOERR, ds), im')" "same im im'"
    using readdir_text [OF inv f(1), of "[]"] f(2) by auto
  then show ?thesis
    using that a by (simp add: lookup_def io_bind_def)
qed

lemma readdir_ok:
  assumes "fs_inv im" "is_dir im p ds"
  obtains im' where "readdir p lst im = Inr ((OK, lst @ ds), im')" "same im im'"
proof -
  obtain a where a: "check_dir_inode p im = Inr ((OK, a), im)"
    using check_dir_ok [OF assms] .
  obtain im1 where g: "ec_get p im = Inr ((OK, print_dir ds), im1)" "same im im1"
    using ec_get_file [OF assms(1), of p 1 "print_dir ds"] assms(2) by (auto simp: is_dir_def)
  have "readdir_loop junk (print_dir ds) 0 lst = (Parse_ok, lst @ ds)" for junk
    using readdir_loop_print [of ds junk "[]" lst] assms(2) by (simp add: is_dir_def names_ok_def)
  then have "readdir p lst im = Inr ((OK, lst @ ds), tick im1)"
    by (simp add: readdir_def io_bind_def a g(1) uninit_def)
  moreover have "same im (tick im1)"
    using g(2) by (simp add: same_def)
  ultimately show ?thesis
    using that by blast
qed

text \<open>\<open>lookup\<close> gives the first entry of the name.\<close>

definition dir_find :: "dirent list \<Rightarrow> string \<Rightarrow> u64 option" where
  "dir_find ds name = map_option d_inum (find (\<lambda>d. d_name d = name) ds)"

lemma lookup_ok:
  assumes "fs_inv im" "is_dir im p ds"
  obtains im' where "lookup p name found ino im = Inr ((case dir_find ds name of
       None \<Rightarrow> (OK, found, ino) | Some i \<Rightarrow> (OK, True, i)), im')" "same im im'"
proof -
  obtain a where a: "check_dir_inode p im = Inr ((OK, a), im)"
    using check_dir_ok [OF assms] .
  obtain im' where r: "readdir p [] im = Inr ((OK, ds), im')" "same im im'"
    using readdir_ok [OF assms, of "[]"] by auto
  then show ?thesis
    using that by (cases "find (\<lambda>d. d_name d = name) ds") (simp_all add: lookup_def io_bind_def a dir_find_def)
qed

lemma not_dir:
  assumes "fs_inv im" "\<nexists>c. files im (eid_inum p) = Some (1, c)"
  obtains a where "check_dir_inode p im = Inr ((IOERR, a), im)"
  using check_dir_inode_ok [OF assms(1), of p] assms(2) by auto

lemma isfile_ok:
  assumes "fs_inv im"
  shows "isfile eid im = Inr (\<exists>c. files im (eid_inum eid) = Some (2, c), im)"
    "isdir eid im = Inr (\<exists>c. files im (eid_inum eid) = Some (1, c), im)"
    "issymlink eid im = Inr (\<exists>c. files im (eid_inum eid) = Some (3, c), im)"
proof -
  obtain a where a: "ec_getattr eid im = Inr ((OK, a), im)"
    "a_type a = (case files im (eid_inum eid) of None \<Rightarrow> 0 | Some (t, c) \<Rightarrow> scast t)"
    using ec_getattr_type [OF assms] by metis
  have "a_type a = scast t \<longleftrightarrow> (\<exists>c. files im (eid_inum eid) = Some (t, c))" if "t \<noteq> 0" for t
    using scast_inj [of _ t] scast_inj [of 0 t] that by (auto simp: a(2) split: option.splits)
  from this [of 1] this [of 2] this [of 3] show
    "isfile eid im = Inr (\<exists>c. files im (eid_inum eid) = Some (2, c), im)"
    "isdir eid im = Inr (\<exists>c. files im (eid_inum eid) = Some (1, c), im)"
    "issymlink eid im = Inr (\<exists>c. files im (eid_inum eid) = Some (3, c), im)"
    by (simp_all add: isfile_def isdir_def issymlink_def io_bind_def a(1))
qed

section \<open>New entries\<close>

text \<open>The room a new entry of a directory needs: the name, two slashes and up to four
  digits.\<close>

definition entry_fits :: "inode_manager \<Rightarrow> dirent list \<Rightarrow> string \<Rightarrow> bool" where
  "entry_fits im ds name \<longleftrightarrow> length (print_dir ds) + length name + 6 \<le> BLOCK_SIZE * MAXFILE \<and>
     cost (length (print_dir ds) + length name + 6) \<le> bm_free (im_bm im) + cost (length (print_dir ds))"

text \<open>The files after an entry for \<open>ino\<close> has been added; number 0 stands for an inode that
  could not be allocated.\<close>

definition with_entry ::
  "inode_manager \<Rightarrow> u64 \<Rightarrow> dirent list \<Rightarrow> string \<Rightarrow> u64 \<Rightarrow> u16 \<times> byte list \<Rightarrow> (u32 \<rightharpoonup> u16 \<times> byte list)" where
  "with_entry im p ds name ino f = (if ino = 0 then files im else (files im)(eid_inum ino \<mapsto> f))
     (eid_inum p \<mapsto> (1, print_dir (ds @ [\<lparr>d_name = name, d_inum = ino\<rparr>])))"

text \<open>The number of a new inode: fresh, or 0 when all numbers below 1024 are taken.\<close>

definition fresh_ino :: "inode_manager \<Rightarrow> u64 \<Rightarrow> bool" where
  "fresh_ino im ino \<longleftrightarrow> ino \<le> 1024 \<and>
     (if ino = 0 then \<forall>j. j \<noteq> 0 \<and> j < 1024 \<longrightarrow> files im j \<noteq> None
      else files im (eid_inum ino) = None)"

lemma fresh_ino_cong: "files im = files im' \<Longrightarrow> fresh_ino im = fresh_ino im'"
  by (simp add: fresh_ino_def fun_eq_iff)

lemma with_entry_cong: "files im = files im' \<Longrightarrow> with_entry im = with_entry im'"
  by (simp add: with_entry_def fun_eq_iff)

lemma print_dir_entry:
  "print_dir (ds @ [\<lparr>d_name = name, d_inum = ino\<rparr>]) = print_dir ds @ filename ino @ ''/'' @ name @ ''/''"
  by (simp add: print_dir_def entry_def)

lemma ec_create_ok:
  assumes "fs_inv im" "type \<in> {T_DIR, T_FILE, T_SYMBOLIC}"
  obtains ino im' where "ec_create type im = Inr ((OK, ino), im')" "fs_inv im'" "fresh_ino im ino"
    "bm_free (im_bm im') = bm_free (im_bm im)"
    "files im' = (if ino = 0 then files im else (files im)(eid_inum ino \<mapsto> (ucast type, [])))"
proof -
  obtain ino im' where c: "ec_create type im = Inr ((OK, ino), im')" "fs_inv im'"
    "bm_free (im_bm im') = bm_free (im_bm im)"
    "if ino = 0 then files im' = files im \<and> (\<forall>j. j \<noteq> 0 \<and> j < 1024 \<longrightarrow> files im j \<noteq> None)
     else ino \<le> 1024 \<and> files im (eid_inum ino) = None \<and> files im' = (files im)(eid_inum ino \<mapsto> (ucast type, []))"
    using es.create_ok [OF assms] by blast
  have "fresh_ino im ino"
    "files im' = (if ino = 0 then files im else (files im)(eid_inum ino \<mapsto> (ucast type, [])))"
    using c(4) by (cases "ino = 0"; simp add: fresh_ino_def)+
  then show ?thesis
    using that c(1-3) by blast
qed

text \<open>Adding the entry: the directory is read again and written back with the entry appended.\<close>

lemma append_entry_ok:
  assumes inv: "fs_inv im" and dir: "files im (eid_inum p) = Some (1, print_dir ds)"
    and fits: "entry_fits im ds name" and ino: "ino \<le> 1024"
  obtains im' where "ec_put p (print_dir ds @ filename ino @ ''/'' @ name @ ''/'') im = Inr (OK, im')" "fs_inv im'"
    "files im' = (files im)(eid_inum p \<mapsto> (1, print_dir (ds @ [\<lparr>d_name = name, d_inum = ino\<rparr>])))"
proof -
  let ?buf = "print_dir ds @ filename ino @ ''/'' @ name @ ''/''"
  have len: "length ?buf \<le> length (print_dir ds) + length name + 6"
    using length_filename [OF ino] by simp
  then have "cost (length ?buf) - cost (length (print_dir ds)) \<le> bm_free (im_bm im)"
    using cost_mono [OF len] fits unfolding entry_fits_def by linarith
  moreover have "length ?buf \<le> BLOCK_SIZE * MAXFILE"
    using len fits by (simp add: entry_fits_def)
  ultimately show ?thesis
    using es.put_ok [OF inv dir, of ?buf] that by (auto simp: print_dir_entry)
qed

lemma new_entry_ok:
  assumes inv: "fs_inv im" and dir: "is_dir im p ds" and type: "type \<in> {T_DIR, T_FILE, T_SYMBOLIC}"
    and fits: "entry_fits im ds name"
  obtains ino im1 im2 im3 where "ec_create type im = Inr ((OK, ino), im1)" "fresh_ino im ino"
    "ec_get p im1 = Inr ((OK, print_dir ds), im2)"
    "ec_put p (print_dir ds @ filename ino @ ''/'' @ name @ ''/'') im2 = Inr (OK, im3)"
    "fs_inv im3" "files im3 = with_entry im p ds name ino (ucast type, [])"
proof -
  obtain ino im1 where c: "ec_create type im = Inr ((OK, ino), im1)" "fs_inv im1" "fresh_ino im ino"
    "bm_free (im_bm im1) = bm_free (im_bm im)"
    "files im1 = (if ino = 0 then files im else (files im)(eid_inum ino \<mapsto> (ucast type, [])))"
    using ec_create_ok [OF inv type] .
  have "files im1 (eid_inum p) = Some (1, print_dir ds)"
    using dir c(3) by (auto simp: c(5) is_dir_def fresh_ino_def)
  then obtain im2 where g: "ec_get p im1 = Inr ((OK, print_dir ds), im2)" "same im1 im2"
    by (rule ec_get_file [OF c(2)])
  have "files im2 (eid_inum p) = Some (1, print_dir ds)" "entry_fits im2 ds name"
    using \<open>files im1 _ = _\<close> sameD(2,3) [OF g(2)] fits c(4) by (simp_all add: entry_fits_def)
  moreover have "ino \<le> 1024"
    using c(3) by (simp add: fresh_ino_def)
  ultimately obtain im3 where "ec_put p (print_dir ds @ filename ino @ ''/'' @ name @ ''/'') im2 = Inr (OK, im3)"
    "fs_inv im3" "files im3 = (files im2)(eid_inum p \<mapsto> (1, print_dir (ds @ [\<lparr>d_name = name, d_inum = ino\<rparr>])))"
    using append_entry_ok [OF sameD(1) [OF g(2)]] by blast
  then show ?thesis
    using that c(1,3) g(1) sameD(2) [OF g(2)] c(5) by (simp add: with_entry_def)
qed

lemma create_eq:
  assumes inv: "fs_inv im" and dir: "is_dir im p ds" and fits: "entry_fits im ds name"
  shows "case dir_find ds name of
      Some i \<Rightarrow> \<exists>im'. create p name ino0 im = Inr ((EXIST, i), im') \<and> same im im'
    | None \<Rightarrow> \<exists>ino im'. create p name ino0 im = Inr ((OK, ino), im') \<and> fs_inv im' \<and> fresh_ino im ino \<and>
        files im' = with_entry im p ds name ino (2, [])"
proof -
  obtain a where a: "check_dir_inode p im = Inr ((OK, a), im)"
    using check_dir_ok [OF inv dir] .
  obtain im1 where l: "lookup p name False ino0 im = Inr ((case dir_find ds name of
       None \<Rightarrow> (OK, False, ino0) | Some i \<Rightarrow> (OK, True, i)), im1)" "same im im1"
    using lookup_ok [OF inv dir] .
  show ?thesis
  proof (cases "dir_find ds name")
    case (Some i)
    then show ?thesis
      using l by (auto simp: create_def io_bind_def a)
  next
    case None
    have "is_dir im1 p ds" "entry_fits im1 ds name" "T_FILE \<in> {T_DIR, T_FILE, T_SYMBOLIC}"
      using sameD [OF l(2)] dir fits by (simp_all add: entry_fits_def)
    note step = new_entry_ok [OF sameD(1) [OF l(2)] this(1,3,2)]
    obtain ino im2 im3 im4 where n: "ec_create T_FILE im1 = Inr ((OK, ino), im2)" "fresh_ino im1 ino"
      "ec_get p im2 = Inr ((OK, print_dir ds), im3)"
      "ec_put p (print_dir ds @ filename ino @ ''/'' @ name @ ''/'') im3 = Inr (OK, im4)"
      "fs_inv im4" "files im4 = with_entry im1 p ds name ino (ucast T_FILE, [])"
      by (rule step)
    have "create p name ino0 im = Inr ((OK, ino), im4)"
      using l(1) n(1,3,4) None by (simp add: create_def io_bind_def a)
    then show ?thesis
      using n(2,5,6) None fresh_ino_cong [OF sameD(2) [OF l(2)]] with_entry_cong [OF sameD(2) [OF l(2)]]
      by auto
  qed
qed

lemma mkdir_eq:
  assumes inv: "fs_inv im" and dir: "is_dir im p ds" and fits: "entry_fits im ds name"
    and name: "name \<noteq> ''.''" "name \<noteq> ''..''"
  shows "case dir_find ds name of
      Some i \<Rightarrow> \<exists>im'. mkdir p name ino0 im = Inr ((EXIST, i), im') \<and> same im im'
    | None \<Rightarrow> \<exists>ino im'. mkdir p name ino0 im = Inr ((OK, ino), im') \<and> fs_inv im' \<and> fresh_ino im ino \<and>
        files im' = with_entry im p ds name ino (1, [])"
proof -
  obtain a where a: "check_dir_inode p im = Inr ((OK, a), im)"
    using check_dir_ok [OF inv dir] .
  obtain im1 where l: "lookup p name False ino0 im = Inr ((case dir_find ds name of
       None \<Rightarrow> (OK, False, ino0) | Some i \<Rightarrow> (OK, True, i)), im1)" "same im im1"
    using lookup_ok [OF inv dir] .
  show ?thesis
  proof (cases "dir_find ds name")
    case (Some i)
    then show ?thesis
      using l name by (auto simp: mkdir_def io_bind_def a)
  next
    case None
    have "is_dir im1 p ds" "entry_fits im1 ds name" "T_DIR \<in> {T_DIR, T_FILE, T_SYMBOLIC}"
      using sameD [OF l(2)] dir fits by (simp_all add: entry_fits_def)
    note step = new_entry_ok [OF sameD(1) [OF l(2)] this(1,3,2)]
    obtain ino im2 im3 im4 where n: "ec_create T_DIR im1 = Inr ((OK, ino), im2)" "fresh_ino im1 ino"
      "ec_get p im2 = Inr ((OK, print_dir ds), im3)"
      "ec_put p (print_dir ds @ filename ino @ ''/'' @ name @ ''/'') im3 = Inr (OK, im4)"
      "fs_inv im4" "files im4 = with_entry im1 p ds name ino (ucast T_DIR, [])"
      by (rule step)
    have "mkdir p name ino0 im = Inr ((OK, ino), im4)"
      using l(1) n(1,3,4) None name by (simp add: mkdir_def io_bind_def a)
    then show ?thesis
      using n(2,5,6) None fresh_ino_cong [OF sameD(2) [OF l(2)]] with_entry_cong [OF sameD(2) [OF l(2)]]
      by auto
  qed
qed

section \<open>Symbolic links\<close>

text \<open>The room for a link: its entry and its target.\<close>

definition link_fits :: "inode_manager \<Rightarrow> dirent list \<Rightarrow> string \<Rightarrow> string \<Rightarrow> bool" where
  "link_fits im ds name target \<longleftrightarrow> length (print_dir ds) + length name + 6 \<le> BLOCK_SIZE * MAXFILE \<and>
     length target \<le> BLOCK_SIZE * MAXFILE \<and>
     cost (length (print_dir ds) + length name + 6) + cost (max 1 (length target))
       \<le> bm_free (im_bm im) + cost (length (print_dir ds))"

text \<open>Storing the target; without an inode nothing is stored.\<close>

lemma put_target_ok:
  assumes inv: "fs_inv im" and f: "files im (eid_inum ino) = (if ino = 0 then None else Some (t, []))"
    and len: "length target \<le> BLOCK_SIZE * MAXFILE" "cost (max 1 (length target)) \<le> bm_free (im_bm im)"
  obtains im' where "ec_put ino target im = Inr (OK, im')" "fs_inv im'"
    "files im' = (if ino = 0 then files im else (files im)(eid_inum ino \<mapsto> (t, target)))"
    "bm_free (im_bm im) \<le> bm_free (im_bm im') + cost (max 1 (length target))"
proof (cases "ino = 0")
  case True
  then show ?thesis
    using es.put_absent [OF inv, of ino target] f that by auto
next
  case False
  have "cost (length target) \<le> cost (max 1 (length target))"
    by (intro cost_mono) simp
  then have "cost (length target) - cost (length ([] :: byte list)) \<le> bm_free (im_bm im)"
    using len(2) by linarith
  then obtain im' where "ec_put ino target im = Inr (OK, im')" "fs_inv im'"
    "files im' = (files im)(eid_inum ino \<mapsto> (t, target))"
    "bm_free (im_bm im) + cost (length ([] :: byte list)) \<le> bm_free (im_bm im') + cost (max 1 (length target))"
    using es.put_ok [OF inv, of ino t "[]" target] f False len(1) by auto
  then show ?thesis
    using that [of im'] False by simp
qed

text \<open>The calls that make a link: its inode, the parent read, the target stored, the entry
  added.\<close>

lemma new_link_ok:
  assumes inv: "fs_inv im" and dir: "is_dir im p ds" and fits: "link_fits im ds name target"
  obtains ino im1 im2 im3 im4 where "ec_create T_SYMBOLIC im = Inr ((OK, ino), im1)" "fresh_ino im ino"
    "ec_get p im1 = Inr ((OK, print_dir ds), im2)" "ec_put ino target im2 = Inr (OK, im3)"
    "ec_put p (print_dir ds @ filename ino @ ''/'' @ name @ ''/'') im3 = Inr (OK, im4)"
    "fs_inv im4" "files im4 = with_entry im p ds name ino (3, target)"
proof -
  obtain ino im1 where c: "ec_create T_SYMBOLIC im = Inr ((OK, ino), im1)" "fs_inv im1" "fresh_ino im ino"
    "bm_free (im_bm im1) = bm_free (im_bm im)"
    "files im1 = (if ino = 0 then files im else (files im)(eid_inum ino \<mapsto> (ucast T_SYMBOLIC, [])))"
    using ec_create_ok [OF inv, of T_SYMBOLIC] by blast
  have ne: "eid_inum ino \<noteq> eid_inum p" if "ino \<noteq> 0"
    using dir c(3) that by (auto simp: is_dir_def fresh_ino_def)
  then have p1: "files im1 (eid_inum p) = Some (1, print_dir ds)"
    using dir by (cases "ino = 0") (auto simp: c(5) is_dir_def)
  obtain im2 where g: "ec_get p im1 = Inr ((OK, print_dir ds), im2)" "same im1 im2"
    using p1 by (rule ec_get_file [OF c(2)])
  have free2: "bm_free (im_bm im2) = bm_free (im_bm im)"
    using sameD(3) [OF g(2)] c(4) by simp
  have "files im2 (eid_inum ino) = (if ino = 0 then None else Some (ucast T_SYMBOLIC, []))"
    using sameD(2) [OF g(2)] c(5) es.zero_unused [OF inv] by (simp add: eid_inum_def)
  moreover have "cost (max 1 (length target)) \<le> bm_free (im_bm im2)"
    using fits cost_mono [of "length (print_dir ds)" "length (print_dir ds) + length name + 6"] free2
    by (simp add: link_fits_def)
  ultimately obtain im3 where t: "ec_put ino target im2 = Inr (OK, im3)" "fs_inv im3"
    "files im3 = (if ino = 0 then files im2 else (files im2)(eid_inum ino \<mapsto> (ucast T_SYMBOLIC, target)))"
    "bm_free (im_bm im2) \<le> bm_free (im_bm im3) + cost (max 1 (length target))"
    using put_target_ok [OF sameD(1) [OF g(2)], of ino "ucast T_SYMBOLIC" target] fits
    by (auto simp: link_fits_def)
  have "files im3 (eid_inum p) = Some (1, print_dir ds)"
    using p1 ne sameD(2) [OF g(2)] by (cases "ino = 0") (auto simp: t(3))
  moreover have "entry_fits im3 ds name"
    using fits t(4) free2 unfolding link_fits_def entry_fits_def by linarith
  moreover have "ino \<le> 1024"
    using c(3) by (simp add: fresh_ino_def)
  ultimately obtain im4 where e: "ec_put p (print_dir ds @ filename ino @ ''/'' @ name @ ''/'') im3 = Inr (OK, im4)"
    "fs_inv im4" "files im4 = (files im3)(eid_inum p \<mapsto> (1, print_dir (ds @ [\<lparr>d_name = name, d_inum = ino\<rparr>])))"
    by (rule append_entry_ok [OF t(2)])
  have "files im4 = with_entry im p ds name ino (3, target)"
    using e(3) t(3) c(5) sameD(2) [OF g(2)] by (simp add: with_entry_def)
  then show ?thesis
    using that [OF c(1,3) g(1) t(1) e(1,2)] by blast
qed

lemma create_symbolic_link_eq:
  assumes inv: "fs_inv im" and dir: "is_dir im p ds" and fits: "link_fits im ds name target"
  shows "case dir_find ds name of
      Some i \<Rightarrow> \<exists>im'. create_symbolic_link p target name ino0 im = Inr ((EXIST, i), im') \<and> same im im'
    | None \<Rightarrow> \<exists>ino im'. create_symbolic_link p target name ino0 im = Inr ((OK, ino), im') \<and> fs_inv im' \<and>
        fresh_ino im ino \<and> files im' = with_entry im p ds name ino (3, target)"
proof -
  obtain a where a: "check_dir_inode p im = Inr ((OK, a), im)"
    using check_dir_ok [OF inv dir] .
  obtain im1 where l: "lookup p name False ino0 im = Inr ((case dir_find ds name of
       None \<Rightarrow> (OK, False, ino0) | Some i \<Rightarrow> (OK, True, i)), im1)" "same im im1"
    using lookup_ok [OF inv dir] .
  show ?thesis
  proof (cases "dir_find ds name")
    case (Some i)
    then show ?thesis
      using l by (auto simp: create_symbolic_link_def io_bind_def a)
  next
    case None
    have "is_dir im1 p ds" "link_fits im1 ds name target"
      using dir fits sameD(3,4) [OF l(2)] by (simp_all add: link_fits_def)
    note step = new_link_ok [OF sameD(1) [OF l(2)] this]
    obtain ino im2 im3 im4 im5 where n: "ec_create T_SYMBOLIC im1 = Inr ((OK, ino), im2)" "fresh_ino im1 ino"
      "ec_get p im2 = Inr ((OK, print_dir ds), im3)" "ec_put ino target im3 = Inr (OK, im4)"
      "ec_put p (print_dir ds @ filename ino @ ''/'' @ name @ ''/'') im4 = Inr (OK, im5)"
      "fs_inv im5" "files im5 = with_entry im1 p ds name ino (3, target)"
      by (rule step)
    have "create_symbolic_link p target name ino0 im = Inr ((OK, ino), im5)"
      using l(1) n(1,3-5) None by (simp add: create_symbolic_link_def io_bind_def a)
    then show ?thesis
      using None n(2,6,7) fresh_ino_cong [OF sameD(2) [OF l(2)]] with_entry_cong [OF sameD(2) [OF l(2)]]
      by auto
  qed
qed

lemma parse_symbolic_link_eq:
  assumes "fs_inv im"
  shows "case files im (eid_inum ino) of
      Some (t, c) \<Rightarrow> if t = 3 then \<exists>im'. parse_symbolic_link buf ino im = Inr ((OK, c), im') \<and> same im im'
        else parse_symbolic_link buf ino im = Inr ((IOERR, buf), im)
    | None \<Rightarrow> parse_symbolic_link buf ino im = Inr ((IOERR, buf), im)"
proof (cases "\<exists>c. files im (eid_inum ino) = Some (3, c)")
  case True
  then obtain c where c: "files im (eid_inum ino) = Some (3, c)"
    by blast
  obtain im' where "ec_get ino im = Inr ((OK, c), im')" "same im im'"
    using c by (rule ec_get_file [OF assms])
  then show ?thesis
    using c by (simp add: parse_symbolic_link_def io_bind_def isfile_ok [OF assms])
next
  case False
  then show ?thesis
    by (auto simp: parse_symbolic_link_def io_bind_def isfile_ok [OF assms] split: option.split)
qed

section \<open>Removing an entry\<close>

lemma length_print_filter: "length (print_dir (filter P ds)) \<le> length (print_dir ds)"
  by (induction ds) (simp_all add: print_dir_def)

text \<open>The calls that remove a file and its entry.\<close>

lemma remove_entry_ok:
  fixes name :: string and ds
  defines "rest \<equiv> filter (\<lambda>d. d_name d \<noteq> name) ds"
  assumes inv: "fs_inv im" and dir: "is_dir im p ds" and f: "files im (eid_inum i) = Some (2, c)"
  obtains im1 im2 im3 where "ec_remove i im = Inr (OK, im1)" "readdir p [] im1 = Inr ((OK, ds), im2)"
    "ec_put p (print_dir rest) im2 = Inr (OK, im3)" "fs_inv im3" "bm_free (im_bm im) \<le> bm_free (im_bm im3) + 1"
    "files im3 = (files im)(eid_inum i := None, eid_inum p \<mapsto> (1, print_dir rest))"
proof -
  obtain im1 where r: "ec_remove i im = Inr (OK, im1)" "fs_inv im1"
    "files im1 = (files im)(eid_inum i := None)" "bm_free (im_bm im) \<le> bm_free (im_bm im1)"
    using es.remove_ok [OF inv, of i] by auto
  have dir1: "is_dir im1 p ds"
    using dir f r(3) by (auto simp: is_dir_def)
  obtain im2 where d: "readdir p [] im1 = Inr ((OK, ds), im2)" "same im1 im2"
    using readdir_ok [OF r(2) dir1, of "[]"] by auto
  have len: "length (print_dir rest) \<le> length (print_dir ds)"
    unfolding rest_def by (rule length_print_filter)
  have p2: "files im2 (eid_inum p) = Some (1, print_dir ds)"
    using dir1 sameD(2) [OF d(2)] by (simp add: is_dir_def)
  have "length (print_dir rest) \<le> BLOCK_SIZE * MAXFILE"
    using len files_size [OF sameD(1) [OF d(2)] p2] by linarith
  then obtain im3 where w: "ec_put p (print_dir rest) im2 = Inr (OK, im3)" "fs_inv im3"
    "files im3 = (files im2)(eid_inum p \<mapsto> (1, print_dir rest))"
    "bm_free (im_bm im2) + cost (length (print_dir ds)) \<le> bm_free (im_bm im3) + cost (max 1 (length (print_dir rest)))"
    using es.put_ok [OF sameD(1) [OF d(2)] p2, of "print_dir rest"] cost_mono [OF len] by auto
  have "cost (max 1 (length (print_dir rest))) \<le> cost (length (print_dir ds)) + 1"
    using cost_mono [OF len] by (cases "print_dir rest") (simp_all add: cost_def total_def nblk_def max_def)
  then have "bm_free (im_bm im) \<le> bm_free (im_bm im3) + 1"
    using w(4) r(4) sameD(3) [OF d(2)] by linarith
  then show ?thesis
    using that [OF r(1) d(1) w(1,2)] w(3) r(3) sameD(2) [OF d(2)] by simp
qed

lemma unlink_eq:
  assumes inv: "fs_inv im" and dir: "is_dir im p ds"
  shows "case dir_find ds name of
      None \<Rightarrow> \<exists>im'. unlink p name im = Inr (NOENT, im') \<and> same im im'
    | Some i \<Rightarrow> if \<exists>c. files im (eid_inum i) = Some (2, c)
        then \<exists>im'. unlink p name im = Inr (OK, im') \<and> fs_inv im' \<and>
          bm_free (im_bm im) \<le> bm_free (im_bm im') + 1 \<and>
          files im' = (files im)(eid_inum i := None,
            eid_inum p \<mapsto> (1, print_dir (filter (\<lambda>d. d_name d \<noteq> name) ds)))
        else \<exists>im'. unlink p name im = Inr (IOERR, im') \<and> same im im'"
proof -
  obtain a where a: "check_dir_inode p im = Inr ((OK, a), im)"
    using check_dir_ok [OF inv dir] .
  obtain im1 where l: "lookup p name False 0 im = Inr ((case dir_find ds name of
       None \<Rightarrow> (OK, False, 0) | Some i \<Rightarrow> (OK, True, i)), im1)" "same im im1"
    using lookup_ok [OF inv dir] .
  note inv1 = sameD(1) [OF l(2)] and f1 = sameD(2) [OF l(2)]
  show ?thesis
  proof (cases "dir_find ds name")
    case None
    then show ?thesis
      using l by (auto simp: unlink_def io_bind_def a)
  next
    case (Some i)
    show ?thesis
    proof (cases "\<exists>c. files im (eid_inum i) = Some (2, c)")
      case False
      then have "unlink p name im = Inr (IOERR, im1)"
        using l(1) Some by (auto simp: unlink_def io_bind_def a isfile_ok [OF inv1] f1)
      then show ?thesis
        using Some False l(2) by auto
    next
      case True
      then obtain c where "files im1 (eid_inum i) = Some (2, c)" "is_dir im1 p ds"
        using f1 dir sameD(4) [OF l(2)] by auto
      then obtain im2 im3 im4 where r: "ec_remove i im1 = Inr (OK, im2)" "readdir p [] im2 = Inr ((OK, ds), im3)"
        "ec_put p (print_dir (filter (\<lambda>d. d_name d \<noteq> name) ds)) im3 = Inr (OK, im4)" "fs_inv im4"
        "bm_free (im_bm im1) \<le> bm_free (im_bm im4) + 1"
        "files im4 = (files im1)(eid_inum i := None, eid_inum p \<mapsto> (1, print_dir (filter (\<lambda>d. d_name d \<noteq> name) ds)))"
        using remove_entry_ok [OF inv1, of p ds i c name] by blast
      moreover from this have "unlink p name im = Inr (OK, im4)"
        using l(1) Some True
        by (simp add: unlink_def io_bind_def a isfile_ok [OF inv1] f1 print_dir_def entry_def)
          (simp add: eq_commute [of name])
      ultimately show ?thesis
        using Some True f1 sameD(3) [OF l(2)] by auto
    qed
  qed
qed

end
