(* ===== verification/Client_Data.thy ===== *)
theory Client_Data
  imports Client_Dir
begin

text \<open>
  Reading, writing and resizing a file through the client: \<open>chfs_read\<close>,
  \<open>chfs_write\<close> and \<open>setattr\<close> as operations on the content of the file.
\<close>

lemma sint_nonneg64:
  assumes "0 \<le> sint (w :: u64)"
  shows "sint w = int (unat w)" "unat w < 2 ^ 63"
proof -
  have less: "sint w < 2 ^ 63"
    using sint_lt [of w] by simp
  have "uint w = take_bit 64 (sint w)"
    using uint_sint [of w] by simp
  also have "\<dots> = sint w"
    using assms less by (intro take_bit_int_eq_self) simp_all
  finally show 1: "sint w = int (unat w)"
    by simp
  show "unat w < 2 ^ 63"
    using less unfolding 1 by (simp only: of_nat_less_numeral_power_cancel_iff)
qed

lemma unat_len64: "n < 2 ^ 63 \<Longrightarrow> unat (of_nat n :: u64) = n"
  by (simp add: unat_of_nat)

lemma sint_len64:
  assumes "n < 2 ^ 63"
  shows "sint (of_nat n :: u64) = int n"
proof -
  have "int n < 2 ^ 63"
    using assms by (simp only: of_nat_less_numeral_power_cancel_iff)
  then have "signed_take_bit 63 (int n) = int n"
    by (intro signed_take_bit_int_eq_self) simp_all
  then show ?thesis
    by (simp add: signed_of_nat)
qed

section \<open>Reading\<close>

lemma substr_take: "pos \<le> length s \<Longrightarrow> substr s pos n = Inr (take n (drop pos s))"
  by (simp add: substr_def)

lemma chfs_read_eq:
  assumes inv: "fs_inv im" and f: "files im (eid_inum ino) = Some (t, c)" and off: "0 \<le> sint off"
  obtains im' where "chfs_read ino sz off dat im = Inr ((OK, take (unat sz) (drop (unat off) c)), im')" "same im im'"
proof -
  obtain a where a: "ec_getattr ino im = Inr ((OK, a), im)"
    using ec_getattr_type [OF inv] by metis
  obtain im' where g: "ec_get ino im = Inr ((OK, c), im')" "same im im'"
    using f by (rule ec_get_file [OF inv])
  have len: "length c < 2 ^ 63"
    using files_size [OF inv f] by simp
  note o63 = sint_nonneg64 [OF off] and l = unat_len64 [OF len] sint_len64 [OF len]
  have cond: "sint (of_nat (length c) :: u64) \<le> sint off \<longleftrightarrow> length c \<le> unat off"
    unfolding l(2) o63(1) by (simp only: of_nat_le_iff)
  have "chfs_read ino sz off dat im = Inr ((OK, take (unat sz) (drop (unat off) c)), im')"
  proof (cases "length c \<le> unat off")
    case True
    then show ?thesis
      by (simp add: chfs_read_def io_bind_def a g(1) cond Let_def)
  next
    case False
    have sub: "unat (of_nat (length c) - off) = length c - unat off"
      using False l(1) by (subst unat_sub) (simp_all add: word_le_nat_alt)
    have "take (length c - unat off) (drop (unat off) c) = take (unat sz) (drop (unat off) c)"
      if "off + sz \<ge> of_nat (length c)"
    proof -
      have "unat (off + sz) \<le> unat off + unat sz"
        by (simp add: unat_word_ariths)
      then have "length c - unat off \<le> unat sz"
        using that l(1) by (simp add: word_le_nat_alt)
      then show ?thesis by simp
    qed
    then show ?thesis
      using False by (simp add: chfs_read_def io_bind_def a g(1) cond Let_def sub substr_take)
  qed
  then show ?thesis
    using that g(2) by blast
qed

lemma chfs_read_negative:
  assumes inv: "fs_inv im" and f: "files im (eid_inum ino) = Some (t, c)" and off: "sint off < 0"
  shows "chfs_read ino sz off dat im = Inl Out_of_range"
proof -
  obtain a where a: "ec_getattr ino im = Inr ((OK, a), im)"
    using ec_getattr_type [OF inv] by metis
  obtain im' where g: "ec_get ino im = Inr ((OK, c), im')" "same im im'"
    using f by (rule ec_get_file [OF inv])
  have len: "length c < 2 ^ 63"
    using files_size [OF inv f] by simp
  have "\<not> unat off < 2 ^ 63"
  proof
    assume "unat off < 2 ^ 63"
    then have "sint off = int (unat off)"
      using sint_len64 [of "unat off"] by simp
    then show False
      using off by simp
  qed
  then have "length c < unat off"
    using len by linarith
  then show ?thesis
    using off sint_len64 [OF len] by (simp add: chfs_read_def io_bind_def a g(1) Let_def substr_def)
qed

section \<open>Writing\<close>

text \<open>The content after \<open>d\<close> is written at \<open>off\<close>: a hole is filled with zero
  bytes.\<close>

definition splice :: "byte list \<Rightarrow> nat \<Rightarrow> byte list \<Rightarrow> byte list" where
  "splice c off d = take off (c @ replicate (off - length c) NUL) @ d @ drop (off + length d) c"

lemma length_splice: "length (splice c off d) = max (length c) (off + length d)"
  by (simp add: splice_def)

lemma splice_read: "take (length d) (drop off (splice c off d)) = d"
  by (simp add: splice_def)

text \<open>\<open>chfs_write\<close> is a \<open>put\<close> of the spliced content.\<close>

lemma chfs_write_put:
  assumes inv: "fs_inv im" and f: "files im (eid_inum ino) = Some (t, c)" and off: "0 \<le> sint off"
    and d: "unat sz \<le> length dat"
  obtains im1 where "same im im1"
    "\<forall>im2. ec_put ino (splice c (unat off) (take (unat sz) dat)) im1 = Inr (OK, im2) \<longrightarrow>
       chfs_write ino sz off dat w0 im = Inr ((OK, sz), im2)"
proof -
  obtain a where a: "ec_getattr ino im = Inr ((OK, a), im)"
    using ec_getattr_type [OF inv] by metis
  obtain im1 where g: "ec_get ino im = Inr ((OK, c), im1)" "same im im1"
    using f by (rule ec_get_file [OF inv])
  have "length c < 2 ^ 63"
    using files_size [OF inv f] by simp
  note o63 = sint_nonneg64 [OF off] and l = sint_len64 [OF this]
  let ?d = "take (unat sz) dat" and ?n = "splice c (unat off) (take (unat sz) dat)"
  let ?c = "if sint off > sint (of_nat (length c) :: u64) then resize c (unat off) else c"
  have cond: "sint off > sint (of_nat (length c) :: u64) \<longleftrightarrow> length c < unat off"
    unfolding l o63(1) by (simp only: of_nat_less_iff)
  have "replace ?c (unat off) (unat sz) ?d = Inr ?n"
    unfolding cond using d by (cases "length c < unat off") (simp_all add: replace_def resize_def splice_def)
  moreover have "load dat 0 (unat sz) = Inr ?d"
    using d by (simp add: load_def)
  ultimately have "chfs_write ino sz off dat w0 im = Inr ((OK, sz), im2)"
    if "ec_put ino ?n im1 = Inr (OK, im2)" for im2
    using that by (simp add: chfs_write_def io_bind_def a g(1) Let_def)
  then show ?thesis
    using that g(2) by blast
qed

lemma chfs_write_eq:
  assumes inv: "fs_inv im" and f: "files im (eid_inum ino) = Some (t, c)" and off: "0 \<le> sint off"
    and d: "unat sz \<le> length dat" and len: "unat off + unat sz \<le> BLOCK_SIZE * MAXFILE"
    and space: "cost (unat off + unat sz) \<le> bm_free (im_bm im) + cost (length c)"
  obtains im' where "chfs_write ino sz off dat w0 im = Inr ((OK, sz), im')" "fs_inv im'"
    "files im' = (files im)(eid_inum ino \<mapsto> (t, splice c (unat off) (take (unat sz) dat)))"
proof -
  let ?n = "splice c (unat off) (take (unat sz) dat)"
  obtain im1 where im1: "same im im1"
    "\<forall>im2. ec_put ino ?n im1 = Inr (OK, im2) \<longrightarrow> chfs_write ino sz off dat w0 im = Inr ((OK, sz), im2)"
    by (rule chfs_write_put [OF inv f off d, where ?w0.0 = w0])
  have lenn: "length ?n = max (length c) (unat off + unat sz)"
    using d by (simp add: length_splice)
  moreover have "length ?n \<le> BLOCK_SIZE * MAXFILE"
    using files_size [OF inv f] len by (simp only: lenn)
  moreover have "cost (length ?n) - cost (length c) \<le> bm_free (im_bm im1)"
    using space sameD(3) [OF im1(1)] by (simp add: lenn max_def le_diff_conv)
  ultimately show ?thesis
    using that im1(2) es.put_ok [OF sameD(1) [OF im1(1)], of ino t c ?n] f sameD(2) [OF im1(1)] by auto
qed

section \<open>Resizing\<close>

text \<open>A file is cut to a smaller size; a larger one leaves it as it is.\<close>

lemma setattr_eq:
  assumes inv: "fs_inv im" and f: "files im (eid_inum ino) = Some (t, c)"
  obtains im' where "setattr ino sz im = Inr (OK, im')" "fs_inv im'"
    "files im' = (files im)(eid_inum ino \<mapsto> (t, take (unat sz) c))"
proof -
  obtain im1 where g: "ec_get ino im = Inr ((OK, c), im1)" "same im im1"
    using f by (rule ec_get_file [OF inv])
  let ?n = "take (unat sz) c"
  have "length ?n \<le> BLOCK_SIZE * MAXFILE"
    using files_size [OF inv f] by simp
  moreover have "cost (length ?n) \<le> cost (length c)"
    by (intro cost_mono) simp
  ultimately obtain im2 where p: "ec_put ino ?n im1 = Inr (OK, im2)" "fs_inv im2"
    "files im2 = (files im1)(eid_inum ino \<mapsto> (t, ?n))"
    using es.put_ok [OF sameD(1) [OF g(2)], of ino t c ?n] f sameD(2) [OF g(2)] by auto
  show ?thesis
  proof (cases "length c = unat sz")
    case True
    then have "setattr ino sz im = Inr (OK, im1)"
      by (simp add: setattr_def io_bind_def g(1) Let_def)
    moreover have "files im1 = (files im)(eid_inum ino \<mapsto> (t, take (unat sz) c))"
      using f True sameD(2) [OF g(2)] by (simp add: fun_upd_idem)
    ultimately show ?thesis
      using that sameD(1) [OF g(2)] by blast
  next
    case False
    have "(if length c < unat sz then substr c 0 (unat sz) else Inr (resize c (unat sz))) = Inr ?n"
      by (auto simp: substr_def resize_def)
    then have "setattr ino sz im = Inr (OK, im2)"
      using False p(1) by (simp add: setattr_def io_bind_def g(1) Let_def)
    then show ?thesis
      using that p(2,3) sameD(2) [OF g(2)] by simp
  qed
qed

section \<open>Numbers without a file\<close>

text \<open>On a number that no file has, the three operations report success, read nothing and change
  nothing.\<close>

lemma absent_ok:
  assumes inv: "fs_inv im" and f: "files im (eid_inum ino) = None" and off: "0 \<le> sint off"
    and d: "unat sz \<le> length dat"
  shows "\<exists>im'. chfs_read ino sz off dat0 im = Inr ((OK, []), im') \<and> same im im'"
    "\<exists>im'. chfs_write ino sz off dat w0 im = Inr ((OK, sz), im') \<and> same im im'"
    "\<exists>im'. setattr ino sz im = Inr (OK, im') \<and> same im im'"
proof -
  obtain a where a: "ec_getattr ino im = Inr ((OK, a), im)"
    using ec_getattr_type [OF inv] by metis
  obtain im1 where g: "ec_get ino im = Inr ((OK, []), im1)" "same im im1"
    using es.get_ok [OF inv, of ino] f by (auto simp: same_def)
  have put: "\<exists>im2. ec_put ino buf im1 = Inr (OK, im2) \<and> same im im2" for buf
    using es.put_absent [OF sameD(1) [OF g(2)], of ino buf] f sameD(2,3) [OF g(2)] by (auto simp: same_def)
  show "\<exists>im'. chfs_read ino sz off dat0 im = Inr ((OK, []), im') \<and> same im im'"
    using g off by (simp add: chfs_read_def io_bind_def a)
  have "unat off = 0" if "\<not> sint off > 0"
    using off that sint_nonneg64(1) [OF off] by linarith
  then have "unat off \<le> length (if sint off > 0 then resize [] (unat off) else [])"
    by (auto simp: resize_def)
  then obtain n where "replace (if sint off > 0 then resize [] (unat off) else []) (unat off) (unat sz) (take (unat sz) dat) = Inr n"
    by (simp add: replace_def)
  then show "\<exists>im'. chfs_write ino sz off dat w0 im = Inr ((OK, sz), im') \<and> same im im'"
    using g put [of n] d by (auto simp: chfs_write_def io_bind_def a load_def)
  show "\<exists>im'. setattr ino sz im = Inr (OK, im') \<and> same im im'"
    using g put [of "[]"] by (cases "unat sz = 0") (auto simp: setattr_def io_bind_def substr_def Let_def)
qed

end
