(* ===== verification/Client_Inv.thy ===== *)
theory Client_Inv
  imports Client_Data
begin

text \<open>
  The invariant of the whole file system as the client keeps it, over any sequence of operations: the
  inode layer is well formed, number 1 is a directory, and every directory is a list of entries with
  different names that the client can read back. The operations are the steps of a transition relation,
  with the conditions under which the kernel calls them: names without a slash, offsets that are not
  negative, data written only to files that are no directories, and enough free space.
\<close>

definition client_inv :: "inode_manager \<Rightarrow> bool" where
  "client_inv im \<longleftrightarrow> fs_inv im \<and> (\<exists>c. files im 1 = Some (1, c)) \<and>
     (\<forall>k c. files im k = Some (1, c) \<longrightarrow>
        (\<exists>ds. c = print_dir ds \<and> names_ok ds \<and> distinct (map d_name ds)))"

lemma client_invD:
  assumes "client_inv im"
  shows "fs_inv im" "\<exists>c. files im 1 = Some (1, c)"
    "files im k = Some (1, c) \<Longrightarrow> \<exists>ds. c = print_dir ds \<and> names_ok ds \<and> distinct (map d_name ds)"
  using assms by (simp_all add: client_inv_def)

lemma client_inv_same: "client_inv im \<Longrightarrow> same im im' \<Longrightarrow> client_inv im'"
  by (simp add: client_inv_def same_def)

text \<open>The text of a directory determines its entries.\<close>

lemma print_dir_inj:
  assumes "names_ok ds" "names_ok ds'" "print_dir ds = print_dir ds'"
  shows "ds = ds'"
proof -
  have parse: "readdir_loop (\<lambda>_. 0) (print_dir x) 0 [] = (Parse_ok, x)" if "names_ok x" for x
    using readdir_loop_print [of x "\<lambda>_. 0" "[]" "[]"] that by (simp add: names_ok_def)
  show ?thesis
    using parse [OF assms(1)] parse [OF assms(2)] unfolding assms(3) by simp
qed

lemma is_dir_unique: "is_dir im p ds \<Longrightarrow> is_dir im p ds' \<Longrightarrow> ds = ds'"
  by (auto simp: is_dir_def intro: print_dir_inj)

lemma client_inv_dir:
  assumes "client_inv im" "files im (eid_inum p) = Some (1, c)"
  obtains ds where "is_dir im p ds" "distinct (map d_name ds)"
  using client_invD(3) [OF assms] assms(2) by (auto simp: is_dir_def)

lemma dir_find_None: "dir_find ds name = None \<longleftrightarrow> name \<notin> d_name ` set ds"
  by (auto simp: dir_find_def find_None_iff)

lemma dir_find_distinct:
  "distinct (map d_name ds) \<Longrightarrow> d \<in> set ds \<Longrightarrow> dir_find ds (d_name d) = Some (d_inum d)"
  by (induction ds) (auto simp: dir_find_def)

section \<open>Preservation\<close>

lemma client_inv_entry:
  assumes inv: "client_inv im" and dir: "is_dir im p ds" "distinct (map d_name ds)"
    and new: "dir_find ds name = None" "CHR ''/'' \<notin> set name" "fresh_ino im ino"
    and type: "t = 1 \<longrightarrow> c = []"
    and im': "fs_inv im'" "files im' = with_entry im p ds name ino (t, c)"
  shows "client_inv im'"
proof -
  let ?ds = "ds @ [\<lparr>d_name = name, d_inum = ino\<rparr>]"
  have ds: "names_ok ?ds" "distinct (map d_name ?ds)"
    using dir new(1,2) by (auto simp: is_dir_def names_ok_def dir_find_None)
  have "\<exists>c. files im' 1 = Some (1, c)"
    using client_invD(2) [OF inv] new(3) by (auto simp: im'(2) with_entry_def fresh_ino_def)
  moreover have "\<exists>ds. c' = print_dir ds \<and> names_ok ds \<and> distinct (map d_name ds)"
    if f: "files im' k = Some (1, c')" for k c'
  proof -
    consider "k = eid_inum p" | "k \<noteq> eid_inum p" "ino \<noteq> 0" "k = eid_inum ino"
      | "k \<noteq> eid_inum p" "ino = 0 \<or> k \<noteq> eid_inum ino"
      by blast
    then show ?thesis
    proof cases
      case 1
      then have "c' = print_dir ?ds"
        using f by (simp add: im'(2) with_entry_def)
      then show ?thesis
        using ds by blast
    next
      case 2
      then have "c' = print_dir []"
        using f type by (simp add: im'(2) with_entry_def print_dir_def)
      then show ?thesis
        by (intro exI [of _ "[]"]) (simp add: names_ok_def)
    next
      case 3
      then have "files im k = Some (1, c')"
        using f by (cases "ino = 0") (auto simp: im'(2) with_entry_def)
      then show ?thesis
        by (rule client_invD(3) [OF inv])
    qed
  qed
  ultimately show ?thesis
    using im'(1) by (auto simp: client_inv_def)
qed

lemma client_inv_file:
  assumes inv: "client_inv im" and f: "files im k = Some (t, c)" "t \<noteq> 1"
    and im': "fs_inv im'" "files im' = (files im)(k \<mapsto> (t, c'))"
  shows "client_inv im'"
  using client_invD(2,3) [OF inv] f im' by (auto simp: client_inv_def)

lemma client_inv_unlink:
  assumes inv: "client_inv im" and dir: "is_dir im p ds" "distinct (map d_name ds)"
    and f: "files im k = Some (2, c)"
    and im': "fs_inv im'"
      "files im' = (files im)(k := None, eid_inum p \<mapsto> (1, print_dir (filter P ds)))"
  shows "client_inv im'"
proof -
  have ds: "names_ok (filter P ds)" "distinct (map d_name (filter P ds))"
    using dir by (auto simp: is_dir_def names_ok_def distinct_map_filter)
  have "\<exists>c. files im' 1 = Some (1, c)"
    using client_invD(2) [OF inv] f by (auto simp: im'(2))
  moreover have "\<exists>ds. c' = print_dir ds \<and> names_ok ds \<and> distinct (map d_name ds)"
    if "files im' k' = Some (1, c')" for k' c'
    using that ds client_invD(3) [OF inv, of k' c'] by (auto simp: im'(2) split: if_splits)
  ultimately show ?thesis
    using im'(1) by (auto simp: client_inv_def)
qed

section \<open>Steps\<close>

text \<open>A name can be added to the directory \<open>p\<close>, and a target stored.\<close>

definition room_for :: "inode_manager \<Rightarrow> u64 \<Rightarrow> string \<Rightarrow> bool" where
  "room_for im p name \<longleftrightarrow> CHR ''/'' \<notin> set name \<and> (\<forall>ds. is_dir im p ds \<longrightarrow> entry_fits im ds name)"

definition room_for_link :: "inode_manager \<Rightarrow> u64 \<Rightarrow> string \<Rightarrow> string \<Rightarrow> bool" where
  "room_for_link im p name target \<longleftrightarrow>
     CHR ''/'' \<notin> set name \<and> (\<forall>ds. is_dir im p ds \<longrightarrow> link_fits im ds name target)"

text \<open>The data can be written: not to a directory, within the largest file and the free
  space.\<close>

definition room_for_data :: "inode_manager \<Rightarrow> u64 \<Rightarrow> u64 \<Rightarrow> u64 \<Rightarrow> byte list \<Rightarrow> bool" where
  "room_for_data im ino sz off dat \<longleftrightarrow> 0 \<le> sint off \<and> unat sz \<le> length dat \<and>
     (\<forall>t c. files im (eid_inum ino) = Some (t, c) \<longrightarrow> t \<noteq> 1 \<and>
        unat off + unat sz \<le> BLOCK_SIZE * MAXFILE \<and>
        cost (unat off + unat sz) \<le> bm_free (im_bm im) + cost (length c))"

inductive client_step :: "inode_manager \<Rightarrow> inode_manager \<Rightarrow> bool" where
  step_create: "room_for im p name \<Longrightarrow> create p name i0 im = Inr (r, im') \<Longrightarrow> client_step im im'"
| step_mkdir: "room_for im p name \<Longrightarrow> mkdir p name i0 im = Inr (r, im') \<Longrightarrow> client_step im im'"
| step_symlink: "room_for_link im p name target \<Longrightarrow>
    create_symbolic_link p target name i0 im = Inr (r, im') \<Longrightarrow> client_step im im'"
| step_unlink: "unlink p name im = Inr (st, im') \<Longrightarrow> client_step im im'"
| step_readdir: "readdir p lst im = Inr (r', im') \<Longrightarrow> client_step im im'"
| step_lookup: "lookup p name found i0 im = Inr (r'', im') \<Longrightarrow> client_step im im'"
| step_readlink: "parse_symbolic_link buf ino im = Inr (r3, im') \<Longrightarrow> client_step im im'"
| step_read: "0 \<le> sint off \<Longrightarrow> chfs_read ino sz off dat im = Inr (r3, im') \<Longrightarrow> client_step im im'"
| step_write: "room_for_data im ino sz off dat \<Longrightarrow> chfs_write ino sz off dat w0 im = Inr (r, im') \<Longrightarrow>
    client_step im im'"
| step_setattr: "\<nexists>c. files im (eid_inum ino) = Some (1, c) \<Longrightarrow> setattr ino sz im = Inr (st, im') \<Longrightarrow>
    client_step im im'"

text \<open>On a parent that is no directory every operation of a directory stops at the first check.\<close>

lemma not_dir_ops:
  assumes inv: "fs_inv im" and nd: "\<nexists>c. files im (eid_inum p) = Some (1, c)"
  shows "create p name i0 im = Inr ((IOERR, i0), im)" "mkdir p name i0 im = Inr ((IOERR, i0), im)"
    "create_symbolic_link p target name i0 im = Inr ((IOERR, i0), im)" "unlink p name im = Inr (IOERR, im)"
    "readdir p lst im = Inr ((IOERR, lst), im)" "lookup p name found i0 im = Inr ((IOERR, found, i0), im)"
proof -
  obtain a where "check_dir_inode p im = Inr ((IOERR, a), im)"
    using not_dir [OF inv nd] .
  then show "create p name i0 im = Inr ((IOERR, i0), im)" "mkdir p name i0 im = Inr ((IOERR, i0), im)"
    "create_symbolic_link p target name i0 im = Inr ((IOERR, i0), im)" "unlink p name im = Inr (IOERR, im)"
    "readdir p lst im = Inr ((IOERR, lst), im)" "lookup p name found i0 im = Inr ((IOERR, found, i0), im)"
    by (simp_all add: create_def mkdir_def create_symbolic_link_def unlink_def readdir_def lookup_def io_bind_def)
qed

text \<open>Each operation from a state with the invariant returns, and gives such a state again.\<close>

definition safe :: "'a io \<Rightarrow> inode_manager \<Rightarrow> bool" where
  "safe m im \<longleftrightarrow> (\<exists>r im'. m im = Inr (r, im') \<and> client_inv im')"

lemma safeI: "m im = Inr (r, im') \<Longrightarrow> client_inv im' \<Longrightarrow> safe m im"
  by (auto simp: safe_def)

lemma safe_step: "safe m im \<Longrightarrow> m im = Inr (r, im') \<Longrightarrow> client_inv im'"
  by (auto simp: safe_def)

lemma dir_or_not:
  assumes "client_inv im"
  obtains (dir) ds where "is_dir im p ds" "distinct (map d_name ds)"
  | (other) "\<nexists>c. files im (eid_inum p) = Some (1, c)"
  using client_inv_dir [OF assms, of p] by blast

lemma safe_create:
  assumes inv: "client_inv im" and room: "room_for im p name"
  shows "safe (create p name i0) im"
  using inv
proof (cases rule: dir_or_not [of _ p])
  case (dir ds)
  then have fits: "entry_fits im ds name" "CHR ''/'' \<notin> set name"
    using room by (simp_all add: room_for_def)
  show ?thesis
    using create_eq [OF client_invD(1) [OF inv] dir(1) fits(1), of i0]
      client_inv_entry [OF inv dir _ fits(2), of _ 2 "[]"] client_inv_same [OF inv]
    by (auto split: option.splits intro: safeI)
qed (use not_dir_ops(1) [OF client_invD(1) [OF inv]] inv in \<open>auto intro: safeI\<close>)

lemma safe_mkdir:
  assumes inv: "client_inv im" and room: "room_for im p name"
  shows "safe (mkdir p name i0) im"
  using inv
proof (cases rule: dir_or_not [of _ p])
  case (dir ds)
  then have fits: "entry_fits im ds name" "CHR ''/'' \<notin> set name"
    using room by (simp_all add: room_for_def)
  show ?thesis
  proof (cases "name = ''.'' \<or> name = ''..''")
    case True
    obtain a where "check_dir_inode p im = Inr ((OK, a), im)"
      using check_dir_ok [OF client_invD(1) [OF inv] dir(1)] .
    then show ?thesis
      using inv True by (auto simp: mkdir_def io_bind_def intro: safeI)
  next
    case False
    then show ?thesis
      using mkdir_eq [OF client_invD(1) [OF inv] dir(1) fits(1), of i0]
        client_inv_entry [OF inv dir _ fits(2), of _ 1 "[]"] client_inv_same [OF inv]
      by (auto split: option.splits intro: safeI)
  qed
qed (use not_dir_ops(2) [OF client_invD(1) [OF inv]] inv in \<open>auto intro: safeI\<close>)

lemma safe_symlink:
  assumes inv: "client_inv im" and room: "room_for_link im p name target"
  shows "safe (create_symbolic_link p target name i0) im"
  using inv
proof (cases rule: dir_or_not [of _ p])
  case (dir ds)
  then have fits: "link_fits im ds name target" "CHR ''/'' \<notin> set name"
    using room by (simp_all add: room_for_link_def)
  show ?thesis
    using create_symbolic_link_eq [OF client_invD(1) [OF inv] dir(1) fits(1), of i0]
      client_inv_entry [OF inv dir _ fits(2), of _ 3 target] client_inv_same [OF inv]
    by (auto split: option.splits intro: safeI)
qed (use not_dir_ops(3) [OF client_invD(1) [OF inv]] inv in \<open>auto intro: safeI\<close>)

lemma safe_unlink:
  assumes inv: "client_inv im"
  shows "safe (unlink p name) im"
  using inv
proof (cases rule: dir_or_not [of _ p])
  case (dir ds)
  show ?thesis
    using unlink_eq [OF client_invD(1) [OF inv] dir(1), of name]
      client_inv_unlink [OF inv dir] client_inv_same [OF inv]
    by (auto split: option.splits if_splits intro: safeI)
qed (use not_dir_ops(4) [OF client_invD(1) [OF inv]] inv in \<open>auto intro: safeI\<close>)

lemma safe_queries:
  assumes inv: "client_inv im"
  shows "safe (readdir p lst) im" "safe (lookup p name found i0) im" "safe (parse_symbolic_link buf ino) im"
proof -
  note fs = client_invD(1) [OF inv] and sm = client_inv_same [OF inv]
  show "safe (readdir p lst) im"
    by (cases rule: dir_or_not [OF inv, of p])
      (use readdir_ok [OF fs] not_dir_ops(5) [OF fs] sm inv in \<open>metis safeI\<close>)+
  show "safe (lookup p name found i0) im"
    by (cases rule: dir_or_not [OF inv, of p])
      (use lookup_ok [OF fs] not_dir_ops(6) [OF fs] sm inv in \<open>metis safeI\<close>)+
  show "safe (parse_symbolic_link buf ino) im"
    using parse_symbolic_link_eq [OF fs, where ino = ino and buf = buf] sm inv
    by (auto split: option.splits prod.splits if_splits intro: safeI)
qed

lemma safe_read:
  assumes inv: "client_inv im" and off: "0 \<le> sint off"
  shows "safe (chfs_read ino sz off dat) im"
proof (cases "files im (eid_inum ino)")
  case None
  then show ?thesis
    using absent_ok(1) [OF client_invD(1) [OF inv] None off, of sz "replicate (unat sz) NUL"] client_inv_same [OF inv]
    by (auto intro: safeI)
next
  case (Some tc)
  then have "files im (eid_inum ino) = Some (fst tc, snd tc)"
    by simp
  then show ?thesis
    using chfs_read_eq [OF client_invD(1) [OF inv] _ off] client_inv_same [OF inv] by (metis safeI)
qed

lemma safe_write:
  assumes inv: "client_inv im" and room: "room_for_data im ino sz off dat"
  shows "safe (chfs_write ino sz off dat w0) im"
proof (cases "files im (eid_inum ino)")
  case None
  then show ?thesis
    using absent_ok(2) [OF client_invD(1) [OF inv] None, of off sz dat w0] room client_inv_same [OF inv]
    by (auto simp: room_for_data_def intro: safeI)
next
  case (Some tc)
  obtain t c where f: "files im (eid_inum ino) = Some (t, c)"
    using Some by (cases tc) simp
  then have r: "0 \<le> sint off" "unat sz \<le> length dat" "unat off + unat sz \<le> BLOCK_SIZE * MAXFILE"
    "cost (unat off + unat sz) \<le> bm_free (im_bm im) + cost (length c)" "t \<noteq> 1"
    using room by (auto simp: room_for_data_def)
  obtain im' where "chfs_write ino sz off dat w0 im = Inr ((OK, sz), im')" "fs_inv im'"
    "files im' = (files im)(eid_inum ino \<mapsto> (t, splice c (unat off) (take (unat sz) dat)))"
    by (rule chfs_write_eq [OF client_invD(1) [OF inv] f r(1-4)])
  then show ?thesis
    using client_inv_file [OF inv f r(5)] by (auto intro: safeI)
qed

lemma safe_setattr:
  assumes inv: "client_inv im" and nd: "\<nexists>c. files im (eid_inum ino) = Some (1, c)"
  shows "safe (setattr ino sz) im"
proof (cases "files im (eid_inum ino)")
  case None
  then show ?thesis
    using absent_ok(3) [OF client_invD(1) [OF inv] None, of 0 sz "replicate (unat sz) NUL"] client_inv_same [OF inv]
    by (auto intro: safeI)
next
  case (Some tc)
  obtain t c where f: "files im (eid_inum ino) = Some (t, c)"
    using Some by (cases tc) simp
  obtain im' where "setattr ino sz im = Inr (OK, im')" "fs_inv im'"
    "files im' = (files im)(eid_inum ino \<mapsto> (t, take (unat sz) c))"
    using setattr_eq [OF client_invD(1) [OF inv] f] .
  then show ?thesis
    using client_inv_file [OF inv f] nd f by (auto intro: safeI)
qed

lemmas safe_data = safe_read safe_write safe_setattr

lemma client_inv_step: "client_step im im' \<Longrightarrow> client_inv im \<Longrightarrow> client_inv im'"
  by (induction rule: client_step.induct)
    (rule safe_step [OF safe_create] safe_step [OF safe_mkdir] safe_step [OF safe_symlink]
      safe_step [OF safe_unlink] safe_step [OF safe_queries(1)] safe_step [OF safe_queries(2)]
      safe_step [OF safe_queries(3)] safe_step [OF safe_data(1)] safe_step [OF safe_data(2)]
      safe_step [OF safe_data(3)]; assumption)+

lemma client_init_eq:
  assumes "chfs_client_init junk e = Inr im"
  shows "client_inv im \<and> files im = [1 \<mapsto> (1, [])]"
proof -
  have "to_alloc junk 1 = 1"
    using assms by (auto simp: chfs_client_init_def extent_client_init_def extent_server_init_def
        inode_manager_init_eq split: if_splits)
  moreover have key: "eid_inum 1 = 1"
    by (simp add: eid_inum_def)
  obtain im1 where "ec_put 1 [] (root_im e) = Inr (OK, im1)" "fs_inv im1" "files im1 = [1 \<mapsto> (1, [])]"
    using es.put_ok [OF root_im_facts(1), of e 1 1 "[]" "[]"] by (auto simp: root_im_facts key)
  ultimately have "fs_inv im" "files im = [1 \<mapsto> (1, [])]"
    using assms by (simp_all add: chfs_client_init_def extent_client_init_def extent_server_init_def
        inode_manager_init_eq)
  moreover have "print_dir [] = []"
    by (simp add: print_dir_def)
  ultimately show ?thesis
    by (auto simp: client_inv_def names_ok_def intro: exI [of _ "[]"] split: if_splits)
qed

end
