(* ===== verification/Client_Props.thy ===== *)
theory Client_Props
  imports Client_Inv
begin

text \<open>
  What the client promises to its caller, operation by operation, with an example of each at a fresh
  file system.
\<close>

section \<open>A fresh file system\<close>

lemma sample_root:
  "fs_inv (root_im sample_env)" "is_dir (root_im sample_env) 1 []" "client_inv (root_im sample_env)"
  "files (root_im sample_env) = [1 \<mapsto> (1, [])]" "eid_inum 1 = 1" "print_dir [] = []"
  "bm_free (im_bm (root_im sample_env)) = 31732"
proof -
  show k: "eid_inum 1 = 1" "print_dir [] = []"
    by (simp_all add: eid_inum_def print_dir_def)
  show "fs_inv (root_im sample_env)" "files (root_im sample_env) = [1 \<mapsto> (1, [])]"
    "is_dir (root_im sample_env) 1 []" "bm_free (im_bm (root_im sample_env)) = 31732"
    by (simp_all add: root_im_facts is_dir_def names_ok_def bm_free_init k)
  then show "client_inv (root_im sample_env)"
    by (auto simp: client_inv_def names_ok_def k intro: exI [of _ "[]"] split: if_splits)
qed

lemma sample_fits:
  "length name \<le> 100 \<Longrightarrow> entry_fits (root_im sample_env) [] name"
  "length name \<le> 100 \<Longrightarrow> length target \<le> 100 \<Longrightarrow> link_fits (root_im sample_env) [] name target"
  by (auto simp: entry_fits_def link_fits_def sample_root cost_def total_def nblk_def max_def div_le_mono
      intro: le_trans [of _ 1])

lemma fresh_nonzero:
  assumes "files im 2 = None" "fresh_ino im ino"
  shows "ino \<noteq> 0"
proof
  assume "ino = 0"
  then have "\<forall>j. j \<noteq> 0 \<and> j < 1024 \<longrightarrow> files im j \<noteq> None"
    using assms(2) by (simp add: fresh_ino_def)
  from this [rule_format, of 2] show False
    using assms(1) by simp
qed

lemma dir_find_append:
  "dir_find (ds @ [\<lparr>d_name = name, d_inum = i\<rparr>]) name = (case dir_find ds name of None \<Rightarrow> Some i | Some j \<Rightarrow> Some j)"
  by (induction ds) (auto simp: dir_find_def)

lemma with_entry_dir:
  assumes "files im' = with_entry im p ds name ino f" "names_ok ds" "CHR ''/'' \<notin> set name"
  shows "is_dir im' p (ds @ [\<lparr>d_name = name, d_inum = ino\<rparr>])"
  using assms by (auto simp: is_dir_def with_entry_def names_ok_def)

text \<open>The file of a new entry, when it got a number.\<close>

lemma with_entry_new:
  assumes "files im' = with_entry im p ds name ino f" "is_dir im p ds" "fresh_ino im ino" "ino \<noteq> 0"
  shows "files im' (eid_inum ino) = Some f"
  using assms by (auto simp: with_entry_def fresh_ino_def is_dir_def)

section \<open>Creation\<close>

text \<open>C7. \<open>create\<close> of a name that the directory does not have succeeds: it adds exactly one
  entry at the end of the directory, with a number that \<open>lookup\<close> then finds, and an empty
  regular file of that number; no other file changes. The number was not in use; it is 0, and no
  file is made, only if all numbers below 1024 are taken.\<close>

theorem create_correct:
  assumes inv: "fs_inv im" and dir: "is_dir im p ds" and new: "dir_find ds name = None"
    and name: "CHR ''/'' \<notin> set name" and fits: "entry_fits im ds name"
  shows "\<exists>ino im'. create p name ino0 im = Inr ((OK, ino), im') \<and> fs_inv im' \<and> fresh_ino im ino \<and>
    files im' = with_entry im p ds name ino (2, []) \<and>
    is_dir im' p (ds @ [\<lparr>d_name = name, d_inum = ino\<rparr>]) \<and>
    (\<exists>im''. lookup p name False 0 im' = Inr ((OK, True, ino), im'') \<and> same im' im'')"
proof -
  obtain ino im' where c: "create p name ino0 im = Inr ((OK, ino), im')" "fs_inv im'" "fresh_ino im ino"
    "files im' = with_entry im p ds name ino (2, [])"
    using create_eq [OF inv dir fits, of ino0] new by auto
  have dir': "is_dir im' p (ds @ [\<lparr>d_name = name, d_inum = ino\<rparr>])"
    using with_entry_dir [OF c(4) _ name] dir by (simp add: is_dir_def)
  moreover obtain im'' where "lookup p name False 0 im' = Inr ((OK, True, ino), im'')" "same im' im''"
    using lookup_ok [OF c(2) dir', of name False 0] new by (auto simp: dir_find_append)
  ultimately show ?thesis
    using c by blast
qed

theorem create_correct_witness:
  "\<exists>ino im'. create 1 ''a.txt'' 0 (root_im sample_env) = Inr ((OK, ino), im') \<and>
     files im' 1 = Some (1, print_dir [\<lparr>d_name = ''a.txt'', d_inum = ino\<rparr>])"
  using create_correct [OF sample_root(1,2), of "''a.txt''" 0] sample_fits(1) [of "''a.txt''"]
  by (auto simp: dir_find_def is_dir_def sample_root)

text \<open>\<open>mkdir\<close> of a new name, other than . and .., adds one entry at the end of the
  parent and makes an empty directory of its number: \<open>readdir\<close> of it gives no entry. No other
  file changes.\<close>

theorem mkdir_correct:
  assumes inv: "fs_inv im" and dir: "is_dir im p ds" and new: "dir_find ds name = None"
    and name: "CHR ''/'' \<notin> set name" "name \<noteq> ''.''" "name \<noteq> ''..''" and fits: "entry_fits im ds name"
  shows "\<exists>ino im'. mkdir p name ino0 im = Inr ((OK, ino), im') \<and> fs_inv im' \<and> fresh_ino im ino \<and>
    files im' = with_entry im p ds name ino (1, []) \<and>
    is_dir im' p (ds @ [\<lparr>d_name = name, d_inum = ino\<rparr>]) \<and>
    (ino = 0 \<or> (\<exists>im''. readdir ino [] im' = Inr ((OK, []), im'') \<and> same im' im''))"
proof -
  obtain ino im' where c: "mkdir p name ino0 im = Inr ((OK, ino), im')" "fs_inv im'" "fresh_ino im ino"
    "files im' = with_entry im p ds name ino (1, [])"
    using mkdir_eq [OF inv dir fits name(2,3), of ino0] new by auto
  have dir': "is_dir im' p (ds @ [\<lparr>d_name = name, d_inum = ino\<rparr>])"
    using with_entry_dir [OF c(4) _ name(1)] dir by (simp add: is_dir_def)
  have "\<exists>im''. readdir ino [] im' = Inr ((OK, []), im'') \<and> same im' im''" if "ino \<noteq> 0"
  proof -
    have "is_dir im' ino []"
      using with_entry_new [OF c(4) dir c(3) that] by (simp add: is_dir_def names_ok_def print_dir_def)
    then show ?thesis
      using readdir_ok [OF c(2), of ino "[]" "[]"] by auto
  qed
  then show ?thesis
    using c dir' by blast
qed

theorem mkdir_correct_witness:
  "\<exists>ino im'. mkdir 1 ''docs'' 0 (root_im sample_env) = Inr ((OK, ino), im') \<and>
     files im' 1 = Some (1, print_dir [\<lparr>d_name = ''docs'', d_inum = ino\<rparr>])"
  using mkdir_correct [OF sample_root(1,2), of "''docs''" 0] sample_fits(1) [of "''docs''"]
  by (auto simp: dir_find_def is_dir_def sample_root)

text \<open>C24. \<open>create_symbolic_link\<close> of a new name adds one entry and stores the target under its
  number, so that \<open>parse_symbolic_link\<close> gives the target back.\<close>

theorem symlink_correct:
  assumes inv: "fs_inv im" and dir: "is_dir im p ds" and new: "dir_find ds name = None"
    and name: "CHR ''/'' \<notin> set name" and fits: "link_fits im ds name target"
  shows "\<exists>ino im'. create_symbolic_link p target name ino0 im = Inr ((OK, ino), im') \<and> fs_inv im' \<and>
    fresh_ino im ino \<and> files im' = with_entry im p ds name ino (3, target) \<and>
    is_dir im' p (ds @ [\<lparr>d_name = name, d_inum = ino\<rparr>]) \<and>
    (ino = 0 \<or> (\<exists>im''. parse_symbolic_link [] ino im' = Inr ((OK, target), im'') \<and> same im' im''))"
proof -
  obtain ino im' where c: "create_symbolic_link p target name ino0 im = Inr ((OK, ino), im')" "fs_inv im'"
    "fresh_ino im ino" "files im' = with_entry im p ds name ino (3, target)"
    using create_symbolic_link_eq [OF inv dir fits, of ino0] new by auto
  have dir': "is_dir im' p (ds @ [\<lparr>d_name = name, d_inum = ino\<rparr>])"
    using with_entry_dir [OF c(4) _ name] dir by (simp add: is_dir_def)
  have "\<exists>im''. parse_symbolic_link [] ino im' = Inr ((OK, target), im'') \<and> same im' im''" if "ino \<noteq> 0"
    using parse_symbolic_link_eq [OF c(2), where ino = ino and buf = "[]"] with_entry_new [OF c(4) dir c(3) that]
    by simp
  then show ?thesis
    using c dir' by blast
qed

theorem symlink_correct_witness:
  "\<exists>ino im'. create_symbolic_link 1 ''/etc/hosts'' ''h'' 0 (root_im sample_env) = Inr ((OK, ino), im') \<and>
     files im' 1 = Some (1, print_dir [\<lparr>d_name = ''h'', d_inum = ino\<rparr>])"
  using symlink_correct [OF sample_root(1,2), of "''h''" "''/etc/hosts''" 0]
    sample_fits(2) [of "''h''" "''/etc/hosts''"]
  by (auto simp: dir_find_def is_dir_def sample_root)

text \<open>A name that the directory already has is never added twice: \<open>create\<close>,
  \<open>mkdir\<close> and \<open>create_symbolic_link\<close> report \<open>EXIST\<close> with the number of the
  entry, and no file changes.\<close>

theorem existing_name:
  assumes inv: "fs_inv im" and dir: "is_dir im p ds" and old: "dir_find ds name = Some i"
    and name: "name \<noteq> ''.''" "name \<noteq> ''..''" and fits: "link_fits im ds name target"
  shows "(\<exists>im'. create p name ino0 im = Inr ((EXIST, i), im') \<and> same im im') \<and>
    (\<exists>im'. mkdir p name ino0 im = Inr ((EXIST, i), im') \<and> same im im') \<and>
    (\<exists>im'. create_symbolic_link p target name ino0 im = Inr ((EXIST, i), im') \<and> same im im')"
proof -
  have "entry_fits im ds name"
    using fits by (simp add: link_fits_def entry_fits_def)
  then show ?thesis
    using create_eq [OF inv dir, of name ino0] mkdir_eq [OF inv dir _ name, of ino0]
      create_symbolic_link_eq [OF inv dir fits, of ino0] old by simp
qed

text \<open>A root directory with one entry.\<close>

lemma sample_text: "print_dir [\<lparr>d_name = ''a'', d_inum = 2\<rparr>] = ''2/a/''"
  by (simp add: print_dir_def entry_def filename_def decimal.simps digit_def char_of_def bit_iff_odd)

lemma sample_entry:
  obtains im where "fs_inv im" "is_dir im 1 [\<lparr>d_name = ''a'', d_inum = 2\<rparr>]" "31731 \<le> bm_free (im_bm im)"
proof -
  obtain im where "ec_put 1 ''2/a/'' (root_im sample_env) = Inr (OK, im)" "fs_inv im"
    "files im = [1 \<mapsto> (1, ''2/a/'')]" "31732 \<le> bm_free (im_bm im) + 1"
    using es.put_ok [OF sample_root(1), of 1 1 "[]" "''2/a/''"]
    by (auto simp: sample_root cost_def total_def nblk_def)
  then show ?thesis
    using that by (simp add: is_dir_def names_ok_def sample_text sample_root(5))
qed

theorem existing_name_witness:
  "\<exists>im im'. is_dir im 1 [\<lparr>d_name = ''a'', d_inum = 2\<rparr>] \<and> create 1 ''a'' 0 im = Inr ((EXIST, 2), im') \<and> same im im'"
proof -
  obtain im where im: "fs_inv im" "is_dir im 1 [\<lparr>d_name = ''a'', d_inum = 2\<rparr>]" "31731 \<le> bm_free (im_bm im)"
    using sample_entry .
  have "link_fits im [\<lparr>d_name = ''a'', d_inum = 2\<rparr>] ''a'' ''b''"
    using im(3) by (simp add: link_fits_def print_dir_def entry_def filename_def decimal.simps cost_def
        total_def nblk_def)
  moreover have "dir_find [\<lparr>d_name = ''a'', d_inum = 2\<rparr>] ''a'' = Some 2"
    by (simp add: dir_find_def)
  ultimately show ?thesis
    using existing_name [OF im(1,2), of "''a''" 2 "''b''" 0] im(2) by auto
qed

section \<open>Removal\<close>

text \<open>C8. \<open>unlink\<close> of an entry whose number is a regular file removes the file and the entry
  of the name, keeps the other entries in their order and every other file, and the name is not found
  afterwards. Otherwise nothing changes: a name that is not there is reported with \<open>NOENT\<close>.\<close>

theorem unlink_correct:
  assumes inv: "fs_inv im" and dir: "is_dir im p ds"
  shows "case dir_find ds name of
      None \<Rightarrow> \<exists>im'. unlink p name im = Inr (NOENT, im') \<and> same im im'
    | Some i \<Rightarrow> (\<exists>c. files im (eid_inum i) = Some (2, c)) \<longrightarrow>
        (\<exists>im' im''. unlink p name im = Inr (OK, im') \<and> fs_inv im' \<and>
          files im' = (files im)(eid_inum i := None,
            eid_inum p \<mapsto> (1, print_dir (filter (\<lambda>d. d_name d \<noteq> name) ds))) \<and>
          lookup p name False 0 im' = Inr ((OK, False, 0), im'') \<and> same im' im'')"
proof (cases "dir_find ds name")
  case None
  then show ?thesis
    using unlink_eq [OF inv dir, of name] by simp
next
  case (Some i)
  have "\<exists>im' im''. unlink p name im = Inr (OK, im') \<and> fs_inv im' \<and>
      files im' = (files im)(eid_inum i := None,
        eid_inum p \<mapsto> (1, print_dir (filter (\<lambda>d. d_name d \<noteq> name) ds))) \<and>
      lookup p name False 0 im' = Inr ((OK, False, 0), im'') \<and> same im' im''"
    if "\<exists>c. files im (eid_inum i) = Some (2, c)"
  proof -
    let ?ds = "filter (\<lambda>d. d_name d \<noteq> name) ds"
    have "\<exists>im'. unlink p name im = Inr (OK, im') \<and> fs_inv im' \<and>
        bm_free (im_bm im) \<le> bm_free (im_bm im') + 1 \<and>
        files im' = (files im)(eid_inum i := None, eid_inum p \<mapsto> (1, print_dir ?ds))"
      using unlink_eq [OF inv dir, of name] that by (simp only: Some option.case if_True)
    then obtain im' where u: "unlink p name im = Inr (OK, im')" "fs_inv im'"
      "files im' = (files im)(eid_inum i := None, eid_inum p \<mapsto> (1, print_dir ?ds))"
      by blast
    have dir': "is_dir im' p ?ds"
      using dir u(3) by (simp add: is_dir_def names_ok_def)
    have "dir_find ?ds name = None"
      by (auto simp: dir_find_None)
    then show ?thesis
      using lookup_ok [OF u(2) dir', of name False 0] u by auto
  qed
  then show ?thesis
    using Some by simp
qed

lemma sample_file:
  obtains ino im where "create 1 ''a'' 0 (root_im sample_env) = Inr ((OK, ino), im)" "fs_inv im" "ino \<noteq> 0"
    "is_dir im 1 [\<lparr>d_name = ''a'', d_inum = ino\<rparr>]" "files im (eid_inum ino) = Some (2, [])"
    "files im = [eid_inum ino \<mapsto> (2, []), 1 \<mapsto> (1, print_dir [\<lparr>d_name = ''a'', d_inum = ino\<rparr>])]"
proof -
  obtain ino im where c: "create 1 ''a'' 0 (root_im sample_env) = Inr ((OK, ino), im)" "fs_inv im"
    "fresh_ino (root_im sample_env) ino"
    "files im = with_entry (root_im sample_env) 1 [] ''a'' ino (2, [])"
    using create_eq [OF sample_root(1,2) sample_fits(1), of "''a''" 0] by (auto simp: dir_find_def)
  have "files (root_im sample_env) 2 = None"
    by (simp add: sample_root)
  then have ino: "ino \<noteq> 0"
    using c(3) by (intro fresh_nonzero)
  have "is_dir im 1 [\<lparr>d_name = ''a'', d_inum = ino\<rparr>]"
    using with_entry_dir [OF c(4)] by (simp add: names_ok_def)
  moreover have "files im = [eid_inum ino \<mapsto> (2, []), 1 \<mapsto> (1, print_dir [\<lparr>d_name = ''a'', d_inum = ino\<rparr>])]"
    using c(3) ino by (auto simp: c(4) with_entry_def sample_root fresh_ino_def fun_eq_iff)
  ultimately show ?thesis
    using that c ino with_entry_new [OF c(4) sample_root(2) c(3) ino] by blast
qed

theorem unlink_correct_witness:
  "\<exists>ino im im'. create 1 ''a'' 0 (root_im sample_env) = Inr ((OK, ino), im) \<and> unlink 1 ''a'' im = Inr (OK, im') \<and>
     files im' = [1 \<mapsto> (1, [])]"
proof -
  obtain ino im where c: "create 1 ''a'' 0 (root_im sample_env) = Inr ((OK, ino), im)" "fs_inv im" "ino \<noteq> 0"
    "is_dir im 1 [\<lparr>d_name = ''a'', d_inum = ino\<rparr>]" "files im (eid_inum ino) = Some (2, [])"
    "files im = [eid_inum ino \<mapsto> (2, []), 1 \<mapsto> (1, print_dir [\<lparr>d_name = ''a'', d_inum = ino\<rparr>])]"
    using sample_file .
  have "dir_find [\<lparr>d_name = ''a'', d_inum = ino\<rparr>] ''a'' = Some ino"
    by (simp add: dir_find_def)
  then have "\<exists>im'. unlink 1 ''a'' im = Inr (OK, im') \<and>
      files im' = (files im)(eid_inum ino := None, 1 \<mapsto> (1, []))"
    using unlink_correct [OF c(2,4), of "''a''"] c(5) by (auto simp: sample_root)
  moreover have "(files im)(eid_inum ino := None, 1 \<mapsto> (1, [])) = [1 \<mapsto> (1, [])]"
    by (auto simp: c(6) fun_eq_iff)
  ultimately show ?thesis
    using c(1) by auto
qed

text \<open>A link cannot be removed: \<open>unlink\<close> of an entry whose number is a directory, a
  symbolic link or no file at all reports \<open>IOERR\<close> and leaves the file and the entry in
  place.\<close>

theorem unlink_refuses:
  assumes inv: "fs_inv im" and dir: "is_dir im p ds" and old: "dir_find ds name = Some i"
    and kind: "\<nexists>c. files im (eid_inum i) = Some (2, c)"
  shows "\<exists>im'. unlink p name im = Inr (IOERR, im') \<and> same im im' \<and> is_dir im' p ds"
  using unlink_eq [OF inv dir, of name] old kind dir sameD(4) by (auto split: if_splits)

theorem unlink_refuses_witness:
  "\<exists>ino im im'. create_symbolic_link 1 ''b'' ''a'' 0 (root_im sample_env) = Inr ((OK, ino), im) \<and>
     files im (eid_inum ino) = Some (3, ''b'') \<and> unlink 1 ''a'' im = Inr (IOERR, im') \<and> same im im'"
proof -
  obtain ino im where c: "create_symbolic_link 1 ''b'' ''a'' 0 (root_im sample_env) = Inr ((OK, ino), im)" "fs_inv im"
    "fresh_ino (root_im sample_env) ino" "files im = with_entry (root_im sample_env) 1 [] ''a'' ino (3, ''b'')"
    using create_symbolic_link_eq [OF sample_root(1,2) sample_fits(2), of "''a''" "''b''" 0]
    by (auto simp: dir_find_def)
  have "files (root_im sample_env) 2 = None"
    by (simp add: sample_root)
  then have "ino \<noteq> 0"
    using c(3) by (intro fresh_nonzero)
  then have f: "files im (eid_inum ino) = Some (3, ''b'')"
    by (rule with_entry_new [OF c(4) sample_root(2) c(3)])
  have dir: "is_dir im 1 [\<lparr>d_name = ''a'', d_inum = ino\<rparr>]"
    using with_entry_dir [OF c(4)] by (simp add: names_ok_def)
  have "dir_find [\<lparr>d_name = ''a'', d_inum = ino\<rparr>] ''a'' = Some ino"
    by (simp add: dir_find_def)
  then show ?thesis
    using unlink_refuses [OF c(2) dir, of "''a''" ino] f c(1) by auto
qed

end
