(* ===== verification/Data_Props.thy ===== *)
theory Data_Props
  imports Client_Props
begin

text \<open>
  The properties of reading, writing and resizing, of the attributes, and of the file system over
  any sequence of operations.
\<close>

section \<open>Data\<close>

text \<open>C9. \<open>chfs_write\<close> replaces exactly the bytes from the offset on by the data: what lies
  before and behind stays, a gap beyond the old end is filled with zero bytes, the new length is the
  larger of the old length and the end of the data, no other file changes, and a read of the
  same range gives the data back.\<close>

theorem write_correct:
  assumes inv: "fs_inv im" and f: "files im (eid_inum ino) = Some (t, c)" and off: "0 \<le> sint off"
    and d: "unat sz \<le> length dat" and len: "unat off + unat sz \<le> BLOCK_SIZE * MAXFILE"
    and space: "cost (unat off + unat sz) \<le> bm_free (im_bm im) + cost (length c)"
  shows "\<exists>im' c'. chfs_write ino sz off dat w0 im = Inr ((OK, sz), im') \<and> fs_inv im' \<and>
    files im' = (files im)(eid_inum ino \<mapsto> (t, c')) \<and> length c' = max (length c) (unat off + unat sz) \<and>
    (\<forall>k<length c'. c' ! k = (if unat off \<le> k \<and> k < unat off + unat sz then dat ! (k - unat off)
                              else if k < length c then c ! k else NUL)) \<and>
    (\<exists>im''. chfs_read ino sz off [] im' = Inr ((OK, take (unat sz) dat), im'') \<and> same im' im'')"
proof -
  let ?d = "take (unat sz) dat"
  let ?c = "splice c (unat off) ?d"
  obtain im' where w: "chfs_write ino sz off dat w0 im = Inr ((OK, sz), im')" "fs_inv im'"
    "files im' = (files im)(eid_inum ino \<mapsto> (t, ?c))"
    by (rule chfs_write_eq [OF inv f off d len space])
  have ld: "length ?d = unat sz"
    using d by simp
  have "length ?c = max (length c) (unat off + unat sz)"
    using d by (simp add: length_splice)
  moreover have "?c ! k = (if unat off \<le> k \<and> k < unat off + unat sz then dat ! (k - unat off)
      else if k < length c then c ! k else NUL)" if "k < length ?c" for k
    using that d by (auto simp: splice_def nth_append length_splice min_def)
  moreover have "files im' (eid_inum ino) = Some (t, ?c)"
    by (simp add: w(3))
  then obtain im'' where "chfs_read ino sz off [] im' = Inr ((OK, take (unat sz) (drop (unat off) ?c)), im'')" "same im' im''"
    by (rule chfs_read_eq [OF w(2) _ off])
  then have "\<exists>im''. chfs_read ino sz off [] im' = Inr ((OK, ?d), im'') \<and> same im' im''"
    using splice_read [of ?d "unat off" c] unfolding ld by auto
  ultimately show ?thesis
    using w by blast
qed

theorem write_correct_witness:
  "\<exists>im' c'. chfs_write 1 2 3 ''xyz'' 0 (root_im sample_env) = Inr ((OK, 2), im') \<and>
     files im' (eid_inum 1) = Some (1, c') \<and> length c' = 5"
proof -
  have f: "files (root_im sample_env) (eid_inum 1) = Some (1, [])"
    by (simp add: sample_root)
  have u: "unat (3 :: u64) = 3" "unat (2 :: u64) = 2" "0 \<le> sint (3 :: u64)"
    by simp_all
  have "cost (3 + 2) \<le> bm_free (im_bm (root_im sample_env)) + cost (length ([] :: byte list))"
    by (simp add: cost_def total_def nblk_def sample_root)
  note write_correct [OF sample_root(1) f, of 3 2 "''xyz''" 0, unfolded u, OF _ _ _ this]
  then obtain im' c' where "chfs_write 1 2 3 ''xyz'' 0 (root_im sample_env) = Inr ((OK, 2), im')"
    "files im' = (files (root_im sample_env))(eid_inum 1 \<mapsto> (1, c'))" "length c' = 5"
    using u by (auto simp: max_def)
  then show ?thesis
    by auto
qed

text \<open>C25. \<open>chfs_read\<close> at an offset that is not negative gives the bytes of the file from there on,
  at most as many as asked for and none behind the end, whatever the sum of offset and size does
  in 64 bits; it changes no file. At a negative offset it ends in an exception that nothing
  catches.\<close>

theorem read_correct:
  assumes inv: "fs_inv im" and f: "files im (eid_inum ino) = Some (t, c)"
  shows "if 0 \<le> sint off
    then \<exists>im'. chfs_read ino sz off dat im = Inr ((OK, take (unat sz) (drop (unat off) c)), im') \<and> same im im'
    else chfs_read ino sz off dat im = Inl Out_of_range"
  using chfs_read_eq [OF inv f] chfs_read_negative [OF inv f] by (metis linorder_not_le)

theorem read_correct_witness:
  "(\<exists>im'. chfs_read 1 4 0 [] (root_im sample_env) = Inr ((OK, []), im')) \<and>
   chfs_read 1 4 (- 1) [] (root_im sample_env) = Inl Out_of_range"
proof -
  have f: "files (root_im sample_env) (eid_inum 1) = Some (1, [])"
    by (simp add: sample_root)
  show ?thesis
    using read_correct [OF sample_root(1) f, of 0 4 "[]"] read_correct [OF sample_root(1) f, of "- 1" 4 "[]"] by auto
qed

text \<open>C26. \<open>setattr\<close> cuts a file to a smaller size and keeps what lies before. It does not make a file
  larger: asked for a size beyond the end it reports success and the file stays as it is. No
  other file changes.\<close>

theorem setattr_correct:
  assumes inv: "fs_inv im" and f: "files im (eid_inum ino) = Some (t, c)"
  shows "\<exists>im'. setattr ino sz im = Inr (OK, im') \<and> fs_inv im' \<and>
    files im' = (files im)(eid_inum ino \<mapsto> (t, take (unat sz) c)) \<and>
    (length c \<le> unat sz \<longrightarrow> files im' = files im)"
proof -
  obtain im' where "setattr ino sz im = Inr (OK, im')" "fs_inv im'"
    "files im' = (files im)(eid_inum ino \<mapsto> (t, take (unat sz) c))"
    using setattr_eq [OF inv f] .
  then show ?thesis
    using f by (auto simp: fun_upd_idem)
qed

theorem setattr_correct_witness:
  "\<exists>im im'. files im (eid_inum 1) = Some (1, ''2/a/'') \<and> setattr 1 2 im = Inr (OK, im') \<and>
     files im' (eid_inum 1) = Some (1, ''2/'')"
proof -
  obtain im where im: "fs_inv im" "files im (eid_inum 1) = Some (1, ''2/a/'')"
    using sample_entry sample_text by (metis is_dir_def)
  then show ?thesis
    using setattr_correct [OF im, of 2] by auto
qed

section \<open>Attributes and text\<close>

text \<open>The attribute queries agree with the files: \<open>isfile\<close>, \<open>isdir\<close> and
  \<open>issymlink\<close> tell the type of the file, none holds for a number without a file, and
  \<open>getfile\<close> gives the length of the content, 0 without a file.\<close>

theorem attributes_correct:
  assumes inv: "fs_inv im"
  shows "isfile eid im = Inr (\<exists>c. files im (eid_inum eid) = Some (2, c), im) \<and>
    isdir eid im = Inr (\<exists>c. files im (eid_inum eid) = Some (1, c), im) \<and>
    issymlink eid im = Inr (\<exists>c. files im (eid_inum eid) = Some (3, c), im) \<and>
    (\<exists>fin. getfile eid fin0 im = Inr ((OK, fin), im) \<and>
      unat (fi_size fin) = (case files im (eid_inum eid) of None \<Rightarrow> 0 | Some (t, c) \<Rightarrow> length c))"
proof -
  obtain a where a: "ec_getattr eid im = Inr ((OK, a), im)"
    "a_size a = (case files im (eid_inum eid) of None \<Rightarrow> 0 | Some (t, c) \<Rightarrow> of_nat (length c))"
    using ec_getattr_type [OF inv] by metis
  have "unat (ucast (a_size a) :: u64) = (case files im (eid_inum eid) of None \<Rightarrow> 0 | Some (t, c) \<Rightarrow> length c)"
  proof (cases "files im (eid_inum eid)")
    case (Some tc)
    then have "length (snd tc) \<le> BLOCK_SIZE * MAXFILE"
      using files_size [OF inv, of "eid_inum eid" "fst tc"] by simp
    then show ?thesis
      using Some a(2) by (cases tc) (simp add: unsigned_ucast_eq take_bit_eq_mod unat_of_nat)
  qed (simp add: a(2))
  then show ?thesis
    using isfile_ok [OF inv] by (simp add: getfile_def io_bind_def a(1))
qed

theorem attributes_correct_witness:
  "fs_inv (root_im sample_env) \<and> isdir 1 (root_im sample_env) = Inr (True, root_im sample_env) \<and>
   isfile 1 (root_im sample_env) = Inr (False, root_im sample_env)"
  using attributes_correct [OF sample_root(1), of 1] by (simp add: sample_root)

text \<open>C27. Every directory that is printed from entries whose names have no slash is read back as those
  entries, in their order and with their numbers; so the text determines the entries.\<close>

theorem directory_roundtrip:
  assumes "\<forall>d\<in>set ds. CHR ''/'' \<notin> set (d_name d)"
  shows "readdir_loop junk (print_dir ds) 0 lst = (Parse_ok, lst @ ds) \<and>
    (\<forall>ds'. (\<forall>d\<in>set ds'. CHR ''/'' \<notin> set (d_name d)) \<and> print_dir ds' = print_dir ds \<longrightarrow> ds' = ds)"
  using readdir_loop_print [of ds junk "[]" lst] assms print_dir_inj [of _ ds] by (auto simp: names_ok_def)

theorem directory_roundtrip_witness:
  "readdir_loop (\<lambda>_. 0) (print_dir [\<lparr>d_name = ''b'', d_inum = 12\<rparr>, \<lparr>d_name = '''', d_inum = 7\<rparr>]) 0 []
     = (Parse_ok, [\<lparr>d_name = ''b'', d_inum = 12\<rparr>, \<lparr>d_name = '''', d_inum = 7\<rparr>])"
  using directory_roundtrip [of "[\<lparr>d_name = ''b'', d_inum = 12\<rparr>, \<lparr>d_name = '''', d_inum = 7\<rparr>]" "\<lambda>_. 0" "[]"] by simp

text \<open>C23. A directory with any bytes in it, not only a text the client printed: \<open>readdir\<close> returns,
  with an entry for every two slashes; it reports \<open>OK\<close> if the slashes are even in number and the
  text ends with one of them (or is empty), and \<open>IOERR\<close> otherwise. In the second case lookups and
  every change of the directory report \<open>IOERR\<close> and no file changes.\<close>

theorem readdir_any_text:
  assumes inv: "fs_inv im" and f: "files im (eid_inum p) = Some (1, c)"
  shows "(\<exists>ds im'. readdir p [] im = Inr ((if dir_text c then OK else IOERR, ds), im') \<and> same im im' \<and>
      length ds = count_list c CHR ''/'' div 2 \<and> (\<forall>d\<in>set ds. CHR ''/'' \<notin> set (d_name d))) \<and>
    (dir_text c \<or> (\<exists>im'. same im im' \<and> lookup p n False i0 im = Inr ((IOERR, False, i0), im') \<and>
      create p n i0 im = Inr ((IOERR, i0), im') \<and>
      create_symbolic_link p t n i0 im = Inr ((IOERR, i0), im')) \<and>
     (\<exists>im'. same im im' \<and> mkdir p n i0 im = Inr ((IOERR, i0), im')) \<and>
     (\<exists>im'. same im im' \<and> unlink p n im = Inr (IOERR, im')))"
proof -
  obtain a where a: "check_dir_inode p im = Inr ((OK, a), im)"
    using check_dir_inode_ok [OF inv, of p] f by auto
  have "\<exists>ds im'. readdir p [] im = Inr ((if dir_text c then OK else IOERR, ds), im') \<and> same im im' \<and>
      length ds = count_list c CHR ''/'' div 2 \<and> (\<forall>d\<in>set ds. CHR ''/'' \<notin> set (d_name d))"
    using readdir_text [OF inv f, of "[]"] by auto
  moreover {
    assume "\<not> dir_text c"
    note l = not_text_ops [OF inv f this]
    obtain im1 where "same im im1" "lookup p n False i0 im = Inr ((IOERR, False, i0), im1)"
      by (rule l [of n False i0])
    moreover obtain im2 where "same im im2" "lookup p n False 0 im = Inr ((IOERR, False, 0), im2)"
      by (rule l [of n False 0])
    ultimately have "(\<exists>im'. same im im' \<and> lookup p n False i0 im = Inr ((IOERR, False, i0), im') \<and>
        create p n i0 im = Inr ((IOERR, i0), im') \<and> create_symbolic_link p t n i0 im = Inr ((IOERR, i0), im')) \<and>
      (\<exists>im'. same im im' \<and> mkdir p n i0 im = Inr ((IOERR, i0), im')) \<and>
      (\<exists>im'. same im im' \<and> unlink p n im = Inr (IOERR, im'))"
      using a inv by (auto simp: create_def create_symbolic_link_def mkdir_def unlink_def io_bind_def)
  }
  ultimately show ?thesis
    by blast
qed

theorem readdir_any_text_witness:
  "\<exists>im im'. files im 1 = Some (1, ''2/'') \<and> create 1 ''b'' 0 im = Inr ((IOERR, 0), im')"
proof -
  obtain im0 where im0: "fs_inv im0" "files im0 (eid_inum 1) = Some (1, ''2/a/'')"
    using sample_entry sample_text by (metis is_dir_def)
  obtain im where im: "fs_inv im" "files im = (files im0)(eid_inum 1 \<mapsto> (1, take (unat (2 :: u64)) ''2/a/''))"
    using setattr_eq [OF im0, of 2] by metis
  have f: "files im (eid_inum 1) = Some (1, ''2/'')"
    by (simp add: im(2))
  have "\<not> dir_text ''2/''"
    by (simp add: dir_text_def)
  then have "\<exists>im'. create 1 ''b'' 0 im = Inr ((IOERR, 0), im')"
    using readdir_any_text [OF im(1) f, of "''b''" 0] by blast
  then show ?thesis
    using f by (auto simp: sample_root(5))
qed

section \<open>Sequences of operations\<close>

text \<open>From a newly constructed file system, any sequence of operations of the client leads to a
  state that is well formed: no block is used twice, the root is a directory, and every directory can be
  read and holds every name once.\<close>

theorem reachable_inv:
  assumes "chfs_client_init junk e = Inr im0" "client_step\<^sup>*\<^sup>* im0 im"
  shows "client_inv im"
  using assms(2) client_init_eq [OF assms(1)] by (induction rule: rtranclp_induct) (auto intro: client_inv_step)

lemma sample_init: obtains im where "chfs_client_init 0 sample_env = Inr im"
proof -
  obtain im where "ec_put 1 [] (root_im sample_env) = Inr (OK, im)"
    using es.put_ok [OF sample_root(1), of 1 1 "[]" "[]"] by (auto simp: sample_root)
  then show ?thesis
    using that [of im] by (simp add: chfs_client_init_def extent_client_init_def extent_server_init_def
        inode_manager_init_eq to_alloc_def word_le_nat_alt)
qed

theorem reachable_inv_witness:
  "\<exists>im0 r im. chfs_client_init 0 sample_env = Inr im0 \<and> unlink 1 ''a'' im0 = Inr (r, im) \<and> client_inv im"
proof -
  obtain im0 where im0: "chfs_client_init 0 sample_env = Inr im0"
    using sample_init .
  have inv0: "client_inv im0"
    using client_init_eq [OF im0] by blast
  obtain r im where u: "unlink 1 ''a'' im0 = Inr (r, im)"
    using safe_unlink [OF inv0, of 1 "''a''"] by (auto simp: safe_def)
  have "client_step\<^sup>*\<^sup>* im0 im"
    using step_unlink [OF u] by blast
  then show ?thesis
    using reachable_inv [OF im0] im0 u by blast
qed

text \<open>In such a state no operation of the client runs into a failed assertion, an access outside an
  array or an uncaught exception, as long as there is room: each of them returns, and in such a
  state again.\<close>

theorem operations_safe:
  assumes "client_inv im"
  shows "(room_for im p name \<longrightarrow> safe (create p name i0) im \<and> safe (mkdir p name i0) im) \<and>
    (room_for_link im p name target \<longrightarrow> safe (create_symbolic_link p target name i0) im) \<and>
    safe (unlink p name) im \<and> safe (readdir p lst) im \<and> safe (lookup p name found i0) im \<and>
    safe (parse_symbolic_link buf ino) im \<and> (0 \<le> sint off \<longrightarrow> safe (chfs_read ino sz off dat0) im) \<and>
    (room_for_data im ino sz off dat \<longrightarrow> safe (chfs_write ino sz off dat w0) im) \<and>
    ((\<nexists>c. files im (eid_inum ino) = Some (1, c)) \<longrightarrow> safe (setattr ino sz) im)"
  using safe_create [OF assms] safe_mkdir [OF assms] safe_symlink [OF assms] safe_unlink [OF assms]
    safe_queries [OF assms] safe_data [OF assms] by simp

theorem operations_safe_witness:
  "client_inv (root_im sample_env) \<and> safe (unlink 1 ''a'') (root_im sample_env)"
  using operations_safe [OF sample_root(3)] sample_root(3) by blast

text \<open>On a parent that is no directory every operation on directories reports \<open>IOERR\<close> and
  leaves the state exactly as it is.\<close>

theorem not_a_directory:
  assumes "fs_inv im" "\<nexists>c. files im (eid_inum p) = Some (1, c)"
  shows "create p name i0 im = Inr ((IOERR, i0), im) \<and> mkdir p name i0 im = Inr ((IOERR, i0), im) \<and>
    create_symbolic_link p target name i0 im = Inr ((IOERR, i0), im) \<and> unlink p name im = Inr (IOERR, im) \<and>
    readdir p lst im = Inr ((IOERR, lst), im) \<and> lookup p name found i0 im = Inr ((IOERR, found, i0), im)"
  using not_dir_ops [OF assms] by blast

theorem not_a_directory_witness:
  "files (root_im sample_env) (eid_inum 9) = None \<and>
   create 9 ''a'' 0 (root_im sample_env) = Inr ((IOERR, 0), root_im sample_env)"
proof -
  have n: "files (root_im sample_env) (eid_inum 9) = None"
    by (simp add: sample_root eid_inum_def)
  then show ?thesis
    using not_a_directory [OF sample_root(1), of 9 "''a''" 0] by simp
qed

text \<open>C34. When every inode number is taken \<open>create\<close> still reports success: it adds an entry with the
  number 0, which no file has and which \<open>unlink\<close> then refuses to remove.\<close>

theorem create_on_full_table:
  assumes inv: "fs_inv im" and dir: "is_dir im p ds" and new: "dir_find ds name = None"
    and name: "CHR ''/'' \<notin> set name" and fits: "entry_fits im ds name"
    and full: "\<And>j. j \<noteq> 0 \<Longrightarrow> j \<le> 1024 \<Longrightarrow> files im j \<noteq> None"
  shows "\<exists>im' im''. create p name ino0 im = Inr ((OK, 0), im') \<and>
    files im' = (files im)(eid_inum p \<mapsto> (1, print_dir (ds @ [\<lparr>d_name = name, d_inum = 0\<rparr>]))) \<and>
    unlink p name im' = Inr (IOERR, im'') \<and> same im' im''"
proof -
  obtain ino im' where c: "create p name ino0 im = Inr ((OK, ino), im')" "fs_inv im'" "fresh_ino im ino"
    "files im' = with_entry im p ds name ino (2, [])"
    using create_eq [OF inv dir fits, of ino0] new by auto
  have "ino = 0"
  proof (rule ccontr)
    assume ne: "ino \<noteq> 0"
    then have "files im (eid_inum ino) = None" "unat ino \<le> 1024"
      using c(3) by (simp_all add: fresh_ino_def word_le_nat_alt)
    moreover from this have "unat (eid_inum ino) = unat ino"
      by (simp add: eid_inum_unat)
    ultimately show False
      using full [of "eid_inum ino"] ne by (auto simp: word_le_nat_alt word_unat_eq_iff)
  qed
  let ?ds = "ds @ [\<lparr>d_name = name, d_inum = 0\<rparr>]"
  have f: "files im' = (files im)(eid_inum p \<mapsto> (1, print_dir ?ds))"
    using c(4) \<open>ino = 0\<close> by (simp add: with_entry_def)
  have dir': "is_dir im' p ?ds"
    using with_entry_dir [OF c(4) _ name] dir \<open>ino = 0\<close> by (simp add: is_dir_def)
  have "eid_inum 0 = 0"
    by (simp add: eid_inum_def)
  then have none: "files im' (eid_inum 0) = None"
    using es.zero_unused [OF c(2)] by simp
  have "dir_find ?ds name = Some 0"
    using new by (simp add: dir_find_append)
  then obtain im'' where "unlink p name im' = Inr (IOERR, im'')" "same im' im''"
    using unlink_eq [OF c(2) dir', of name] none by auto
  then show ?thesis
    using c(1) f \<open>ino = 0\<close> by auto
qed

theorem create_on_full_table_witness:
  "\<exists>im'. create 1 ''a'' 0 (table_im 1024) = Inr ((OK, 0), im') \<and> files im' 1 = Some (1, ''0/a/'')"
proof -
  have t: "fs_inv (table_im 1024)" "is_dir (table_im 1024) 1 []"
    by (simp_all add: table_im_facts is_dir_def names_ok_def print_dir_def sample_root(5))
  have fits: "entry_fits (table_im 1024) [] ''a''"
    by (simp add: entry_fits_def print_dir_def cost_def total_def nblk_def)
  have "files (table_im 1024) j \<noteq> None" if "j \<noteq> 0" "j \<le> 1024" for j
    using that by (simp add: table_im_facts)
  note create_on_full_table [OF t _ _ fits this, of 0]
  moreover have "print_dir [\<lparr>d_name = ''a'', d_inum = 0\<rparr>] = ''0/a/''"
    by (simp add: print_dir_def entry_def filename_def decimal.simps digit_def char_of_def bit_iff_odd)
  ultimately show ?thesis
    by (auto simp: dir_find_def sample_root(5))
qed

end
