(* ===== verification/Abstract_Fs.thy ===== *)
theory Abstract_Fs
  imports Data_Props
begin

text \<open>
  What the client promises, without blocks, inodes and text: a file system is a map from numbers to
  nodes, a directory is a list of entries, a file or a link is a list of bytes. The operations are the
  steps of a relation on such maps, with the status and the answer the caller sees; the only choice left
  open is which unused number a new node gets. The client refines it: every operation that is
  admissible returns, and does a step of the abstract file system.
\<close>

section \<open>The abstract file system\<close>

datatype node = Dir "dirent list" | File "byte list" | Link "byte list"

type_synonym fs = "u32 \<rightharpoonup> node"

datatype fs_op =
    Op_create u64 string
  | Op_mkdir u64 string
  | Op_symlink u64 string string
  | Op_unlink u64 string
  | Op_lookup u64 string
  | Op_readdir u64
  | Op_readlink u64
  | Op_read u64 u64 u64
  | Op_write u64 u64 u64 "byte list"
  | Op_setsize u64 u64

datatype answer = Nothing | Ino u64 | Listing "dirent list" | Bytes "byte list" | Count u64

type_synonym outcome = "xxstatus \<times> answer"

text \<open>The directory an operation works in, and the node it makes there under a new name.\<close>

fun parent_of :: "fs_op \<Rightarrow> u64 option" where
  "parent_of (Op_create p n) = Some p"
| "parent_of (Op_mkdir p n) = Some p"
| "parent_of (Op_symlink p n t) = Some p"
| "parent_of (Op_unlink p n) = Some p"
| "parent_of (Op_lookup p n) = Some p"
| "parent_of (Op_readdir p) = Some p"
| "parent_of _ = None"

fun new_node :: "fs_op \<Rightarrow> (u64 \<times> string \<times> node) option" where
  "new_node (Op_create p n) = Some (p, n, File [])"
| "new_node (Op_mkdir p n) = (if n = ''.'' \<or> n = ''..'' then None else Some (p, n, Dir []))"
| "new_node (Op_symlink p n t) = Some (p, n, Link t)"
| "new_node _ = None"

fun bytes_of :: "node \<Rightarrow> byte list" where
  "bytes_of (Dir ds) = print_dir ds"
| "bytes_of (File c) = c"
| "bytes_of (Link c) = c"

fun with_bytes :: "node \<Rightarrow> byte list \<Rightarrow> node" where
  "with_bytes (Dir ds) c = Dir ds"
| "with_bytes (File _) c = File c"
| "with_bytes (Link _) c = Link c"

text \<open>A number for a new node: unused, or 0 when all numbers below 1024 are taken.\<close>

definition fresh :: "fs \<Rightarrow> u64 \<Rightarrow> bool" where
  "fresh s i \<longleftrightarrow> i \<le> 1024 \<and>
     (if i = 0 then \<forall>j. j \<noteq> 0 \<and> j < 1024 \<longrightarrow> s j \<noteq> None else s (eid_inum i) = None)"

definition add_entry :: "fs \<Rightarrow> u64 \<Rightarrow> dirent list \<Rightarrow> string \<Rightarrow> u64 \<Rightarrow> node \<Rightarrow> fs" where
  "add_entry s p ds n i nd = (if i = 0 then s else s(eid_inum i \<mapsto> nd))
     (eid_inum p \<mapsto> Dir (ds @ [\<lparr>d_name = n, d_inum = i\<rparr>]))"

inductive fs_step :: "fs \<Rightarrow> fs_op \<Rightarrow> outcome \<Rightarrow> fs \<Rightarrow> bool" where
  fs_not_dir: "parent_of op = Some p \<Longrightarrow> \<nexists>ds. s (eid_inum p) = Some (Dir ds) \<Longrightarrow>
    fs_step s op (IOERR, Nothing) s"
| fs_new: "new_node op = Some (p, n, nd) \<Longrightarrow> s (eid_inum p) = Some (Dir ds) \<Longrightarrow> dir_find ds n = None \<Longrightarrow>
    fresh s i \<Longrightarrow> fs_step s op (OK, Ino i) (add_entry s p ds n i nd)"
| fs_exists: "new_node op = Some (p, n, nd) \<Longrightarrow> s (eid_inum p) = Some (Dir ds) \<Longrightarrow> dir_find ds n = Some i \<Longrightarrow>
    fs_step s op (EXIST, Ino i) s"
| fs_mkdir_dots: "s (eid_inum p) = Some (Dir ds) \<Longrightarrow> n = ''.'' \<or> n = ''..'' \<Longrightarrow>
    fs_step s (Op_mkdir p n) (IOERR, Nothing) s"
| fs_unlink: "s (eid_inum p) = Some (Dir ds) \<Longrightarrow> dir_find ds n = Some i \<Longrightarrow> s (eid_inum i) = Some (File c) \<Longrightarrow>
    fs_step s (Op_unlink p n) (OK, Nothing)
      (s(eid_inum i := None, eid_inum p \<mapsto> Dir (filter (\<lambda>d. d_name d \<noteq> n) ds)))"
| fs_unlink_refused: "s (eid_inum p) = Some (Dir ds) \<Longrightarrow> dir_find ds n = Some i \<Longrightarrow>
    \<nexists>c. s (eid_inum i) = Some (File c) \<Longrightarrow> fs_step s (Op_unlink p n) (IOERR, Nothing) s"
| fs_unlink_absent: "s (eid_inum p) = Some (Dir ds) \<Longrightarrow> dir_find ds n = None \<Longrightarrow>
    fs_step s (Op_unlink p n) (NOENT, Nothing) s"
| fs_lookup: "s (eid_inum p) = Some (Dir ds) \<Longrightarrow>
    fs_step s (Op_lookup p n) (OK, case dir_find ds n of None \<Rightarrow> Nothing | Some i \<Rightarrow> Ino i) s"
| fs_readdir: "s (eid_inum p) = Some (Dir ds) \<Longrightarrow> fs_step s (Op_readdir p) (OK, Listing ds) s"
| fs_readlink: "s (eid_inum i) = Some (Link t) \<Longrightarrow> fs_step s (Op_readlink i) (OK, Bytes t) s"
| fs_readlink_other: "\<nexists>t. s (eid_inum i) = Some (Link t) \<Longrightarrow> fs_step s (Op_readlink i) (IOERR, Nothing) s"
| fs_read: "s (eid_inum i) = Some nd \<Longrightarrow>
    fs_step s (Op_read i sz off) (OK, Bytes (take (unat sz) (drop (unat off) (bytes_of nd)))) s"
| fs_read_absent: "s (eid_inum i) = None \<Longrightarrow> fs_step s (Op_read i sz off) (OK, Bytes []) s"
| fs_write: "s (eid_inum i) = Some nd \<Longrightarrow> fs_step s (Op_write i sz off dat) (OK, Count sz)
    (s(eid_inum i \<mapsto> with_bytes nd (splice (bytes_of nd) (unat off) (take (unat sz) dat))))"
| fs_write_absent: "s (eid_inum i) = None \<Longrightarrow> fs_step s (Op_write i sz off dat) (OK, Count sz) s"
| fs_setsize: "s (eid_inum i) = Some nd \<Longrightarrow> fs_step s (Op_setsize i sz) (OK, Nothing)
    (s(eid_inum i \<mapsto> with_bytes nd (take (unat sz) (bytes_of nd))))"
| fs_setsize_absent: "s (eid_inum i) = None \<Longrightarrow> fs_step s (Op_setsize i sz) (OK, Nothing) s"

section \<open>The client as such a system\<close>

text \<open>The operations of \<open>chfs_client\<close> in one function; \<open>u\<close> is what an output variable
  holds before the call.\<close>

fun run_op :: "u64 \<Rightarrow> fs_op \<Rightarrow> outcome io" where
  "run_op u (Op_create p n) = io_bind (create p n u) (\<lambda>(st, i).
     io_return (st, if st = OK \<or> st = EXIST then Ino i else Nothing))"
| "run_op u (Op_mkdir p n) = io_bind (mkdir p n u) (\<lambda>(st, i).
     io_return (st, if st = OK \<or> st = EXIST then Ino i else Nothing))"
| "run_op u (Op_symlink p n t) = io_bind (create_symbolic_link p t n u) (\<lambda>(st, i).
     io_return (st, if st = OK \<or> st = EXIST then Ino i else Nothing))"
| "run_op u (Op_unlink p n) = io_bind (unlink p n) (\<lambda>st. io_return (st, Nothing))"
| "run_op u (Op_lookup p n) = io_bind (lookup p n False u) (\<lambda>(st, found, i).
     io_return (st, if found then Ino i else Nothing))"
| "run_op u (Op_readdir p) = io_bind (readdir p []) (\<lambda>(st, lst).
     io_return (st, if st = OK then Listing lst else Nothing))"
| "run_op u (Op_readlink i) = io_bind (parse_symbolic_link [] i) (\<lambda>(st, t).
     io_return (st, if st = OK then Bytes t else Nothing))"
| "run_op u (Op_read i sz off) = io_bind (chfs_read i sz off []) (\<lambda>(st, d). io_return (st, Bytes d))"
| "run_op u (Op_write i sz off dat) = io_bind (chfs_write i sz off dat u) (\<lambda>(st, n). io_return (st, Count n))"
| "run_op u (Op_setsize i sz) = io_bind (setattr i sz) (\<lambda>st. io_return (st, Nothing))"

text \<open>When an operation is admissible: there is room for what it stores, a name has no slash, an offset
  is not negative, and data is written to files and links only.\<close>

fun op_ok :: "inode_manager \<Rightarrow> fs_op \<Rightarrow> bool" where
  "op_ok im (Op_create p n) = room_for im p n"
| "op_ok im (Op_mkdir p n) = room_for im p n"
| "op_ok im (Op_symlink p n t) = room_for_link im p n t"
| "op_ok im (Op_read i sz off) = (0 \<le> sint off)"
| "op_ok im (Op_write i sz off dat) = room_for_data im i sz off dat"
| "op_ok im (Op_setsize i sz) = (\<nexists>c. files im (eid_inum i) = Some (1, c))"
| "op_ok im _ = True"

text \<open>The nodes of a state of the inode layer.\<close>

definition node_of :: "u16 \<times> byte list \<Rightarrow> node" where
  "node_of tc = (case tc of (t, c) \<Rightarrow>
     if t = 1 then Dir (snd (readdir_loop (\<lambda>_. 0) c 0 [])) else if t = 2 then File c else Link c)"

definition abs_files :: "(u32 \<rightharpoonup> u16 \<times> byte list) \<Rightarrow> fs" where
  "abs_files f = (\<lambda>k. map_option node_of (f k))"

definition abs_fs :: "inode_manager \<Rightarrow> fs" where
  "abs_fs im = abs_files (files im)"

text \<open>The states of the refinement: the invariant of the client, and only the three types.\<close>

definition typed :: "(u32 \<rightharpoonup> u16 \<times> byte list) \<Rightarrow> bool" where
  "typed f \<longleftrightarrow> (\<forall>k t c. f k = Some (t, c) \<longrightarrow> t = 1 \<or> t = 2 \<or> t = 3)"

definition fs_ok :: "inode_manager \<Rightarrow> bool" where
  "fs_ok im \<longleftrightarrow> client_inv im \<and> typed (files im)"

lemma abs_files_upd [simp]:
  "abs_files (f(k \<mapsto> tc)) = (abs_files f)(k \<mapsto> node_of tc)"
  "abs_files (f(k := None)) = (abs_files f)(k := None)"
  by (auto simp: abs_files_def)

lemma typed_upd:
  "typed f \<Longrightarrow> t = 1 \<or> t = 2 \<or> t = 3 \<Longrightarrow> typed (f(k \<mapsto> (t, c)))"
  "typed f \<Longrightarrow> typed (f(k := None))"
  by (auto simp: typed_def)

lemma node_of_dir: "names_ok ds \<Longrightarrow> node_of (1, print_dir ds) = Dir ds"
  using readdir_loop_print [of ds "\<lambda>_. 0" "[]" "[]"] by (simp add: node_of_def names_ok_def)

lemma node_of_simps [simp]: "node_of (2, c) = File c" "node_of (3, c) = Link c"
  by (simp_all add: node_of_def)

lemma node_of_eq [simp]:
  "node_of (t, c) = File d \<longleftrightarrow> t = 2 \<and> c = d" "(\<exists>ds. node_of (t, c) = Dir ds) \<longleftrightarrow> t = 1"
  by (auto simp: node_of_def)

lemma fs_okD:
  assumes "fs_ok im"
  shows "client_inv im" "fs_inv im" "typed (files im)"
    "files im k = Some (t, c) \<Longrightarrow> t = 1 \<or> t = 2 \<or> t = 3"
  using assms client_invD(1) by (auto simp: fs_ok_def typed_def)

lemma abs_fs_same: "same im im' \<Longrightarrow> abs_fs im' = abs_fs im"
  by (simp add: abs_fs_def sameD)

lemma fs_ok_same: "fs_ok im \<Longrightarrow> same im im' \<Longrightarrow> fs_ok im'"
  using client_inv_same by (auto simp: fs_ok_def sameD)

lemma abs_fs_at: "abs_fs im k = map_option node_of (files im k)"
  by (simp add: abs_fs_def abs_files_def)

lemma abs_fs_dir:
  assumes "is_dir im p ds"
  shows "abs_fs im (eid_inum p) = Some (Dir ds)"
  using assms node_of_dir by (simp add: is_dir_def abs_fs_at)

lemma abs_fs_no_dir: "(\<exists>ds. abs_fs im k = Some (Dir ds)) \<longleftrightarrow> (\<exists>c. files im k = Some (1, c))"
  by (cases "files im k") (force simp: abs_fs_at node_of_def split: if_splits)+

lemma abs_fs_file:
  assumes "fs_ok im"
  shows "abs_fs im k = Some (File c) \<longleftrightarrow> files im k = Some (2, c)"
    "abs_fs im k = Some (Link c) \<longleftrightarrow> files im k = Some (3, c)"
  using fs_okD(4) [OF assms, of k] by (cases "files im k"; force simp: abs_fs_at node_of_def split: if_splits)+

lemma bytes_of_node:
  assumes "fs_ok im" "files im k = Some (t, c)"
  shows "bytes_of (node_of (t, c)) = c"
proof (cases "t = 1")
  case True
  then obtain ds where "c = print_dir ds" "names_ok ds"
    using client_invD(3) [OF fs_okD(1)] assms by blast
  then show ?thesis
    using True node_of_dir by simp
qed (use fs_okD(4) [OF assms] in auto)

lemma with_bytes_node: "t = 2 \<or> t = 3 \<Longrightarrow> with_bytes (node_of (t, c)) d = node_of (t, d)"
  by auto

lemma fresh_abs: "fresh_ino im i \<longleftrightarrow> fresh (abs_fs im) i"
  by (simp add: fresh_ino_def fresh_def abs_fs_at)

section \<open>Refinement\<close>

definition refines :: "u64 \<Rightarrow> fs_op \<Rightarrow> inode_manager \<Rightarrow> bool" where
  "refines u op im \<longleftrightarrow> (\<exists>out im'. run_op u op im = Inr (out, im') \<and> fs_ok im' \<and>
     fs_step (abs_fs im) op out (abs_fs im'))"

lemma refinesI:
  "run_op u op im = Inr (out, im') \<Longrightarrow> fs_ok im' \<Longrightarrow> abs_fs im' = s' \<Longrightarrow> fs_step (abs_fs im) op out s' \<Longrightarrow>
   refines u op im"
  by (auto simp: refines_def)

lemma refines_query:
  "run_op u op im = Inr (out, im') \<Longrightarrow> fs_ok im \<Longrightarrow> same im im' \<Longrightarrow> fs_step (abs_fs im) op out (abs_fs im) \<Longrightarrow>
   refines u op im"
  using fs_ok_same abs_fs_same by (auto simp: refines_def)

lemma refines_not_dir:
  assumes "fs_ok im" "parent_of op = Some p" "\<nexists>c. files im (eid_inum p) = Some (1, c)"
  shows "refines u op im"
proof (rule refines_query)
  note nd = not_dir_ops [OF fs_okD(2) [OF assms(1)] assms(3)]
  show "run_op u op im = Inr ((IOERR, Nothing), im)"
    using assms(2) by (cases op) (simp_all add: io_bind_def nd)
  show "fs_step (abs_fs im) op (IOERR, Nothing) (abs_fs im)"
    using assms(2,3) abs_fs_no_dir by (intro fs_not_dir) auto
qed (use assms(1) fs_okD(2) in auto)

text \<open>A new entry.\<close>

lemma abs_with_entry:
  assumes "names_ok ds" "CHR ''/'' \<notin> set n" "files im' = with_entry im p ds n i tc"
  shows "abs_fs im' = add_entry (abs_fs im) p ds n i (node_of tc)"
proof -
  have "node_of (1, print_dir (ds @ [\<lparr>d_name = n, d_inum = i\<rparr>])) = Dir (ds @ [\<lparr>d_name = n, d_inum = i\<rparr>])"
    using assms(1,2) by (intro node_of_dir) (auto simp: names_ok_def)
  then show ?thesis
    by (simp add: abs_fs_def assms(3) with_entry_def add_entry_def)
qed

lemma fs_ok_entry:
  assumes ok: "fs_ok im" and dir: "is_dir im p ds" "distinct (map d_name ds)"
    and new: "dir_find ds n = None" "CHR ''/'' \<notin> set n" "fresh_ino im i"
    and type: "t = 1 \<or> t = 2 \<or> t = 3" "t = 1 \<longrightarrow> c = []"
    and im': "fs_inv im'" "files im' = with_entry im p ds n i (t, c)"
  shows "fs_ok im'"
proof -
  have "typed (files im')"
    unfolding im'(2) with_entry_def using fs_okD(3) [OF ok] type(1) by (auto intro!: typed_upd)
  then show ?thesis
    using client_inv_entry [OF fs_okD(1) [OF ok] dir new type(2) im'] by (simp add: fs_ok_def)
qed

lemma refines_new:
  assumes ok: "fs_ok im" and dir: "is_dir im p ds" "distinct (map d_name ds)" and n: "CHR ''/'' \<notin> set n"
    and type: "t = 1 \<or> t = 2 \<or> t = 3" "t = 1 \<longrightarrow> c = []"
    and op: "new_node op = Some (p, n, node_of (t, c))"
    and run: "case dir_find ds n of
        Some i \<Rightarrow> \<exists>im'. run_op u op im = Inr ((EXIST, Ino i), im') \<and> same im im'
      | None \<Rightarrow> \<exists>i im'. run_op u op im = Inr ((OK, Ino i), im') \<and> fs_inv im' \<and> fresh_ino im i \<and>
          files im' = with_entry im p ds n i (t, c)"
  shows "refines u op im"
proof (cases "dir_find ds n")
  case None
  then obtain i im' where r: "run_op u op im = Inr ((OK, Ino i), im')" "fs_inv im'" "fresh_ino im i"
    "files im' = with_entry im p ds n i (t, c)"
    using run by auto
  show ?thesis
  proof (rule refinesI [OF r(1)])
    show "fs_ok im'"
      by (rule fs_ok_entry [OF ok dir None n r(3) type r(2,4)])
    show "abs_fs im' = add_entry (abs_fs im) p ds n i (node_of (t, c))"
      using dir(1) n r(4) by (intro abs_with_entry) (simp_all add: is_dir_def)
    show "fs_step (abs_fs im) op (OK, Ino i) (add_entry (abs_fs im) p ds n i (node_of (t, c)))"
      using op abs_fs_dir [OF dir(1)] None r(3) unfolding fresh_abs by (rule fs_new)
  qed
next
  case (Some i)
  then obtain im' where "run_op u op im = Inr ((EXIST, Ino i), im')" "same im im'"
    using run by auto
  moreover have "fs_step (abs_fs im) op (EXIST, Ino i) (abs_fs im)"
    using op abs_fs_dir [OF dir(1)] Some by (rule fs_exists)
  ultimately show ?thesis
    using ok refines_query by blast
qed

lemma refines_create:
  assumes ok: "fs_ok im" and room: "room_for im p n"
  shows "refines u (Op_create p n) im"
  using fs_okD(1) [OF ok]
proof (cases rule: dir_or_not [of _ p])
  case (dir ds)
  then have fits: "entry_fits im ds n" "CHR ''/'' \<notin> set n"
    using room by (simp_all add: room_for_def)
  show ?thesis
    by (rule refines_new [OF ok dir fits(2), of 2 "[]"])
      (use create_eq [OF fs_okD(2) [OF ok] dir(1) fits(1), of u] in
        \<open>auto simp: io_bind_def split: option.splits\<close>)
qed (use refines_not_dir [OF ok] in simp)

lemma refines_mkdir:
  assumes ok: "fs_ok im" and room: "room_for im p n"
  shows "refines u (Op_mkdir p n) im"
  using fs_okD(1) [OF ok]
proof (cases rule: dir_or_not [of _ p])
  case (dir ds)
  then have fits: "entry_fits im ds n" "CHR ''/'' \<notin> set n"
    using room by (simp_all add: room_for_def)
  show ?thesis
  proof (cases "n = ''.'' \<or> n = ''..''")
    case True
    obtain a where "check_dir_inode p im = Inr ((OK, a), im)"
      using check_dir_ok [OF fs_okD(2) [OF ok] dir(1)] .
    then have "run_op u (Op_mkdir p n) im = Inr ((IOERR, Nothing), im)"
      using True by (auto simp: mkdir_def io_bind_def)
    moreover have "fs_step (abs_fs im) (Op_mkdir p n) (IOERR, Nothing) (abs_fs im)"
      using abs_fs_dir [OF dir(1)] True by (rule fs_mkdir_dots)
    ultimately show ?thesis
      using ok fs_okD(2) refines_query same_refl by blast
  next
    case False
    have "node_of (1, []) = Dir []"
      using node_of_dir [of "[]"] by (simp add: names_ok_def print_dir_def)
    then show ?thesis
      using mkdir_eq [OF fs_okD(2) [OF ok] dir(1) fits(1), of u] False
      by (intro refines_new [OF ok dir fits(2), of 1 "[]"])
        (auto simp: io_bind_def split: option.splits)
  qed
qed (use refines_not_dir [OF ok] in simp)

lemma refines_symlink:
  assumes ok: "fs_ok im" and room: "room_for_link im p n t"
  shows "refines u (Op_symlink p n t) im"
  using fs_okD(1) [OF ok]
proof (cases rule: dir_or_not [of _ p])
  case (dir ds)
  then have fits: "link_fits im ds n t" "CHR ''/'' \<notin> set n"
    using room by (simp_all add: room_for_link_def)
  show ?thesis
    by (rule refines_new [OF ok dir fits(2), of 3 t])
      (use create_symbolic_link_eq [OF fs_okD(2) [OF ok] dir(1) fits(1), of u] in
        \<open>auto simp: io_bind_def split: option.splits\<close>)
qed (use refines_not_dir [OF ok] in simp)

text \<open>Removal and queries of a directory.\<close>

lemma refines_unlink:
  assumes ok: "fs_ok im"
  shows "refines u (Op_unlink p n) im"
  using fs_okD(1) [OF ok]
proof (cases rule: dir_or_not [of _ p])
  case (dir ds)
  note eq = unlink_eq [OF fs_okD(2) [OF ok] dir(1), of n] and s = abs_fs_dir [OF dir(1)]
  show ?thesis
  proof (cases "dir_find ds n")
    case None
    then obtain im' where "run_op u (Op_unlink p n) im = Inr ((NOENT, Nothing), im')" "same im im'"
      using eq by (auto simp: io_bind_def)
    then show ?thesis
      using fs_unlink_absent [where s = "abs_fs im"] s None ok refines_query by blast
  next
    case (Some i)
    show ?thesis
    proof (cases "\<exists>c. files im (eid_inum i) = Some (2, c)")
      case False
      then obtain im' where "run_op u (Op_unlink p n) im = Inr ((IOERR, Nothing), im')" "same im im'"
        using eq Some by (auto simp: io_bind_def)
      moreover have "\<nexists>c. abs_fs im (eid_inum i) = Some (File c)"
        using False abs_fs_file [OF ok] by simp
      ultimately show ?thesis
        using fs_unlink_refused [where s = "abs_fs im"] s Some ok refines_query by blast
    next
      case True
      then obtain c im' where c: "files im (eid_inum i) = Some (2, c)" and r: "unlink p n im = Inr (OK, im')" "fs_inv im'"
        "files im' = (files im)(eid_inum i := None, eid_inum p \<mapsto> (1, print_dir (filter (\<lambda>d. d_name d \<noteq> n) ds)))"
        using eq Some by auto
      have names: "names_ok (filter (\<lambda>d. d_name d \<noteq> n) ds)"
        using dir(1) by (auto simp: is_dir_def names_ok_def)
      show ?thesis
      proof (rule refinesI)
        show "run_op u (Op_unlink p n) im = Inr ((OK, Nothing), im')"
          using r(1) by (simp add: io_bind_def)
        show "fs_ok im'"
          using client_inv_unlink [OF fs_okD(1) [OF ok] dir c r(2,3)] fs_okD(3) [OF ok]
          by (simp add: fs_ok_def r(3) typed_upd)
        show "abs_fs im' = (abs_fs im)(eid_inum i := None, eid_inum p \<mapsto> Dir (filter (\<lambda>d. d_name d \<noteq> n) ds))"
          using node_of_dir [OF names] by (simp add: abs_fs_def r(3))
        show "fs_step (abs_fs im) (Op_unlink p n) (OK, Nothing) \<dots>"
          using s Some abs_fs_file(1) [OF ok] c by (intro fs_unlink) auto
      qed
    qed
  qed
qed (use refines_not_dir [OF ok] in simp)

lemma refines_lookup:
  assumes ok: "fs_ok im"
  shows "refines u (Op_lookup p n) im"
  using fs_okD(1) [OF ok]
proof (cases rule: dir_or_not [of _ p])
  case (dir ds)
  obtain im' where l: "lookup p n False u im = Inr ((case dir_find ds n of
      None \<Rightarrow> (OK, False, u) | Some i \<Rightarrow> (OK, True, i)), im')" "same im im'"
    using lookup_ok [OF fs_okD(2) [OF ok] dir(1)] .
  then have "run_op u (Op_lookup p n) im = Inr ((OK, case dir_find ds n of None \<Rightarrow> Nothing | Some i \<Rightarrow> Ino i), im')"
    by (simp add: io_bind_def split: option.splits)
  then show ?thesis
    using refines_query [OF _ ok l(2)] fs_lookup [where s = "abs_fs im"] abs_fs_dir [OF dir(1)] by blast
qed (use refines_not_dir [OF ok] in simp)

lemma refines_readdir:
  assumes ok: "fs_ok im"
  shows "refines u (Op_readdir p) im"
  using fs_okD(1) [OF ok]
proof (cases rule: dir_or_not [of _ p])
  case (dir ds)
  obtain im' where r: "readdir p [] im = Inr ((OK, [] @ ds), im')" "same im im'"
    using readdir_ok [OF fs_okD(2) [OF ok] dir(1)] .
  then have "run_op u (Op_readdir p) im = Inr ((OK, Listing ds), im')"
    by (simp add: io_bind_def)
  then show ?thesis
    using refines_query [OF _ ok r(2)] fs_readdir [where s = "abs_fs im"] abs_fs_dir [OF dir(1)] by blast
qed (use refines_not_dir [OF ok] in simp)

lemma refines_readlink:
  assumes ok: "fs_ok im"
  shows "refines u (Op_readlink i) im"
proof (cases "\<exists>t. abs_fs im (eid_inum i) = Some (Link t)")
  case True
  then obtain t where t: "abs_fs im (eid_inum i) = Some (Link t)"
    by blast
  then obtain im' where r: "parse_symbolic_link [] i im = Inr ((OK, t), im')" "same im im'"
    using parse_symbolic_link_eq [OF fs_okD(2) [OF ok], where ino = i and buf = "[]"]
    by (auto simp: abs_fs_file [OF ok])
  then have "run_op u (Op_readlink i) im = Inr ((OK, Bytes t), im')"
    by (simp add: io_bind_def)
  then show ?thesis
    using refines_query [OF _ ok r(2)] fs_readlink [where s = "abs_fs im"] t by blast
next
  case False
  then have "parse_symbolic_link [] i im = Inr ((IOERR, []), im)"
    using parse_symbolic_link_eq [OF fs_okD(2) [OF ok], where ino = i and buf = "[]"]
    by (auto simp: abs_fs_file [OF ok] split: option.splits)
  then have "run_op u (Op_readlink i) im = Inr ((IOERR, Nothing), im)"
    by (simp add: io_bind_def)
  then show ?thesis
    using refines_query [OF _ ok] fs_readlink_other [where s = "abs_fs im"] False same_refl fs_okD(2) [OF ok] by blast
qed

text \<open>Data.\<close>

lemma refines_read:
  assumes ok: "fs_ok im" and off: "0 \<le> sint off"
  shows "refines u (Op_read i sz off) im"
proof (cases "files im (eid_inum i)")
  case None
  then obtain im' where r: "chfs_read i sz off [] im = Inr ((OK, []), im')" "same im im'"
    using absent_ok(1) [OF fs_okD(2) [OF ok] None off, of sz "replicate (unat sz) NUL"] by auto
  have "fs_step (abs_fs im) (Op_read i sz off) (OK, Bytes []) (abs_fs im)"
    by (rule fs_read_absent) (simp add: None abs_fs_at)
  then show ?thesis
    using r(1) by (intro refines_query [OF _ ok r(2)]) (simp_all add: io_bind_def)
next
  case (Some tc)
  then obtain t c where f: "files im (eid_inum i) = Some (t, c)"
    by (cases tc) simp
  obtain im' where r: "chfs_read i sz off [] im = Inr ((OK, take (unat sz) (drop (unat off) c)), im')" "same im im'"
    using chfs_read_eq [OF fs_okD(2) [OF ok] f off] by metis
  have "fs_step (abs_fs im) (Op_read i sz off) (OK, Bytes (take (unat sz) (drop (unat off) c))) (abs_fs im)"
    using fs_read [of "abs_fs im" i "node_of (t, c)" sz off] f by (simp add: abs_fs_at bytes_of_node [OF ok f])
  then show ?thesis
    using r(1) by (intro refines_query [OF _ ok r(2)]) (simp_all add: io_bind_def)
qed

lemma refines_bytes:
  assumes ok: "fs_ok im" and f: "files im k = Some (t, c)" "t \<noteq> 1"
    and im': "fs_inv im'" "files im' = (files im)(k \<mapsto> (t, d))"
  shows "fs_ok im'" "abs_fs im' = (abs_fs im)(k \<mapsto> with_bytes (node_of (t, c)) d)"
proof -
  have t: "t = 2 \<or> t = 3"
    using fs_okD(4) [OF ok f(1)] f(2) by blast
  have "typed ((files im)(k \<mapsto> (t, d)))"
    using fs_okD(3) [OF ok] t by (intro typed_upd) auto
  then show "fs_ok im'"
    using client_inv_file [OF fs_okD(1) [OF ok] f im'] im'(2) by (simp add: fs_ok_def)
  show "abs_fs im' = (abs_fs im)(k \<mapsto> with_bytes (node_of (t, c)) d)"
    by (simp add: abs_fs_def im'(2) with_bytes_node [OF t])
qed

lemma refines_write:
  assumes ok: "fs_ok im" and room: "room_for_data im i sz off dat"
  shows "refines u (Op_write i sz off dat) im"
proof (cases "files im (eid_inum i)")
  case None
  then obtain im' where r: "chfs_write i sz off dat u im = Inr ((OK, sz), im')" "same im im'"
    using absent_ok(2) [OF fs_okD(2) [OF ok] None, of off sz dat u] room by (auto simp: room_for_data_def)
  have "fs_step (abs_fs im) (Op_write i sz off dat) (OK, Count sz) (abs_fs im)"
    by (rule fs_write_absent) (simp add: None abs_fs_at)
  then show ?thesis
    using r(1) by (intro refines_query [OF _ ok r(2)]) (simp_all add: io_bind_def)
next
  case (Some tc)
  then obtain t c where f: "files im (eid_inum i) = Some (t, c)"
    by (cases tc) simp
  then have pre: "0 \<le> sint off" "unat sz \<le> length dat" "unat off + unat sz \<le> BLOCK_SIZE * MAXFILE"
    "cost (unat off + unat sz) \<le> bm_free (im_bm im) + cost (length c)" "t \<noteq> 1"
    using room by (auto simp: room_for_data_def)
  obtain im' where r: "chfs_write i sz off dat u im = Inr ((OK, sz), im')" "fs_inv im'"
    "files im' = (files im)(eid_inum i \<mapsto> (t, splice c (unat off) (take (unat sz) dat)))"
    by (rule chfs_write_eq [OF fs_okD(2) [OF ok] f pre(1-4)])
  note new = refines_bytes [OF ok f pre(5) r(2,3)]
  have "abs_fs im (eid_inum i) = Some (node_of (t, c))"
    using f by (simp add: abs_fs_at)
  from fs_write [where s = "abs_fs im", OF this, of sz off dat] show ?thesis
    using r(1) new by (intro refinesI) (simp_all add: io_bind_def bytes_of_node [OF ok f])
qed

lemma refines_setsize:
  assumes ok: "fs_ok im" and nd: "\<nexists>c. files im (eid_inum i) = Some (1, c)"
  shows "refines u (Op_setsize i sz) im"
proof (cases "files im (eid_inum i)")
  case None
  then obtain im' where r: "setattr i sz im = Inr (OK, im')" "same im im'"
    using absent_ok(3) [OF fs_okD(2) [OF ok] None, of 0 sz "replicate (unat sz) NUL"] by auto
  have "fs_step (abs_fs im) (Op_setsize i sz) (OK, Nothing) (abs_fs im)"
    by (rule fs_setsize_absent) (simp add: None abs_fs_at)
  then show ?thesis
    using r(1) by (intro refines_query [OF _ ok r(2)]) (simp_all add: io_bind_def)
next
  case (Some tc)
  then obtain t c where f: "files im (eid_inum i) = Some (t, c)"
    by (cases tc) simp
  then have t: "t \<noteq> 1"
    using nd by auto
  obtain im' where r: "setattr i sz im = Inr (OK, im')" "fs_inv im'"
    "files im' = (files im)(eid_inum i \<mapsto> (t, take (unat sz) c))"
    using setattr_eq [OF fs_okD(2) [OF ok] f] .
  note new = refines_bytes [OF ok f t r(2,3)]
  have "abs_fs im (eid_inum i) = Some (node_of (t, c))"
    using f by (simp add: abs_fs_at)
  from fs_setsize [where s = "abs_fs im", OF this, of sz] show ?thesis
    using r(1) new by (intro refinesI) (simp_all add: io_bind_def bytes_of_node [OF ok f])
qed

lemma refines_op: "fs_ok im \<Longrightarrow> op_ok im op \<Longrightarrow> refines u op im"
  by (cases op) (simp_all add: refines_create refines_mkdir refines_symlink refines_unlink refines_lookup
      refines_readdir refines_readlink refines_read refines_write refines_setsize del: run_op.simps)

section \<open>Sequences of operations\<close>

text \<open>The operations a session of the client performs, with their outcomes, and what is a possible
  behaviour of the abstract file system.\<close>

inductive client_trace :: "inode_manager \<Rightarrow> (fs_op \<times> outcome) list \<Rightarrow> inode_manager \<Rightarrow> bool" where
  client_trace_Nil: "client_trace im [] im"
| client_trace_Cons: "op_ok im op \<Longrightarrow> run_op u op im = Inr (out, im1) \<Longrightarrow> client_trace im1 tr im2 \<Longrightarrow>
    client_trace im ((op, out) # tr) im2"

inductive fs_trace :: "fs \<Rightarrow> (fs_op \<times> outcome) list \<Rightarrow> fs \<Rightarrow> bool" where
  fs_trace_Nil: "fs_trace s [] s"
| fs_trace_Cons: "fs_step s op out s1 \<Longrightarrow> fs_trace s1 tr s2 \<Longrightarrow> fs_trace s ((op, out) # tr) s2"

lemma trace_refines: "client_trace im tr im' \<Longrightarrow> fs_ok im \<Longrightarrow> fs_ok im' \<and> fs_trace (abs_fs im) tr (abs_fs im')"
proof (induction rule: client_trace.induct)
  case (client_trace_Cons im op u out im1 tr im2)
  have "fs_ok im1" "fs_step (abs_fs im) op out (abs_fs im1)"
    using refines_op [OF client_trace_Cons.prems client_trace_Cons.hyps(1), of u] client_trace_Cons.hyps(2)
    by (auto simp: refines_def)
  then show ?case
    using client_trace_Cons.IH fs_trace_Cons [of "abs_fs im"] by blast
qed (simp add: fs_trace_Nil)

text \<open>The abstract file system with an empty root.\<close>

definition fs_init :: fs where
  "fs_init = [1 \<mapsto> Dir []]"

lemma client_init_ok:
  assumes "chfs_client_init junk e = Inr im"
  shows "fs_ok im" "abs_fs im = fs_init"
proof -
  have im: "client_inv im" "files im = [1 \<mapsto> (1, [])]"
    using client_init_eq [OF assms] by blast+
  then show "fs_ok im"
    by (simp add: fs_ok_def typed_def)
  have "node_of (1, []) = Dir []"
    using node_of_dir [of "[]"] by (simp add: names_ok_def print_dir_def)
  then show "abs_fs im = fs_init"
    by (auto simp: abs_fs_def abs_files_def im(2) fs_init_def)
qed

text \<open>C2. The client refines the abstract file system. From a well-formed state every admissible operation
  returns, without a fault; its status and its answer are those of a step of the abstract file system on
  the nodes of the state, and the new state is well formed and shows the nodes after that step.\<close>

theorem client_refines:
  assumes "fs_ok im" "op_ok im op"
  shows "\<exists>out im'. run_op u op im = Inr (out, im') \<and> fs_ok im' \<and> fs_step (abs_fs im) op out (abs_fs im')"
  using refines_op [OF assms] by (simp add: refines_def)

theorem client_refines_witness:
  "\<exists>i im'. run_op 7 (Op_mkdir 1 ''d'') (root_im sample_env) = Inr ((OK, Ino i), im') \<and>
     abs_fs im' = add_entry (abs_fs (root_im sample_env)) 1 [] ''d'' i (Dir [])"
proof -
  have ok: "fs_ok (root_im sample_env)"
    using sample_root by (simp add: fs_ok_def typed_def)
  have root: "abs_fs (root_im sample_env) 1 = Some (Dir [])"
    using abs_fs_dir [OF sample_root(2)] sample_root(5) by simp
  have "op_ok (root_im sample_env) (Op_mkdir 1 ''d'')"
    using sample_fits(1) [of "''d''"] is_dir_unique [OF sample_root(2)] by (auto simp: room_for_def)
  then obtain out im' where r: "run_op 7 (Op_mkdir 1 ''d'') (root_im sample_env) = Inr (out, im')"
    "fs_step (abs_fs (root_im sample_env)) (Op_mkdir 1 ''d'') out (abs_fs im')"
    using client_refines [OF ok] by blast
  from r(2) show ?thesis
    by cases (use r(1) root sample_root(5) in \<open>auto simp: dir_find_def\<close>)
qed

end
