(* ===== verification/Namespace.thy ===== *)
theory Namespace
  imports Abstract_Fs
begin

text \<open>
  The name space: in every state that a session of the client can reach, the directories form a tree. The
  numbers in use are 1 to 1024, every entry that carries a number refers to a node, every node but the root
  has exactly one entry, and every node is reached from the root; so every node has exactly one path.
\<close>

section \<open>Trees\<close>

definition entry_at :: "fs \<Rightarrow> u32 \<Rightarrow> dirent \<Rightarrow> bool" where
  "entry_at s k d \<longleftrightarrow> (\<exists>ds. s k = Some (Dir ds) \<and> d \<in> set ds)"

definition edge :: "fs \<Rightarrow> u32 \<Rightarrow> u32 \<Rightarrow> bool" where
  "edge s k j \<longleftrightarrow> (\<exists>d. entry_at s k d \<and> d_inum d \<noteq> 0 \<and> eid_inum (d_inum d) = j)"

text \<open>An entry with the number 0 is what \<open>create\<close> leaves when no inode is free; it refers to
  nothing.\<close>

definition tree :: "fs \<Rightarrow> bool" where
  "tree s \<longleftrightarrow> (\<exists>ds. s 1 = Some (Dir ds)) \<and>
     (\<forall>k. s k \<noteq> None \<longrightarrow> k \<noteq> 0 \<and> k \<le> 1024) \<and>
     (\<forall>k ds. s k = Some (Dir ds) \<longrightarrow> distinct (map d_name ds)) \<and>
     (\<forall>k d. entry_at s k d \<and> d_inum d \<noteq> 0 \<longrightarrow>
        d_inum d \<noteq> 1 \<and> d_inum d \<le> 1024 \<and> s (eid_inum (d_inum d)) \<noteq> None) \<and>
     (\<forall>k d k' d'. entry_at s k d \<and> entry_at s k' d' \<and> d_inum d = d_inum d' \<and> d_inum d \<noteq> 0 \<longrightarrow>
        k = k' \<and> d = d') \<and>
     (\<forall>k. s k \<noteq> None \<longrightarrow> (edge s)\<^sup>*\<^sup>* 1 k)"

lemma treeD:
  assumes "tree s"
  shows "\<exists>ds. s 1 = Some (Dir ds)" "s k \<noteq> None \<Longrightarrow> k \<noteq> 0 \<and> k \<le> 1024"
    "s k = Some (Dir ds) \<Longrightarrow> distinct (map d_name ds)"
    "entry_at s k d \<Longrightarrow> d_inum d \<noteq> 0 \<Longrightarrow> d_inum d \<noteq> 1 \<and> d_inum d \<le> 1024 \<and> s (eid_inum (d_inum d)) \<noteq> None"
    "entry_at s k d \<Longrightarrow> entry_at s k' d' \<Longrightarrow> d_inum d = d_inum d' \<Longrightarrow> d_inum d \<noteq> 0 \<Longrightarrow> k = k' \<and> d = d'"
    "s k \<noteq> None \<Longrightarrow> (edge s)\<^sup>*\<^sup>* 1 k"
  using assms unfolding tree_def by blast+

lemma eid_inum_small:
  "i \<le> 1024 \<Longrightarrow> unat (eid_inum i) = unat i"
  "i \<le> 1024 \<Longrightarrow> j \<le> 1024 \<Longrightarrow> eid_inum i = eid_inum j \<longleftrightarrow> i = j"
  "i \<le> 1024 \<Longrightarrow> i \<noteq> 0 \<Longrightarrow> eid_inum i \<noteq> 0 \<and> eid_inum i \<le> 1024"
  "eid_inum 0 = 0" "eid_inum 1 = 1"
proof -
  show eq: "unat (eid_inum i) = unat i" if "i \<le> 1024" for i :: u64
    using that by (simp add: eid_inum_unat word_le_nat_alt)
  show "eid_inum i = eid_inum j \<longleftrightarrow> i = j" if "i \<le> 1024" "j \<le> 1024"
    using eq that by (metis word_unat_eq_iff)
  show "eid_inum i \<noteq> 0 \<and> eid_inum i \<le> 1024" if "i \<le> 1024" "i \<noteq> 0"
    using eq [OF that(1)] that by (auto simp: word_le_nat_alt word_unat_eq_iff)
qed (simp_all add: eid_inum_def)

lemma dir_find_Some:
  assumes "dir_find ds n = Some i"
  obtains d where "d \<in> set ds" "d_name d = n" "d_inum d = i"
  using assms by (auto simp: dir_find_def find_Some_iff intro: that [OF nth_mem])

section \<open>Every step keeps the tree\<close>

text \<open>A step that leaves the directories and the numbers in use alone.\<close>

lemma tree_same_dirs:
  assumes "tree s" "dom s' = dom s" "\<And>k ds. s' k = Some (Dir ds) \<longleftrightarrow> s k = Some (Dir ds)"
  shows "tree s'"
proof -
  have e: "entry_at s' = entry_at s" "edge s' = edge s"
    by (simp_all add: entry_at_def edge_def assms(3) fun_eq_iff)
  have dom: "s' k \<noteq> None \<longleftrightarrow> s k \<noteq> None" for k
    using assms(2) unfolding dom_def by blast
  show ?thesis
    using assms(1) unfolding tree_def e assms(3) dom .
qed

lemma new_node_no_entries: "new_node op = Some (p, n, nd) \<Longrightarrow> nd = Dir ds \<Longrightarrow> ds = []"
  by (cases op) (auto split: if_splits)

lemma add_entry_facts:
  assumes op: "new_node op = Some (p, n, nd)" and dir: "s (eid_inum p) = Some (Dir ds)" and new: "fresh s i"
  defines "s' \<equiv> add_entry s p ds n i nd" and "d0 \<equiv> \<lparr>d_name = n, d_inum = i\<rparr>"
  shows "s' k \<noteq> None \<longleftrightarrow> s k \<noteq> None \<or> i \<noteq> 0 \<and> k = eid_inum i"
    "s' k = Some (Dir ds') \<Longrightarrow>
       k = eid_inum p \<and> ds' = ds @ [d0] \<or> k \<noteq> eid_inum p \<and> s k = Some (Dir ds') \<or> ds' = []"
    "entry_at s' k d \<longleftrightarrow> entry_at s k d \<or> k = eid_inum p \<and> d = d0"
    "\<exists>ds. s 1 = Some (Dir ds) \<Longrightarrow> \<exists>ds. s' 1 = Some (Dir ds)"
proof -
  have fresh: "i \<noteq> 0 \<Longrightarrow> s (eid_inum i) = None"
    using new by (simp add: fresh_def)
  have at: "s' k = (if k = eid_inum p then Some (Dir (ds @ [d0])) else if i \<noteq> 0 \<and> k = eid_inum i then Some nd else s k)" for k
    by (simp add: s'_def d0_def add_entry_def)
  show "s' k \<noteq> None \<longleftrightarrow> s k \<noteq> None \<or> i \<noteq> 0 \<and> k = eid_inum i"
    using dir by (simp add: at)
  show "k = eid_inum p \<and> ds' = ds @ [d0] \<or> k \<noteq> eid_inum p \<and> s k = Some (Dir ds') \<or> ds' = []" if "s' k = Some (Dir ds')"
    using that new_node_no_entries [OF op, of ds'] unfolding at by (simp split: if_splits)
  show "\<exists>ds. s' 1 = Some (Dir ds)" if "\<exists>ds. s 1 = Some (Dir ds)"
    using that fresh unfolding at by auto
  show "entry_at s' k d \<longleftrightarrow> entry_at s k d \<or> k = eid_inum p \<and> d = d0"
  proof (cases "k \<noteq> eid_inum p \<and> i \<noteq> 0 \<and> k = eid_inum i")
    case True
    then have "s k = None" "s' k = Some nd" "k \<noteq> eid_inum p"
      using fresh at [of k] by metis+
    moreover have "\<not> (nd = Dir ds' \<and> d \<in> set ds')" for ds'
      using new_node_no_entries [OF op, of ds'] by auto
    ultimately show ?thesis
      unfolding entry_at_def by simp
  next
    case False
    then show ?thesis
      using dir unfolding entry_at_def at by (cases "k = eid_inum p") auto
  qed
qed

lemma add_entry_reach:
  assumes tree: "tree s" and op: "new_node op = Some (p, n, nd)" and dir: "s (eid_inum p) = Some (Dir ds)"
    and new: "fresh s i" and k: "add_entry s p ds n i nd k \<noteq> None"
  shows "(edge (add_entry s p ds n i nd))\<^sup>*\<^sup>* 1 k"
proof -
  let ?s = "add_entry s p ds n i nd" and ?p = "eid_inum p"
  note facts = add_entry_facts [OF op dir new]
  note dom = facts(1) and ent = facts(3)
  have "edge s k j \<Longrightarrow> edge ?s k j" for k j
    unfolding edge_def ent by blast
  then have reach: "(edge s)\<^sup>*\<^sup>* 1 k \<Longrightarrow> (edge ?s)\<^sup>*\<^sup>* 1 k" for k
    by (metis mono_rtranclp)
  have "edge ?s ?p (eid_inum i)" if "i \<noteq> 0"
    using that unfolding edge_def ent by auto
  moreover have "(edge ?s)\<^sup>*\<^sup>* 1 ?p"
    using reach treeD(6) [OF tree] dir by simp
  ultimately show ?thesis
    using k reach treeD(6) [OF tree] unfolding dom by (metis rtranclp.rtrancl_into_rtrancl)
qed

lemma tree_new:
  assumes tree: "tree s" and op: "new_node op = Some (p, n, nd)" and dir: "s (eid_inum p) = Some (Dir ds)"
    and new: "dir_find ds n = None" "fresh s i"
  shows "tree (add_entry s p ds n i nd)"
proof -
  let ?s = "add_entry s p ds n i nd" and ?p = "eid_inum p"
  note facts = add_entry_facts [OF op dir new(2)]
  note dom = facts(1) and ent = facts(3)
  have i: "i \<le> 1024" "i \<noteq> 0 \<Longrightarrow> s (eid_inum i) = None"
    using new(2) by (simp_all add: fresh_def split: if_splits)
  have "(edge ?s)\<^sup>*\<^sup>* 1 k" if "?s k \<noteq> None" for k
    by (rule add_entry_reach [OF tree op dir new(2) that])
  moreover have "distinct (map d_name ds')" if "?s k = Some (Dir ds')" for k ds'
    using facts(2) [OF that] treeD(3) [OF tree] dir new(1) by (auto simp: dir_find_None)
  moreover have "d_inum d \<noteq> 1 \<and> d_inum d \<le> 1024 \<and> ?s (eid_inum (d_inum d)) \<noteq> None"
    if "entry_at ?s k d" "d_inum d \<noteq> 0" for k d
  proof (cases "entry_at s k d")
    case True
    then show ?thesis
      using treeD(4) [OF tree True that(2)] unfolding dom by blast
  next
    case False
    then have "d_inum d = i"
      using that(1) unfolding ent by simp
    moreover from this have "i \<noteq> 1"
      using treeD(1) [OF tree] i(2) that(2) eid_inum_small(5) by auto
    ultimately show ?thesis
      using i(1) that(2) unfolding dom by blast
  qed
  moreover have "k = k' \<and> d = d'"
    if "entry_at ?s k d" "entry_at ?s k' d'" "d_inum d = d_inum d'" "d_inum d \<noteq> 0" for k d k' d'
  proof -
    have "\<not> entry_at s k d" if "d_inum d = i" "d_inum d \<noteq> 0" for k d
      using treeD(4) [OF tree] i(2) that by blast
    then show ?thesis
      using that treeD(5) [OF tree] unfolding ent by (metis dirent.select_convs(2))
  qed
  moreover have "k \<noteq> 0 \<and> k \<le> 1024" if "?s k \<noteq> None" for k
    using that treeD(2) [OF tree, of k] eid_inum_small(3) [OF i(1)] unfolding dom by metis
  ultimately show ?thesis
    using facts(4) [OF treeD(1) [OF tree]] unfolding tree_def by blast
qed

text \<open>The store after \<open>unlink\<close>: the node is gone, and of the entries only the one by that name.\<close>

definition drop_entry :: "fs \<Rightarrow> u64 \<Rightarrow> dirent list \<Rightarrow> string \<Rightarrow> u64 \<Rightarrow> fs" where
  "drop_entry s p ds n i = s(eid_inum i := None, eid_inum p \<mapsto> Dir (filter (\<lambda>d. d_name d \<noteq> n) ds))"

lemma drop_entry_facts:
  assumes dir: "s (eid_inum p) = Some (Dir ds)" and f: "s (eid_inum i) = Some (File c)"
  shows "drop_entry s p ds n i k \<noteq> None \<longleftrightarrow> s k \<noteq> None \<and> k \<noteq> eid_inum i"
    and "entry_at (drop_entry s p ds n i) k d \<longleftrightarrow> entry_at s k d \<and> \<not> (k = eid_inum p \<and> d_name d = n)"
proof -
  let ?p = "eid_inum p" and ?i = "eid_inum i"
  let ?s = "drop_entry s p ds n i"
  have ne: "?i \<noteq> ?p"
    using f dir by auto
  have at: "?s k = (if k = ?p then Some (Dir (filter (\<lambda>d. d_name d \<noteq> n) ds)) else if k = ?i then None else s k)" for k
    by (simp add: drop_entry_def)
  show "entry_at ?s k d \<longleftrightarrow> entry_at s k d \<and> \<not> (k = ?p \<and> d_name d = n)"
  proof (cases "k = ?p")
    case False
    then have "?s k = (if k = ?i then None else s k)"
      using at [of k] by simp
    then show ?thesis
      using False f unfolding entry_at_def by (cases "k = ?i") simp_all
  qed (use dir at in \<open>auto simp: entry_at_def\<close>)
  show "?s k \<noteq> None \<longleftrightarrow> s k \<noteq> None \<and> k \<noteq> ?i"
    using at [of k] dir ne by (metis option.distinct(1))
qed

lemma tree_entry_unique:
  assumes tree: "tree s" and at: "entry_at s p0 d0" "d_inum d0 \<noteq> 0"
    and e: "entry_at s k d" "d_inum d \<noteq> 0" "eid_inum (d_inum d) = eid_inum (d_inum d0)"
  shows "k = p0 \<and> d = d0"
proof -
  have "d_inum d = d_inum d0"
    using treeD(4) [OF tree e(1,2)] treeD(4) [OF tree at] e(3) eid_inum_small(2) by blast
  then show ?thesis
    by (rule treeD(5) [OF tree e(1) at(1) _ e(2)])
qed

lemma drop_entry_reach:
  assumes tree: "tree s" and dir: "s (eid_inum p) = Some (Dir ds)" "dir_find ds n = Some i"
    and f: "s (eid_inum i) = Some (File c)"
  shows "(edge s)\<^sup>*\<^sup>* 1 k \<Longrightarrow> k \<noteq> eid_inum i \<Longrightarrow> (edge (drop_entry s p ds n i))\<^sup>*\<^sup>* 1 k"
proof (induction rule: rtranclp_induct)
  let ?p = "eid_inum p" and ?i = "eid_inum i"
  let ?s = "drop_entry s p ds n i"
  case (step y z)
  obtain d where d: "entry_at s y d" "d_inum d \<noteq> 0" "eid_inum (d_inum d) = z"
    using step.hyps(2) by (auto simp: edge_def)
  have "y \<noteq> ?i"
    using d(1) f by (auto simp: entry_at_def)
  then have "(edge ?s)\<^sup>*\<^sup>* 1 y"
    by (rule step.IH)
  moreover have "\<not> (y = ?p \<and> d_name d = n)"
  proof
    assume y: "y = ?p \<and> d_name d = n"
    then have "d \<in> set ds"
      using d(1) dir(1) by (simp add: entry_at_def)
    then have "dir_find ds n = Some (d_inum d)"
      using dir_find_distinct [OF treeD(3) [OF tree dir(1)]] y by blast
    then show False
      using dir(2) d(3) step.prems by simp
  qed
  then have "edge ?s y z"
    using d unfolding edge_def drop_entry_facts(2) [OF dir(1) f] by blast
  ultimately show ?case
    by (rule rtranclp.rtrancl_into_rtrancl)
qed simp

lemma tree_unlink:
  assumes tree: "tree s" and dir: "s (eid_inum p) = Some (Dir ds)" "dir_find ds n = Some i"
    and f: "s (eid_inum i) = Some (File c)"
  shows "tree (drop_entry s p ds n i)"
proof -
  let ?s = "drop_entry s p ds n i"
  note dom = drop_entry_facts(1) [OF dir(1) f, of n] and ent = drop_entry_facts(2) [OF dir(1) f, of n]
  note reach = drop_entry_reach [OF tree dir f]
  obtain d0 where d0: "d0 \<in> set ds" "d_name d0 = n" "d_inum d0 = i"
    using dir(2) by (rule dir_find_Some)
  have e0: "entry_at s (eid_inum p) d0" and i0: "d_inum d0 \<noteq> 0"
    using f dir(1) d0 treeD(2) [OF tree, of 0] eid_inum_small(4) by (auto simp: entry_at_def)
  note only = tree_entry_unique [OF tree e0 i0, unfolded d0(3)]
  have "(edge ?s)\<^sup>*\<^sup>* 1 k" if "?s k \<noteq> None" for k
    using that reach treeD(6) [OF tree] unfolding dom by blast
  moreover have "distinct (map d_name ds')" if "?s k = Some (Dir ds')" for k ds'
    using that treeD(3) [OF tree] dir(1) by (auto simp: drop_entry_def distinct_map_filter split: if_splits)
  moreover have "d_inum d \<noteq> 1 \<and> d_inum d \<le> 1024 \<and> ?s (eid_inum (d_inum d)) \<noteq> None"
    if "entry_at ?s k d" "d_inum d \<noteq> 0" for k d
    using that treeD(4) [OF tree] only d0(2) unfolding ent dom by blast
  moreover have "k = k' \<and> d = d'"
    if "entry_at ?s k d" "entry_at ?s k' d'" "d_inum d = d_inum d'" "d_inum d \<noteq> 0" for k d k' d'
    using that treeD(5) [OF tree] unfolding ent by blast
  moreover have "k \<noteq> 0 \<and> k \<le> 1024" if "?s k \<noteq> None" for k
    using that treeD(2) [OF tree] unfolding dom by blast
  moreover have "\<exists>ds. ?s 1 = Some (Dir ds)"
    using treeD(1) [OF tree] f by (auto simp: drop_entry_def)
  ultimately show ?thesis
    unfolding tree_def by blast
qed

lemma tree_with_bytes:
  assumes "tree s" "s k = Some nd"
  shows "tree (s(k \<mapsto> with_bytes nd c))"
proof (rule tree_same_dirs [OF assms(1)])
  show "dom (s(k \<mapsto> with_bytes nd c)) = dom s"
    using assms(2) by auto
  have "with_bytes nd c = Dir ds \<longleftrightarrow> nd = Dir ds" for ds
    by (cases nd) simp_all
  then show "(s(k \<mapsto> with_bytes nd c)) j = Some (Dir ds) \<longleftrightarrow> s j = Some (Dir ds)" for j ds
    using assms(2) by simp
qed

lemma tree_step: "fs_step s op out s' \<Longrightarrow> tree s \<Longrightarrow> tree s'"
  by (induction rule: fs_step.induct) (rule tree_new tree_unlink [unfolded drop_entry_def] tree_with_bytes; assumption | assumption)+

lemma tree_trace: "fs_trace s tr s' \<Longrightarrow> tree s \<Longrightarrow> tree s'"
  by (induction rule: fs_trace.induct) (auto intro: tree_step)

lemma tree_init: "tree fs_init"
proof -
  have dom: "fs_init k \<noteq> None \<Longrightarrow> k = 1" and root: "fs_init 1 = Some (Dir [])" for k
    by (simp_all add: fs_init_def split: if_splits)
  have "\<not> entry_at fs_init k d" for k d
    by (simp add: entry_at_def fs_init_def)
  moreover have "k \<noteq> 0 \<and> k \<le> 1024 \<and> (edge fs_init)\<^sup>*\<^sup>* 1 k" if "fs_init k \<noteq> None" for k
    using dom [OF that] by (simp add: word_le_nat_alt)
  moreover have "distinct (map d_name ds)" if "fs_init k = Some (Dir ds)" for k ds
    using dom [of k] root that by auto
  ultimately show ?thesis
    using root unfolding tree_def by blast
qed

section \<open>Paths\<close>

text \<open>The number a path leads to, looked up name by name.\<close>

fun resolve :: "fs \<Rightarrow> u64 \<Rightarrow> string list \<Rightarrow> u64 option" where
  "resolve s i [] = Some i"
| "resolve s i (n # ns) = (case s (eid_inum i) of
     Some (Dir ds) \<Rightarrow> (case dir_find ds n of
        None \<Rightarrow> None | Some j \<Rightarrow> if j = 0 then None else resolve s j ns)
   | _ \<Rightarrow> None)"

lemma resolve_append:
  "resolve s i (ns @ ns') = (case resolve s i ns of None \<Rightarrow> None | Some j \<Rightarrow> resolve s j ns')"
  by (induction s i ns rule: resolve.induct) (auto split: option.splits node.splits)

lemma resolve_one:
  assumes "tree s"
  shows "resolve s i [n] = Some j \<longleftrightarrow> (\<exists>d. entry_at s (eid_inum i) d \<and> d_name d = n \<and> d_inum d = j \<and> j \<noteq> 0)"
proof (cases "\<exists>ds. s (eid_inum i) = Some (Dir ds)")
  case True
  then obtain ds where ds: "s (eid_inum i) = Some (Dir ds)"
    by blast
  then have "dir_find ds n = Some j \<longleftrightarrow> (\<exists>d\<in>set ds. d_name d = n \<and> d_inum d = j)"
    using dir_find_distinct [OF treeD(3) [OF assms]] dir_find_Some by metis
  then show ?thesis
    using ds by (auto simp: entry_at_def split: option.splits)
qed (auto simp: entry_at_def split: option.splits node.splits)

lemma resolve_snoc:
  assumes "tree s"
  shows "resolve s 1 (ns @ [n]) = Some j \<longleftrightarrow>
    (\<exists>i d. resolve s 1 ns = Some i \<and> entry_at s (eid_inum i) d \<and> d_name d = n \<and> d_inum d = j \<and> j \<noteq> 0)"
  using resolve_one [OF assms] by (auto simp: resolve_append simp del: resolve.simps(2) split: option.splits)

lemma resolve_small: "tree s \<Longrightarrow> resolve s 1 ns = Some i \<Longrightarrow> i \<le> 1024"
  by (cases ns rule: rev_cases) (use treeD(4) resolve_snoc in \<open>auto simp: word_le_nat_alt\<close>)

lemma path_unique: "tree s \<Longrightarrow> resolve s 1 ns = Some i \<Longrightarrow> resolve s 1 ns' = Some i \<Longrightarrow> ns = ns'"
proof (induction ns arbitrary: i ns' rule: rev_induct)
  case Nil
  then show ?case
    using treeD(4) [OF Nil.prems(1)] resolve_snoc [OF Nil.prems(1)] by (cases ns' rule: rev_cases) fastforce+
next
  case (snoc n ns)
  obtain j d where d: "resolve s 1 ns = Some j" "entry_at s (eid_inum j) d" "d_name d = n" "d_inum d = i" "i \<noteq> 0"
    using snoc.prems(2) resolve_snoc [OF snoc.prems(1)] by blast
  then have "i \<noteq> 1"
    using treeD(4) [OF snoc.prems(1) d(2)] by simp
  then obtain ms m where ns': "ns' = ms @ [m]"
    using snoc.prems(3) by (cases ns' rule: rev_cases) auto
  then obtain j' d' where d': "resolve s 1 ms = Some j'" "entry_at s (eid_inum j') d'" "d_name d' = m" "d_inum d' = i"
    using snoc.prems(3) resolve_snoc [OF snoc.prems(1)] by blast
  have "eid_inum j = eid_inum j' \<and> d = d'"
    by (rule treeD(5) [OF snoc.prems(1) d(2) d'(2)]) (use d(4,5) d'(4) in simp_all)
  moreover from this have "j = j'"
    using resolve_small [OF snoc.prems(1)] d(1) d'(1) eid_inum_small(2) by blast
  ultimately show ?case
    using snoc.IH [OF snoc.prems(1) d(1), of ms] d(3) d'(1,3) ns' by simp
qed

lemma path_exists:
  assumes "tree s"
  shows "(edge s)\<^sup>*\<^sup>* 1 k \<Longrightarrow> \<exists>ns i. resolve s 1 ns = Some i \<and> eid_inum i = k"
proof (induction rule: rtranclp_induct)
  case base
  have "resolve s 1 [] = Some 1"
    by simp
  then show ?case
    using eid_inum_small(5) by blast
next
  case (step y z)
  then obtain ns i d where "resolve s 1 ns = Some i" "eid_inum i = y" "entry_at s y d" "d_inum d \<noteq> 0" "eid_inum (d_inum d) = z"
    by (auto simp: edge_def)
  then have "resolve s 1 (ns @ [d_name d]) = Some (d_inum d)"
    unfolding resolve_snoc [OF assms] by blast
  then show ?case
    using \<open>eid_inum (d_inum d) = z\<close> by blast
qed

lemma unique_path:
  assumes "tree s" "s (eid_inum i) \<noteq> None" "i \<le> 1024"
  shows "\<exists>!ns. resolve s 1 ns = Some i"
proof -
  obtain ns j where j: "resolve s 1 ns = Some j" "eid_inum j = eid_inum i"
    using path_exists [OF assms(1) treeD(6) [OF assms(1,2)]] by blast
  then have "j = i"
    using resolve_small [OF assms(1) j(1)] eid_inum_small(2) assms(3) by blast
  then show ?thesis
    using j(1) path_unique [OF assms(1)] by blast
qed

section \<open>The states of a session\<close>

lemma session_ok:
  assumes "chfs_client_init junk e = Inr im0" "client_trace im0 tr im"
  shows "fs_ok im" "fs_trace fs_init tr (abs_fs im)" "tree (abs_fs im)"
proof -
  note init = client_init_ok [OF assms(1)]
  show "fs_ok im" "fs_trace fs_init tr (abs_fs im)"
    using trace_refines [OF assms(2) init(1)] by (simp_all add: init(2))
  then show "tree (abs_fs im)"
    using tree_trace tree_init by blast
qed

text \<open>A session that makes a directory.\<close>

lemma sample_session:
  obtains im0 i im where "chfs_client_init 0 sample_env = Inr im0"
    "client_trace im0 [(Op_mkdir 1 ''d'', (OK, Ino i))] im" "i \<noteq> 0"
proof -
  obtain im0 where put: "ec_put 1 [] (root_im sample_env) = Inr (OK, im0)" "fs_inv im0" "files im0 = [1 \<mapsto> (1, [])]"
    "31732 + cost (length ([] :: byte list)) \<le> bm_free (im_bm im0) + cost (max 1 (length ([] :: byte list)))"
    using es.put_ok [OF sample_root(1), of 1 1 "[]" "[]"] by (auto simp: sample_root)
  then have init: "chfs_client_init 0 sample_env = Inr im0"
    by (simp add: chfs_client_init_def extent_client_init_def extent_server_init_def
        inode_manager_init_eq to_alloc_def word_le_nat_alt)
  have dir: "is_dir im0 1 []"
    by (simp add: is_dir_def put(3) sample_root(5,6) names_ok_def)
  have "31731 \<le> bm_free (im_bm im0)"
    using put(4) by (simp add: cost_def total_def nblk_def)
  then have "entry_fits im0 [] ''d''"
    by (simp add: entry_fits_def sample_root(6) cost_def total_def nblk_def)
  then have ok: "op_ok im0 (Op_mkdir 1 ''d'')"
    using is_dir_unique [OF dir] by (auto simp: room_for_def)
  obtain out im where r: "run_op 7 (Op_mkdir 1 ''d'') im0 = Inr (out, im)"
    "fs_step (abs_fs im0) (Op_mkdir 1 ''d'') out (abs_fs im)"
    using refines_op [OF client_init_ok(1) [OF init] ok, of 7] by (auto simp: refines_def)
  have root: "abs_fs im0 = [1 \<mapsto> Dir []]"
    using client_init_ok(2) [OF init] by (simp add: fs_init_def)
  have "\<exists>i. out = (OK, Ino i) \<and> fresh (abs_fs im0) i"
    using r(2) by cases (auto simp: root sample_root(5) dir_find_def)
  then obtain i where i: "out = (OK, Ino i)" "fresh (abs_fs im0) i"
    by blast
  have "i \<noteq> 0"
  proof
    assume "i = 0"
    then have "\<forall>j. j \<noteq> 0 \<and> j < 1024 \<longrightarrow> abs_fs im0 j \<noteq> None"
      using i(2) by (simp add: fresh_def)
    from this [rule_format, of 2] show False
      by (simp add: root)
  qed
  moreover have "client_trace im0 [(Op_mkdir 1 ''d'', (OK, Ino i))] im"
    using client_trace_Cons [OF ok r(1) client_trace_Nil] by (simp add: i(1))
  ultimately show ?thesis
    using that init by blast
qed

text \<open>C4. Every session of the client, from the construction of the file system on, is a behaviour of the
  abstract file system that starts with an empty root; and it always ends in a tree: no directory has a name
  twice, every entry with a number refers to a node, no two entries refer to the same node, none to the root,
  and every node is reached from the root. So each node has exactly one path.\<close>

theorem namespace_tree:
  assumes "chfs_client_init junk e = Inr im0" "client_trace im0 tr im"
  shows "fs_trace fs_init tr (abs_fs im) \<and> tree (abs_fs im) \<and>
    (\<forall>i. i \<le> 1024 \<and> abs_fs im (eid_inum i) \<noteq> None \<longrightarrow> (\<exists>!ns. resolve (abs_fs im) 1 ns = Some i))"
  using session_ok [OF assms] unique_path by blast

theorem namespace_tree_witness:
  "\<exists>im0 i im. chfs_client_init 0 sample_env = Inr im0 \<and>
     client_trace im0 [(Op_mkdir 1 ''d'', (OK, Ino i))] im \<and> i \<noteq> 0 \<and> tree (abs_fs im)"
  using sample_session namespace_tree by metis

text \<open>C20. The types and bounds of every state of a session: inode numbers in use lie between 1 and
  1024, a file is a directory, a regular file or a link, no content is longer than 228 blocks, and a
  directory is the text of entries with different names without a slash and numbers up to 1024.\<close>

theorem session_types:
  assumes "chfs_client_init junk e = Inr im0" "client_trace im0 tr im" "files im k = Some (t, c)"
  shows "k \<noteq> 0 \<and> k \<le> 1024 \<and> (t = 1 \<or> t = 2 \<or> t = 3) \<and> length c \<le> BLOCK_SIZE * MAXFILE \<and>
    (t = 1 \<longrightarrow> (\<exists>ds. c = print_dir ds \<and> distinct (map d_name ds) \<and>
       (\<forall>d\<in>set ds. CHR ''/'' \<notin> set (d_name d) \<and> d_inum d \<le> 1024)))"
proof -
  note ok = session_ok(1) [OF assms(1,2)] and tree = session_ok(3) [OF assms(1,2)]
  have at: "abs_fs im k = Some (node_of (t, c))"
    using assms(3) by (simp add: abs_fs_at)
  have "\<exists>ds. c = print_dir ds \<and> distinct (map d_name ds) \<and>
      (\<forall>d\<in>set ds. CHR ''/'' \<notin> set (d_name d) \<and> d_inum d \<le> 1024)" if "t = 1"
  proof -
    obtain ds where ds: "c = print_dir ds" "names_ok ds" "distinct (map d_name ds)"
      using client_invD(3) [OF fs_okD(1) [OF ok]] assms(3) \<open>t = 1\<close> by blast
    then have "entry_at (abs_fs im) k d" if "d \<in> set ds" for d
      using at that \<open>t = 1\<close> node_of_dir by (auto simp: entry_at_def)
    then have "d_inum d \<le> 1024" if "d \<in> set ds" for d
      using treeD(4) [OF tree] that by (cases "d_inum d = 0") auto
    then show ?thesis
      using ds by (auto simp: names_ok_def)
  qed
  moreover have "k \<noteq> 0 \<and> k \<le> 1024"
    using treeD(2) [OF tree, of k] at by simp
  ultimately show ?thesis
    using fs_okD(4) [OF ok assms(3)] files_size [OF fs_okD(2) [OF ok] assms(3)] by blast
qed

theorem session_types_witness:
  "\<exists>im0 i im t c. chfs_client_init 0 sample_env = Inr im0 \<and>
     client_trace im0 [(Op_mkdir 1 ''d'', (OK, Ino i))] im \<and> files im 1 = Some (t, c) \<and>
     (t = 1 \<or> t = 2 \<or> t = 3) \<and> length c \<le> BLOCK_SIZE * MAXFILE"
proof -
  obtain im0 i im where s: "chfs_client_init 0 sample_env = Inr im0"
    "client_trace im0 [(Op_mkdir 1 ''d'', (OK, Ino i))] im"
    using sample_session .
  obtain c where "files im 1 = Some (1, c)"
    using client_invD(2) [OF fs_okD(1) [OF session_ok(1) [OF s]]] by blast
  then show ?thesis
    using session_types [OF s] s by blast
qed

end
