(* ===== verification/Fuse.thy ===== *)
theory Fuse
  imports Client_Props
begin

text \<open>
  The request handlers of \<open>fuse.cc\<close>. A handler is a function of its request to the replies it
  sends, in order, and the new state of the file system; what the handlers leave uninitialised
  (\<open>struct stat\<close>, \<open>struct fuse_entry_param\<close>, an inode number) is an argument. Of the
  FUSE library, which is not part of the repository, a directory listing uses the size and the bytes of a
  directory entry: the arguments \<open>dirent_size\<close> and \<open>add_dirent\<close>.
\<close>

unbundle bit_operations_syntax

section \<open>Replies\<close>

record stat =
  st_ino :: u64
  st_mode :: u32
  st_nlink :: u64
  st_atime :: u64
  st_mtime :: u64
  st_ctime :: u64
  st_size :: u64

record fuse_entry_param =
  e_ino :: u64
  e_generation :: u64
  e_attr :: stat
  e_attr_timeout :: nat
  e_entry_timeout :: nat

record statvfs =
  f_namemax :: u64
  f_bsize :: u64

datatype errno = E0 | ENOENT | EEXIST | ENOTDIR | ENOSYS | ENOTEMPTY

datatype reply =
    Reply_err errno
  | Reply_attr stat
  | Reply_entry fuse_entry_param
  | Reply_create fuse_entry_param
  | Reply_buf "byte list"
  | Reply_write u64
  | Reply_open
  | Reply_readlink string
  | Reply_statfs statvfs

abbreviation S_IFREG :: u32 where "S_IFREG \<equiv> 0x8000"
abbreviation S_IFDIR :: u32 where "S_IFDIR \<equiv> 0x4000"
abbreviation S_IFLNK :: u32 where "S_IFLNK \<equiv> 0xA000"

abbreviation FUSE_SET_ATTR_SIZE :: u32 where "FUSE_SET_ATTR_SIZE \<equiv> 8"

text \<open>A C string as the library sees it: up to the first NUL.\<close>

definition c_str :: "string \<Rightarrow> string" where
  "c_str s = takeWhile (\<lambda>c. c \<noteq> NUL) s"

section \<open>Attributes\<close>

definition zero_stat :: stat where
  "zero_stat = \<lparr>st_ino = 0, st_mode = 0, st_nlink = 0, st_atime = 0, st_mtime = 0, st_ctime = 0, st_size = 0\<rparr>"

definition no_fileinfo :: fileinfo where
  "no_fileinfo = \<lparr>fi_size = 0, fi_atime = 0, fi_mtime = 0, fi_ctime = 0\<rparr>"

definition no_dirinfo :: dirinfo where
  "no_dirinfo = \<lparr>di_atime = 0, di_mtime = 0, di_ctime = 0\<rparr>"

text \<open>\<open>getattr\<close> clears the structure first and asks for the type once more to print it.\<close>

definition fuse_getattr :: "u64 \<Rightarrow> (xxstatus \<times> stat) io" where
  "fuse_getattr inum =
     (let st = zero_stat\<lparr>st_ino := inum\<rparr>
      in io_bind (isfile inum) (\<lambda>_. io_bind (isfile inum) (\<lambda>is_file.
         if is_file
         then io_bind (getfile inum no_fileinfo) (\<lambda>(ret, info).
              if ret \<noteq> OK then io_return (ret, st)
              else io_return (OK, st\<lparr>st_mode := S_IFREG OR 0x1B6, st_nlink := 1, st_atime := fi_atime info,
                st_mtime := fi_mtime info, st_ctime := fi_ctime info, st_size := fi_size info\<rparr>))
         else io_bind (isdir inum) (\<lambda>is_dir.
           if is_dir
           then io_bind (getdir inum no_dirinfo) (\<lambda>(ret, info).
                if ret \<noteq> OK then io_return (ret, st)
                else io_return (OK, st\<lparr>st_mode := S_IFDIR OR 0x1FF, st_nlink := 2, st_atime := di_atime info,
                  st_mtime := di_mtime info, st_ctime := di_ctime info\<rparr>))
           else io_bind (getfile inum no_fileinfo) (\<lambda>(ret, info).
                if ret \<noteq> OK then io_return (ret, st)
                else io_return (OK, st\<lparr>st_mode := S_IFLNK OR 0x1FF, st_nlink := 1, st_atime := fi_atime info,
                  st_mtime := fi_mtime info, st_ctime := fi_ctime info, st_size := fi_size info\<rparr>))))))"

definition fuseserver_getattr :: "u64 \<Rightarrow> reply list io" where
  "fuseserver_getattr ino = io_bind (fuse_getattr ino) (\<lambda>(ret, st).
     if ret \<noteq> OK then io_return [Reply_err ENOENT] else io_return [Reply_attr st])"

definition fuseserver_setattr :: "u64 \<Rightarrow> u64 \<Rightarrow> u32 \<Rightarrow> reply list io" where
  "fuseserver_setattr ino attr_size to_set =
     (if FUSE_SET_ATTR_SIZE AND to_set \<noteq> 0
      then io_bind (setattr ino attr_size) (\<lambda>ret.
           if ret = OK
           then io_bind (fuse_getattr ino) (\<lambda>(ret_2, st).
                if ret_2 = OK then io_return [Reply_attr st] else io_return [])
           else io_return [])
      else io_return [Reply_err ENOSYS])"

section \<open>Data\<close>

definition fuseserver_read :: "u64 \<Rightarrow> u64 \<Rightarrow> u64 \<Rightarrow> reply list io" where
  "fuseserver_read ino sz off = io_bind (chfs_read ino sz off []) (\<lambda>(ret, data).
     if ret = OK then io_return [Reply_buf data] else io_return [Reply_err ENOENT])"

definition fuseserver_write :: "u64 \<Rightarrow> byte list \<Rightarrow> u64 \<Rightarrow> u64 \<Rightarrow> reply list io" where
  "fuseserver_write ino buf sz off = io_bind (chfs_write ino sz off buf 0) (\<lambda>(ret, byte_written).
     if ret = OK then io_return [Reply_write byte_written] else io_return [Reply_err ENOENT])"

section \<open>Creation\<close>

definition fuseserver_createhelper ::
  "u64 \<Rightarrow> string \<Rightarrow> fuse_entry_param \<Rightarrow> u32 \<Rightarrow> u64 \<Rightarrow> (xxstatus \<times> fuse_entry_param) io" where
  "fuseserver_createhelper parent name e type inum =
     (let e = e\<lparr>e_attr_timeout := 0, e_entry_timeout := 0, e_generation := 0\<rparr>
      in io_bind (if type = T_FILE then create parent name inum else mkdir parent name inum) (\<lambda>(ret, inum).
         if ret \<noteq> OK then io_return (ret, e)
         else io_bind (fuse_getattr inum) (\<lambda>(ret, st).
              io_return (ret, e\<lparr>e_ino := inum, e_attr := st\<rparr>))))"

definition fuseserver_create :: "u64 \<Rightarrow> string \<Rightarrow> fuse_entry_param \<Rightarrow> u64 \<Rightarrow> reply list io" where
  "fuseserver_create parent name e inum = io_bind (fuseserver_createhelper parent name e T_FILE inum) (\<lambda>(ret, e).
     if ret = OK then io_return [Reply_create e]
     else if ret = EXIST then io_return [Reply_err EEXIST]
     else io_return [Reply_err ENOENT])"

definition fuseserver_mknod :: "u64 \<Rightarrow> string \<Rightarrow> fuse_entry_param \<Rightarrow> u64 \<Rightarrow> reply list io" where
  "fuseserver_mknod parent name e inum = io_bind (fuseserver_createhelper parent name e T_FILE inum) (\<lambda>(ret, e).
     if ret = OK then io_return [Reply_entry e]
     else if ret = EXIST then io_return [Reply_err EEXIST]
     else io_return [Reply_err ENOENT])"

definition fuseserver_mkdir :: "u64 \<Rightarrow> string \<Rightarrow> fuse_entry_param \<Rightarrow> u64 \<Rightarrow> reply list io" where
  "fuseserver_mkdir parent name e inum =
     (let e = e\<lparr>e_attr_timeout := 0, e_entry_timeout := 0, e_generation := 0\<rparr>
      in io_bind (fuseserver_createhelper parent name e T_DIR inum) (\<lambda>(ret, e).
         if ret = OK then io_return [Reply_entry e]
         else if ret = EXIST then io_return [Reply_err EEXIST]
         else io_return [Reply_err ENOENT]))"

text \<open>The status of \<open>chfs->lookup\<close> and of \<open>getattr\<close> is not looked at.\<close>

definition fuseserver_lookup :: "u64 \<Rightarrow> string \<Rightarrow> fuse_entry_param \<Rightarrow> u64 \<Rightarrow> reply list io" where
  "fuseserver_lookup parent name e ino =
     (let e = e\<lparr>e_attr_timeout := 0, e_entry_timeout := 0, e_generation := 0\<rparr>
      in io_bind (lookup parent name False ino) (\<lambda>(_, found, ino).
         if found
         then io_bind (fuse_getattr ino) (\<lambda>(_, st).
              io_return [Reply_entry (e\<lparr>e_ino := ino, e_attr := st\<rparr>)])
         else io_return [Reply_err ENOENT]))"

section \<open>Directory listings\<close>

text \<open>The buffer is its bytes. \<open>realloc\<close> keeps them and leaves the new ones as they are in
  memory; the library then writes the entry at the old end. The offset in the entry is the
  new size.\<close>

definition dirbuf_add ::
  "(nat \<Rightarrow> nat) \<Rightarrow> (string \<Rightarrow> stat \<Rightarrow> u64 \<Rightarrow> byte list) \<Rightarrow> byte list \<Rightarrow> string \<Rightarrow> u64 \<Rightarrow> byte list io" where
  "dirbuf_add dirent_size add_dirent b name ino im =
     (let oldsize = length b;
          (heap, im1) = heap_bytes im (dirent_size (length name));
          p = b @ heap
      in res_bind (memcpy_at p oldsize (add_dirent name (zero_stat\<lparr>st_ino := ino\<rparr>) (of_nat (length p))))
           (\<lambda>p. Inr (p, im1)))"

primrec dirbuf_fill ::
  "(nat \<Rightarrow> nat) \<Rightarrow> (string \<Rightarrow> stat \<Rightarrow> u64 \<Rightarrow> byte list) \<Rightarrow> dirent list \<Rightarrow> byte list \<Rightarrow> byte list io" where
  "dirbuf_fill dirent_size add_dirent [] b = io_return b"
| "dirbuf_fill dirent_size add_dirent (it # its) b =
     io_bind (dirbuf_add dirent_size add_dirent b (c_str (d_name it)) (d_inum it))
       (dirbuf_fill dirent_size add_dirent its)"

definition reply_buf_limited :: "byte list \<Rightarrow> u64 \<Rightarrow> u64 \<Rightarrow> reply list" where
  "reply_buf_limited buf off maxsize =
     (if unat off < length buf
      then [Reply_buf (take (min (length buf - unat off) (unat maxsize)) (drop (unat off) buf))]
      else [Reply_buf []])"

definition fuseserver_readdir ::
  "(nat \<Rightarrow> nat) \<Rightarrow> (string \<Rightarrow> stat \<Rightarrow> u64 \<Rightarrow> byte list) \<Rightarrow> u64 \<Rightarrow> u64 \<Rightarrow> u64 \<Rightarrow> reply list io" where
  "fuseserver_readdir dirent_size add_dirent ino sz off = io_bind (isdir ino) (\<lambda>is_dir.
     if \<not> is_dir then io_return [Reply_err ENOTDIR]
     else io_bind (readdir ino []) (\<lambda>(_, its).
          io_bind (dirbuf_fill dirent_size add_dirent its []) (\<lambda>b.
            io_return (reply_buf_limited b off sz))))"

section \<open>The other handlers\<close>

definition fuseserver_open :: "u64 \<Rightarrow> reply list io" where
  "fuseserver_open ino = io_return [Reply_open]"

definition fuseserver_unlink :: "u64 \<Rightarrow> string \<Rightarrow> reply list io" where
  "fuseserver_unlink parent name = io_bind (unlink parent name) (\<lambda>r.
     if r = OK then io_return [Reply_err E0]
     else if r = NOENT then io_return [Reply_err ENOENT]
     else io_return [Reply_err ENOTEMPTY])"

definition fuseserver_symlink :: "string \<Rightarrow> u64 \<Rightarrow> string \<Rightarrow> fuse_entry_param \<Rightarrow> u64 \<Rightarrow> reply list io" where
  "fuseserver_symlink link parent name e inum =
     (let e = e\<lparr>e_attr_timeout := 0, e_entry_timeout := 0, e_generation := 0\<rparr>
      in io_bind (create_symbolic_link parent link name inum) (\<lambda>(ret, inum).
         if ret = OK
         then io_bind (fuse_getattr inum) (\<lambda>(ret_2, st).
              if ret_2 = OK then io_return [Reply_entry (e\<lparr>e_ino := inum, e_attr := st\<rparr>)] else io_return [])
         else if ret = EXIST then io_return [Reply_err EEXIST]
         else io_return [Reply_err ENOENT]))"

definition fuseserver_readlink :: "u64 \<Rightarrow> reply list io" where
  "fuseserver_readlink ino = io_bind (parse_symbolic_link [] ino) (\<lambda>(ret, data).
     if ret = OK then io_return [Reply_readlink (c_str data)] else io_return [Reply_err ENOENT])"

definition fuseserver_statfs :: "reply list io" where
  "fuseserver_statfs = io_return [Reply_statfs \<lparr>f_namemax = 255, f_bsize = 512\<rparr>]"

section \<open>The session\<close>

text \<open>The operations that \<open>main\<close> enters into the table \<open>fuseserver_oper\<close>, each with
  the arguments its handler uses. The names come from C strings.\<close>

datatype request =
    Getattr u64
  | Setattr u64 u64 u32
  | Read u64 u64 u64
  | Write u64 "byte list" u64 u64
  | Create u64 string
  | Mknod u64 string
  | Mkdir u64 string
  | Lookup u64 string
  | Readdir u64 u64 u64
  | Open u64
  | Unlink u64 string
  | Symlink string u64 string
  | Readlink u64
  | Statfs

primrec fuseserver_oper ::
  "(nat \<Rightarrow> nat) \<Rightarrow> (string \<Rightarrow> stat \<Rightarrow> u64 \<Rightarrow> byte list) \<Rightarrow> fuse_entry_param \<Rightarrow> u64 \<Rightarrow> request \<Rightarrow> reply list io" where
  "fuseserver_oper ds ad e i (Getattr ino) = fuseserver_getattr ino"
| "fuseserver_oper ds ad e i (Setattr ino sz to_set) = fuseserver_setattr ino sz to_set"
| "fuseserver_oper ds ad e i (Read ino sz off) = fuseserver_read ino sz off"
| "fuseserver_oper ds ad e i (Write ino buf sz off) = fuseserver_write ino buf sz off"
| "fuseserver_oper ds ad e i (Create parent name) = fuseserver_create parent name e i"
| "fuseserver_oper ds ad e i (Mknod parent name) = fuseserver_mknod parent name e i"
| "fuseserver_oper ds ad e i (Mkdir parent name) = fuseserver_mkdir parent name e i"
| "fuseserver_oper ds ad e i (Lookup parent name) = fuseserver_lookup parent name e i"
| "fuseserver_oper ds ad e i (Readdir ino sz off) = fuseserver_readdir ds ad ino sz off"
| "fuseserver_oper ds ad e i (Open ino) = fuseserver_open ino"
| "fuseserver_oper ds ad e i (Unlink parent name) = fuseserver_unlink parent name"
| "fuseserver_oper ds ad e i (Symlink link parent name) = fuseserver_symlink link parent name e i"
| "fuseserver_oper ds ad e i (Readlink ino) = fuseserver_readlink ino"
| "fuseserver_oper ds ad e i Statfs = fuseserver_statfs"

text \<open>\<open>fuse_session_loop\<close> calls the handlers for one request after the other; what the memory
  holds where a handler does not initialise a variable may differ each time.\<close>

primrec serve ::
  "(nat \<Rightarrow> nat) \<Rightarrow> (string \<Rightarrow> stat \<Rightarrow> u64 \<Rightarrow> byte list) \<Rightarrow> (fuse_entry_param \<times> u64 \<times> request) list \<Rightarrow> reply list list io" where
  "serve ds ad [] = io_return []"
| "serve ds ad (r # rs) = io_bind (case r of (e, i, req) \<Rightarrow> fuseserver_oper ds ad e i req) (\<lambda>replies.
     io_bind (serve ds ad rs) (\<lambda>rest. io_return (replies # rest)))"

end
