(* ===== verification/Fuse_Inv.thy ===== *)
theory Fuse_Inv
  imports Fuse
begin

text \<open>
  What all handlers have in common: each request is answered exactly once, and a handler that the
  kernel calls on a well-formed file system returns and leaves one. The rules for results
  (\<open>returns\<close>) and for safety (\<open>safe\<close>) follow the structure of the handlers.
\<close>

section \<open>Results\<close>

text \<open>When the operation returns, its result satisfies \<open>P\<close>.\<close>

definition returns :: "('a \<Rightarrow> bool) \<Rightarrow> 'a io \<Rightarrow> bool" where
  "returns P m \<longleftrightarrow> (\<forall>im x im'. m im = Inr (x, im') \<longrightarrow> P x)"

named_theorems returns_intros

lemma returns_return [returns_intros]: "P x \<Longrightarrow> returns P (io_return x)"
  by (simp add: returns_def io_return_def)

lemma returns_bind: "returns Q m \<Longrightarrow> (\<And>x. Q x \<Longrightarrow> returns P (f x)) \<Longrightarrow> returns P (io_bind m f)"
  by (fastforce simp: returns_def io_bind_def res_bind_eq_Inr)

lemma returns_bind_any [returns_intros]: "(\<And>x. returns P (f x)) \<Longrightarrow> returns P (io_bind m f)"
  by (rule returns_bind [of "\<lambda>_. True"]) (simp_all add: returns_def)

lemma returns_if [returns_intros]:
  "(b \<Longrightarrow> returns P m) \<Longrightarrow> (\<not> b \<Longrightarrow> returns P m') \<Longrightarrow> returns P (if b then m else m')"
  by simp

lemma returns_pair [returns_intros]: "(\<And>x y. returns P (f x y)) \<Longrightarrow> returns P (case p of (x, y) \<Rightarrow> f x y)"
  by (cases p) simp

lemma returns_let [returns_intros]: "(\<And>x. returns P (f x)) \<Longrightarrow> returns P (let x = a in f x)"
  by simp

lemma returns_status:
  "returns (\<lambda>st. st = OK) (ec_put eid buf)" "returns (\<lambda>(st, a). st = OK) (ec_getattr eid)"
  "returns (\<lambda>(st, buf). st = OK) (ec_get eid)"
  by (auto simp: returns_def ec_es es_put_def es_put_with_def es_get_def es_getattr_def res_bind_eq_Inr Let_def
      split: if_splits option.splits prod.splits)

lemma returns_res: "(\<And>x. returns P (f x)) \<Longrightarrow> returns P (\<lambda>im. res_bind m (\<lambda>x. f x im))"
  by (auto simp: returns_def res_bind_eq_Inr)

lemma returns_put [returns_intros]:
  "P OK \<Longrightarrow> returns P (io_bind (ec_put eid buf) (\<lambda>st. io_return (if st \<noteq> OK then IOERR else OK)))"
  by (rule returns_bind [OF returns_status(1)]) (simp add: returns_return)

lemma returns_setattr: "returns (\<lambda>st. st = OK) (setattr ino sz)"
  unfolding setattr_def
  by (rule returns_bind [OF returns_status(3)])
    (auto simp: Let_def intro!: returns_intros returns_res)

lemma returns_getfile: "returns (\<lambda>(st, a). st = OK) (getfile ino fin)"
  unfolding getfile_def by (rule returns_bind [OF returns_status(2)]) (auto intro!: returns_intros)

lemma returns_getdir: "returns (\<lambda>(st, a). st = OK) (getdir ino din)"
  unfolding getdir_def by (rule returns_bind [OF returns_status(2)]) (auto intro!: returns_intros)

lemma returns_getattr: "returns (\<lambda>(st, a). st = OK) (fuse_getattr ino)"
  unfolding fuse_getattr_def Let_def
  by (rule returns_bind_any, rule returns_bind_any, rule returns_if, rule returns_bind [OF returns_getfile])
    (auto intro!: returns_intros returns_bind [OF returns_getfile] returns_bind [OF returns_getdir])

section \<open>One reply\<close>

text \<open>A handler has sent exactly one reply when it returns.\<close>

abbreviation one_reply :: "reply list io \<Rightarrow> bool" where
  "one_reply \<equiv> returns (\<lambda>rs. \<exists>r. rs = [r])"

lemma one_reply_setattr: "one_reply (fuseserver_setattr ino sz to_set)"
  unfolding fuseserver_setattr_def
  by (intro returns_if, rule returns_bind [OF returns_setattr])
    (auto intro!: returns_intros returns_bind [OF returns_getattr])

lemma one_reply_symlink: "one_reply (fuseserver_symlink link parent name e i)"
  unfolding fuseserver_symlink_def
  by (intro returns_let returns_bind_any)
    (auto intro!: returns_intros returns_bind [OF returns_getattr])

lemma one_reply_buf: "\<exists>r. reply_buf_limited b off sz = [r]"
  by (simp add: reply_buf_limited_def)

lemma one_reply_oper: "one_reply (fuseserver_oper ds ad e i req)"
proof (cases req)
  case (Setattr ino sz to_set)
  then show ?thesis
    by (simp add: one_reply_setattr)
next
  case (Symlink link parent name)
  then show ?thesis
    by (simp add: one_reply_symlink)
qed (auto simp: fuseserver_getattr_def fuseserver_read_def fuseserver_write_def fuseserver_create_def
    fuseserver_mknod_def fuseserver_mkdir_def fuseserver_lookup_def fuseserver_readdir_def
    fuseserver_open_def fuseserver_unlink_def fuseserver_readlink_def fuseserver_statfs_def one_reply_buf
    intro!: returns_intros)

section \<open>Attributes\<close>

text \<open>The attributes that \<open>getattr\<close> reports for a number.\<close>

definition describes :: "inode_manager \<Rightarrow> u64 \<Rightarrow> stat \<Rightarrow> bool" where
  "describes im inum st \<longleftrightarrow> st_ino st = inum \<and>
     (st_mode st, st_nlink st, unat (st_size st)) =
       (case files im (eid_inum inum) of
          None \<Rightarrow> (0xA1FF, 1, 0)
        | Some (t, c) \<Rightarrow>
            if t = 1 then (0x41FF, 2, 0)
            else if t = 2 then (0x81B6, 1, length c)
            else (0xA1FF, 1, length c))"

lemma describes_same: "same im im' \<Longrightarrow> describes im' = describes im"
  by (simp add: fun_eq_iff describes_def same_def)

lemma getfile_size:
  assumes "fs_inv im"
  obtains fin where "getfile eid fin0 im = Inr ((OK, fin), im)"
    "unat (fi_size fin) = (case files im (eid_inum eid) of None \<Rightarrow> 0 | Some (t, c) \<Rightarrow> length c)"
proof -
  obtain a where a: "ec_getattr eid im = Inr ((OK, a), im)"
    "a_size a = (case files im (eid_inum eid) of None \<Rightarrow> 0 | Some (t, c) \<Rightarrow> of_nat (length c))"
    using ec_getattr_type [OF assms] by metis
  have "unat (ucast (a_size a) :: u64) = (case files im (eid_inum eid) of None \<Rightarrow> 0 | Some (t, c) \<Rightarrow> length c)"
  proof (cases "files im (eid_inum eid)")
    case (Some tc)
    then have "length (snd tc) \<le> BLOCK_SIZE * MAXFILE"
      using files_size [OF assms, of "eid_inum eid" "fst tc"] by simp
    then show ?thesis
      using Some a(2) by (cases tc) (simp add: unsigned_ucast_eq take_bit_eq_mod unat_of_nat)
  qed (simp add: a(2))
  then show ?thesis
    using that by (simp add: getfile_def a(1))
qed

lemma fuse_getattr_ok:
  assumes inv: "fs_inv im"
  obtains st where "fuse_getattr inum im = Inr ((OK, st), im)" "describes im inum st"
proof -
  obtain fin where fin: "getfile inum no_fileinfo im = Inr ((OK, fin), im)"
    "unat (fi_size fin) = (case files im (eid_inum inum) of None \<Rightarrow> 0 | Some (t, c) \<Rightarrow> length c)"
    using getfile_size [OF inv] .
  obtain a where "ec_getattr inum im = Inr ((OK, a), im)"
    using ec_getattr_type [OF inv] by metis
  then obtain din where din: "getdir inum no_dirinfo im = Inr ((OK, din), im)"
    by (simp add: getdir_def)
  note type = isfile_ok(1,2) [OF inv, of inum]
  consider (reg) c where "files im (eid_inum inum) = Some (2, c)"
    | (dir) c where "files im (eid_inum inum) = Some (1, c)"
    | (other) "\<nexists>c. files im (eid_inum inum) = Some (2, c)" "\<nexists>c. files im (eid_inum inum) = Some (1, c)"
    by blast
  then have "\<exists>st. fuse_getattr inum im = Inr ((OK, st), im) \<and> describes im inum st"
    by cases (use fin din in \<open>auto simp: fuse_getattr_def io_bind_def Let_def type describes_def zero_stat_def
        split: option.splits\<close>)
  then show ?thesis
    using that by blast
qed

end
