(* ===== verification/Fuse_Dir.thy ===== *)
theory Fuse_Dir
  imports Fuse_Inv
begin

text \<open>
  Directory listings: the bytes that \<open>dirbuf_add\<close> collects, and the part of them that a reply
  holds. About the library only the length of a written entry is used.
\<close>

section \<open>The bytes of a listing\<close>

text \<open>An entry takes as many bytes as the library says it does.\<close>

definition dirent_lib :: "(nat \<Rightarrow> nat) \<Rightarrow> (string \<Rightarrow> stat \<Rightarrow> u64 \<Rightarrow> byte list) \<Rightarrow> bool" where
  "dirent_lib ds ad \<longleftrightarrow> (\<forall>name st off. length (ad name st off) = ds (length name))"

text \<open>The listing of entries from position \<open>pos\<close> on: each entry carries its number and the
  position behind it.\<close>

primrec listing ::
  "(nat \<Rightarrow> nat) \<Rightarrow> (string \<Rightarrow> stat \<Rightarrow> u64 \<Rightarrow> byte list) \<Rightarrow> nat \<Rightarrow> dirent list \<Rightarrow> byte list" where
  "listing ds ad pos [] = []"
| "listing ds ad pos (it # its) =
     (let next = pos + ds (length (c_str (d_name it)))
      in ad (c_str (d_name it)) (zero_stat\<lparr>st_ino := d_inum it\<rparr>) (of_nat next) @ listing ds ad next its)"

lemma length_listing:
  assumes "dirent_lib ds ad"
  shows "length (listing ds ad pos its) = (\<Sum>it\<leftarrow>its. ds (length (c_str (d_name it))))"
  using assms by (induction its arbitrary: pos) (simp_all add: dirent_lib_def Let_def)

lemma listing_append:
  assumes "dirent_lib ds ad"
  shows "listing ds ad pos (its @ its') =
    listing ds ad pos its @ listing ds ad (pos + length (listing ds ad pos its)) its'"
  using assms by (induction its arbitrary: pos) (simp_all add: dirent_lib_def Let_def add.assoc)

text \<open>Behind the first \<open>k\<close> entries the listing goes on with the entry \<open>k\<close>.\<close>

lemma drop_listing:
  assumes "dirent_lib ds ad" "n = length (listing ds ad 0 (take k its))"
  shows "drop n (listing ds ad 0 its) = listing ds ad n (drop k its)"
  using listing_append [OF assms(1), of 0 "take k its" "drop k its"] assms(2) by simp

section \<open>The handler\<close>

lemma same_tick: "fs_inv im \<Longrightarrow> same im (tick im)"
  by (simp add: same_def)

lemma dirbuf_add_ok:
  assumes "dirent_lib ds ad"
  shows "dirbuf_add ds ad b name ino im =
    Inr (b @ ad name (zero_stat\<lparr>st_ino := ino\<rparr>) (of_nat (length b + ds (length name))), tick im)"
  using assms by (simp add: dirbuf_add_def heap_bytes_simps Let_def memcpy_at_def dirent_lib_def)

lemma dirbuf_fill_ok:
  assumes lib: "dirent_lib ds ad" and inv: "fs_inv im"
  obtains im' where "dirbuf_fill ds ad its b im = Inr (b @ listing ds ad (length b) its, im')" "same im im'"
proof -
  have "\<exists>im'. dirbuf_fill ds ad its b im = Inr (b @ listing ds ad (length b) its, im') \<and> same im im'"
    using inv
  proof (induction its arbitrary: b im)
    case Nil
    then show ?case
      by simp
  next
    case (Cons it its)
    let ?e = "ad (c_str (d_name it)) (zero_stat\<lparr>st_ino := d_inum it\<rparr>)
      (of_nat (length b + ds (length (c_str (d_name it)))))"
    have "fs_inv (tick im)"
      using Cons.prems by simp
    then obtain im' where im': "dirbuf_fill ds ad its (b @ ?e) (tick im) =
        Inr ((b @ ?e) @ listing ds ad (length (b @ ?e)) its, im')" "same (tick im) im'"
      using Cons.IH by blast
    moreover have "length ?e = ds (length (c_str (d_name it)))"
      using lib by (simp add: dirent_lib_def)
    ultimately have "dirbuf_fill ds ad (it # its) b im = Inr (b @ listing ds ad (length b) (it # its), im')"
      by (simp add: dirbuf_add_ok [OF lib] io_bind_def Let_def)
    then show ?case
      using same_trans [OF same_tick [OF Cons.prems] im'(2)] by blast
  qed
  then show ?thesis
    using that by blast
qed

lemma reply_buf_limited_eq: "reply_buf_limited buf off sz = [Reply_buf (take (unat sz) (drop (unat off) buf))]"
  by (simp add: reply_buf_limited_def min_def)

lemma fuseserver_readdir_ok:
  assumes lib: "dirent_lib ds ad" and inv: "fs_inv im" and dir: "is_dir im p its"
  obtains im' where "fuseserver_readdir ds ad p sz off im =
      Inr ([Reply_buf (take (unat sz) (drop (unat off) (listing ds ad 0 its)))], im')" "same im im'"
proof -
  have d: "isdir p im = Inr (True, im)"
    using isfile_ok(2) [OF inv, of p] dir by (simp add: is_dir_def)
  obtain im1 where r: "readdir p [] im = Inr ((OK, its), im1)" "same im im1"
    using readdir_ok [OF inv dir, of "[]"] by auto
  obtain im2 where "dirbuf_fill ds ad its [] im1 = Inr (listing ds ad 0 its, im2)" "same im1 im2"
    using dirbuf_fill_ok [OF lib sameD(1) [OF r(2)], of its "[]"] by auto
  then show ?thesis
    using that d r same_trans by (auto simp: fuseserver_readdir_def io_bind_def reply_buf_limited_eq)
qed

end
