(* ===== verification/Fuse_Props.thy ===== *)
theory Fuse_Props
  imports Fuse_Dir
begin

text \<open>
  What the kernel sees: the replies of the handlers, request by request, on a well-formed file
  system.
\<close>

section \<open>Entries\<close>

text \<open>A value that an uninitialised entry may have.\<close>

definition blank_entry :: fuse_entry_param where
  "blank_entry = \<lparr>e_ino = 0, e_generation = 0, e_attr = zero_stat, e_attr_timeout = 0, e_entry_timeout = 0\<rparr>"

text \<open>The answer that names a file: its number, no timeouts and no generation, and the attributes of
  the number.\<close>

definition entry_reply :: "inode_manager \<Rightarrow> u64 \<Rightarrow> fuse_entry_param \<Rightarrow> bool" where
  "entry_reply im ino e \<longleftrightarrow> e_ino e = ino \<and> e_generation e = 0 \<and> e_attr_timeout e = 0 \<and>
     e_entry_timeout e = 0 \<and> describes im ino (e_attr e)"

lemma createhelper_eq:
  assumes inv: "fs_inv im'" and
    c: "(if type = T_FILE then create p name i else mkdir p name i) im = Inr ((OK, ino), im')"
  obtains e' where "fuseserver_createhelper p name e type i im = Inr ((OK, e'), im')" "entry_reply im' ino e'"
proof -
  obtain st where st: "fuse_getattr ino im' = Inr ((OK, st), im')" "describes im' ino st"
    using fuse_getattr_ok [OF inv] .
  then show ?thesis
    using that c by (simp add: fuseserver_createhelper_def entry_reply_def Let_def)
qed

lemma createhelper_error:
  assumes "(if type = T_FILE then create p name i else mkdir p name i) im = Inr ((ret, ino), im')" "ret \<noteq> OK"
  shows "\<exists>e'. fuseserver_createhelper p name e type i im = Inr ((ret, e'), im')"
  using assms by (simp add: fuseserver_createhelper_def Let_def)

lemma lookup_reply_ok:
  assumes inv: "fs_inv im" and dir: "is_dir im p ds"
  shows "case dir_find ds name of
      None \<Rightarrow> \<exists>im'. fuseserver_lookup p name e i im = Inr ([Reply_err ENOENT], im') \<and> same im im'
    | Some ino \<Rightarrow> \<exists>e' im'. fuseserver_lookup p name e i im = Inr ([Reply_entry e'], im') \<and>
        entry_reply im ino e' \<and> same im im'"
proof -
  obtain im' where l: "lookup p name False i im = Inr ((case dir_find ds name of
      None \<Rightarrow> (OK, False, i) | Some i \<Rightarrow> (OK, True, i)), im')" "same im im'"
    using lookup_ok [OF inv dir] .
  show ?thesis
  proof (cases "dir_find ds name")
    case None
    then show ?thesis
      using l by (simp add: fuseserver_lookup_def io_bind_def Let_def)
  next
    case (Some ino)
    obtain st where "fuse_getattr ino im' = Inr ((OK, st), im')" "describes im' ino st"
      using fuse_getattr_ok [OF sameD(1) [OF l(2)]] .
    then show ?thesis
      using Some l by (simp add: fuseserver_lookup_def io_bind_def Let_def entry_reply_def describes_same)
  qed
qed

text \<open>What a new entry leaves: the file and the entry, its answer, and the answer to a lookup of
  the name.\<close>

definition created ::
  "inode_manager \<Rightarrow> u64 \<Rightarrow> dirent list \<Rightarrow> string \<Rightarrow> u16 \<times> byte list \<Rightarrow> fuse_entry_param \<Rightarrow> inode_manager \<Rightarrow> bool" where
  "created im p ds name f e' im' \<longleftrightarrow> (\<exists>ino. fs_inv im' \<and> fresh_ino im ino \<and>
     files im' = with_entry im p ds name ino f \<and> entry_reply im' ino e' \<and>
     (ino \<noteq> 0 \<longrightarrow> st_mode (e_attr e') = (if fst f = 1 then 0x41FF else if fst f = 2 then 0x81B6 else 0xA1FF)) \<and>
     (\<forall>e i. \<exists>e'' im''. fuseserver_lookup p name e i im' = Inr ([Reply_entry e''], im'') \<and>
        entry_reply im' ino e'' \<and> same im' im''))"

lemma createdI:
  assumes inv: "fs_inv im'" and ino: "fresh_ino im ino" and im': "files im' = with_entry im p ds name ino f"
    and e': "entry_reply im' ino e'" and dir: "is_dir im p ds" and new: "dir_find ds name = None"
    and name: "CHR ''/'' \<notin> set name"
  shows "created im p ds name f e' im'"
proof -
  have dir': "is_dir im' p (ds @ [\<lparr>d_name = name, d_inum = ino\<rparr>])"
    using with_entry_dir [OF im' _ name] dir by (simp add: is_dir_def)
  have "st_mode (e_attr e') = (if fst f = 1 then 0x41FF else if fst f = 2 then 0x81B6 else 0xA1FF)" if "ino \<noteq> 0"
    using with_entry_new [OF im' dir ino that] e' by (cases f) (simp add: entry_reply_def describes_def split: if_splits)
  moreover have "\<exists>e'' im''. fuseserver_lookup p name e i im' = Inr ([Reply_entry e''], im'') \<and>
      entry_reply im' ino e'' \<and> same im' im''" for e i
    using lookup_reply_ok [OF inv dir', of name e i] new by (simp add: dir_find_append)
  ultimately show ?thesis
    using assms unfolding created_def by blast
qed

text \<open>C12. A successful \<open>create\<close>, \<open>mknod\<close> or \<open>mkdir\<close> is answered with the
  entry of the new file: its number, and the attributes of an empty file or directory. The entry is
  in the directory, and a lookup of the name is then answered with the same number and
  attributes.\<close>

theorem creation_replies:
  assumes inv: "fs_inv im" and dir: "is_dir im p ds" and new: "dir_find ds name = None"
    and name: "CHR ''/'' \<notin> set name" "name \<noteq> ''.''" "name \<noteq> ''..''" and fits: "entry_fits im ds name"
  shows "(\<exists>e' im'. fuseserver_create p name e i im = Inr ([Reply_create e'], im') \<and>
      created im p ds name (2, []) e' im') \<and>
    (\<exists>e' im'. fuseserver_mknod p name e i im = Inr ([Reply_entry e'], im') \<and>
      created im p ds name (2, []) e' im') \<and>
    (\<exists>e' im'. fuseserver_mkdir p name e i im = Inr ([Reply_entry e'], im') \<and>
      created im p ds name (1, []) e' im')"
proof -
  obtain ino im' where c: "create p name i im = Inr ((OK, ino), im')" "fs_inv im'" "fresh_ino im ino"
    "files im' = with_entry im p ds name ino (2, [])"
    using create_eq [OF inv dir fits, of i] new by auto
  obtain e' where e': "fuseserver_createhelper p name e T_FILE i im = Inr ((OK, e'), im')" "entry_reply im' ino e'"
    by (rule createhelper_eq [OF c(2), of T_FILE p name i im ino e]) (simp add: c(1))
  obtain ino1 im1 where c1: "mkdir p name i im = Inr ((OK, ino1), im1)" "fs_inv im1" "fresh_ino im ino1"
    "files im1 = with_entry im p ds name ino1 (1, [])"
    using mkdir_eq [OF inv dir fits name(2,3), of i] new by auto
  let ?e = "e\<lparr>e_attr_timeout := 0, e_entry_timeout := 0, e_generation := 0\<rparr>"
  obtain e1 where e1: "fuseserver_createhelper p name ?e T_DIR i im = Inr ((OK, e1), im1)" "entry_reply im1 ino1 e1"
    by (rule createhelper_eq [OF c1(2), of T_DIR p name i im ino1 ?e]) (simp add: c1(1))
  note created = createdI [OF c(2,3,4) e'(2) dir new name(1)] createdI [OF c1(2,3,4) e1(2) dir new name(1)]
  show ?thesis
    using created e'(1) e1(1)
    by (simp add: fuseserver_create_def fuseserver_mknod_def fuseserver_mkdir_def Let_def)
qed

theorem creation_replies_witness:
  "\<exists>e' im'. fuseserver_mkdir 1 ''docs'' blank_entry 7 (root_im sample_env) = Inr ([Reply_entry e'], im') \<and>
     created (root_im sample_env) 1 [] ''docs'' (1, []) e' im'"
  using creation_replies [OF sample_root(1,2), of "''docs''" blank_entry 7] sample_fits(1) [of "''docs''"]
  by (simp add: dir_find_def)

text \<open>A failed creation is answered with an error: \<open>EEXIST\<close> for a name that the directory
  has, \<open>ENOENT\<close> for a parent that is no directory and for the names . and .. of
  \<open>mkdir\<close>. No file changes.\<close>

theorem creation_errors:
  assumes inv: "fs_inv im"
  shows "(is_dir im p ds \<and> dir_find ds name \<noteq> None \<and> entry_fits im ds name \<and> name \<noteq> ''.'' \<and> name \<noteq> ''..'' \<longrightarrow>
      (\<forall>h\<in>{fuseserver_create p name e i, fuseserver_mknod p name e i, fuseserver_mkdir p name e i}.
         \<exists>im'. h im = Inr ([Reply_err EEXIST], im') \<and> same im im')) \<and>
    ((\<nexists>c. files im (eid_inum p) = Some (1, c)) \<longrightarrow>
      (\<forall>h\<in>{fuseserver_create p name e i, fuseserver_mknod p name e i, fuseserver_mkdir p name e i,
           fuseserver_symlink target p name e i, fuseserver_lookup p name e i}.
         h im = Inr ([Reply_err ENOENT], im))) \<and>
    (name = ''.'' \<or> name = ''..'' \<longrightarrow> fuseserver_mkdir p name e i im = Inr ([Reply_err ENOENT], im))"
proof (intro conjI impI)
  assume a: "is_dir im p ds \<and> dir_find ds name \<noteq> None \<and> entry_fits im ds name \<and> name \<noteq> ''.'' \<and> name \<noteq> ''..''"
  then obtain j where "dir_find ds name = Some j"
    by blast
  with a obtain im1 im2 where "create p name i im = Inr ((EXIST, j), im1)" "same im im1"
    "mkdir p name i im = Inr ((EXIST, j), im2)" "same im im2"
    using create_eq [OF inv, of p ds name i] mkdir_eq [OF inv, of p ds name i] by auto
  then show "\<forall>h\<in>{fuseserver_create p name e i, fuseserver_mknod p name e i, fuseserver_mkdir p name e i}.
      \<exists>im'. h im = Inr ([Reply_err EEXIST], im') \<and> same im im'"
    by (simp add: fuseserver_create_def fuseserver_mknod_def fuseserver_mkdir_def fuseserver_createhelper_def Let_def)
next
  assume "\<nexists>c. files im (eid_inum p) = Some (1, c)"
  note n = not_dir_ops [OF inv this]
  show "\<forall>h\<in>{fuseserver_create p name e i, fuseserver_mknod p name e i, fuseserver_mkdir p name e i,
      fuseserver_symlink target p name e i, fuseserver_lookup p name e i}. h im = Inr ([Reply_err ENOENT], im)"
    by (simp add: fuseserver_create_def fuseserver_mknod_def fuseserver_mkdir_def fuseserver_createhelper_def
        fuseserver_symlink_def fuseserver_lookup_def io_bind_def Let_def n)
next
  assume dot: "name = ''.'' \<or> name = ''..''"
  obtain ret a where "check_dir_inode p im = Inr ((ret, a), im)"
    using check_dir_inode_ok [OF inv] by blast
  then have "mkdir p name i im = Inr ((IOERR, i), im)"
    using dot by (auto simp: mkdir_def io_bind_def)
  then show "fuseserver_mkdir p name e i im = Inr ([Reply_err ENOENT], im)"
    by (simp add: fuseserver_mkdir_def fuseserver_createhelper_def Let_def)
qed

theorem creation_errors_witness:
  "fuseserver_mkdir 1 ''.'' blank_entry 0 (root_im sample_env) = Inr ([Reply_err ENOENT], root_im sample_env)"
  using creation_errors [OF sample_root(1), of 1 "[]" "''.''" blank_entry 0 "[]"] by simp

section \<open>Queries\<close>

text \<open>C39. \<open>getattr\<close> is answered with the type and the size of the file. A number that has no file
  is not refused with \<open>ENOENT\<close>: it is answered as an empty symbolic link.\<close>

theorem getattr_reply:
  assumes inv: "fs_inv im"
  shows "\<exists>st. fuseserver_getattr ino im = Inr ([Reply_attr st], im) \<and> st_ino st = ino \<and>
    (case files im (eid_inum ino) of
       None \<Rightarrow> st_mode st = 0xA1FF \<and> st_size st = 0
     | Some (t, c) \<Rightarrow> st_mode st = (if t = 1 then 0x41FF else if t = 2 then 0x81B6 else 0xA1FF) \<and>
         unat (st_size st) = (if t = 1 then 0 else length c))"
proof -
  obtain st where "fuse_getattr ino im = Inr ((OK, st), im)" "describes im ino st"
    using fuse_getattr_ok [OF inv] .
  then show ?thesis
    by (auto simp: fuseserver_getattr_def describes_def unat_eq_0 split: option.splits if_splits)
qed

theorem getattr_reply_witness:
  "\<exists>st. fuseserver_getattr 9 (root_im sample_env) = Inr ([Reply_attr st], root_im sample_env) \<and>
     files (root_im sample_env) 9 = None \<and> st_mode st = 0xA1FF"
proof -
  have k: "eid_inum 9 = 9"
    by (simp add: eid_inum_def)
  show ?thesis
    using getattr_reply [OF sample_root(1), of 9] by (auto simp: k sample_root(4))
qed

text \<open>C14. A listing that goes on at the end of the entry \<open>k\<close>, where the kernel goes on, is answered
  with the entries behind it in the order of the directory, as far as the size allows; so the pages
  give every entry once. A number that is no directory is answered with \<open>ENOTDIR\<close>.\<close>

theorem readdir_pages:
  assumes lib: "dirent_lib ds ad" and inv: "fs_inv im"
  shows "(is_dir im p its \<and> unat off = length (listing ds ad 0 (take k its)) \<longrightarrow>
      (\<exists>im'. fuseserver_readdir ds ad p sz off im =
         Inr ([Reply_buf (take (unat sz) (listing ds ad (unat off) (drop k its)))], im') \<and> same im im')) \<and>
    ((\<nexists>c. files im (eid_inum p) = Some (1, c)) \<longrightarrow>
      fuseserver_readdir ds ad p sz off im = Inr ([Reply_err ENOTDIR], im))"
proof (intro conjI impI)
  assume a: "is_dir im p its \<and> unat off = length (listing ds ad 0 (take k its))"
  then obtain im' where "fuseserver_readdir ds ad p sz off im =
      Inr ([Reply_buf (take (unat sz) (drop (unat off) (listing ds ad 0 its)))], im')" "same im im'"
    using fuseserver_readdir_ok [OF lib inv] by blast
  then show "\<exists>im'. fuseserver_readdir ds ad p sz off im =
      Inr ([Reply_buf (take (unat sz) (listing ds ad (unat off) (drop k its)))], im') \<and> same im im'"
    using drop_listing [OF lib, of "unat off" k its] a by auto
next
  assume "\<nexists>c. files im (eid_inum p) = Some (1, c)"
  then show "fuseserver_readdir ds ad p sz off im = Inr ([Reply_err ENOTDIR], im)"
    using isfile_ok(2) [OF inv, of p] by (simp add: fuseserver_readdir_def io_bind_def)
qed

text \<open>The layout of an entry in the listing, as the kernel reads it: number, offset, length of the
  name, type, and the name padded with zero bytes to a multiple of 8.\<close>

definition sample_size :: "nat \<Rightarrow> nat" where
  "sample_size n = (24 + n + 7) div 8 * 8"

definition sample_dirent :: "string \<Rightarrow> stat \<Rightarrow> u64 \<Rightarrow> byte list" where
  "sample_dirent name st off =
     u32_bytes (ucast (st_ino st)) @ u32_bytes (ucast (drop_bit 32 (st_ino st))) @
     u32_bytes (ucast off) @ u32_bytes (ucast (drop_bit 32 off)) @
     u32_bytes (of_nat (length name)) @ u32_bytes (drop_bit 12 (st_mode st)) @
     name @ replicate (sample_size (length name) - 24 - length name) NUL"

lemma sample_lib: "dirent_lib sample_size sample_dirent"
proof -
  have "24 + n \<le> sample_size n" for n
    using div_mult_mod_eq [of "24 + n + 7" 8] mod_less_divisor [of 8 "24 + n + 7"]
    unfolding sample_size_def by linarith
  then have "24 + n + (sample_size n - 24 - n) = sample_size n" for n
    by (simp add: le_diff_conv2)
  then show ?thesis
    by (simp add: dirent_lib_def sample_dirent_def add.assoc)
qed

theorem readdir_pages_witness:
  "\<exists>im im'. is_dir im 1 [\<lparr>d_name = ''a'', d_inum = 2\<rparr>] \<and> fuseserver_readdir sample_size sample_dirent 1 4096 0 im =
     Inr ([Reply_buf (listing sample_size sample_dirent 0 [\<lparr>d_name = ''a'', d_inum = 2\<rparr>])], im')"
proof -
  obtain im where im: "fs_inv im" "is_dir im 1 [\<lparr>d_name = ''a'', d_inum = 2\<rparr>]"
    using sample_entry .
  have "length (listing sample_size sample_dirent 0 [\<lparr>d_name = ''a'', d_inum = 2\<rparr>]) \<le> 4096"
    unfolding length_listing [OF sample_lib] by (simp add: sample_size_def c_str_def)
  then show ?thesis
    using readdir_pages [OF sample_lib im(1), of 1 "[\<lparr>d_name = ''a'', d_inum = 2\<rparr>]" 0 0 4096] im(2) by auto
qed

section \<open>Data and links\<close>

text \<open>C13. A write is answered with the number of bytes asked for, and a read of the same range is then
  answered with those bytes. Any read of a file is answered with the bytes of the range that lie
  in the file.\<close>

theorem data_replies:
  assumes inv: "fs_inv im" and f: "files im (eid_inum ino) = Some (t, c)" and off: "0 \<le> sint off"
  shows "(\<exists>im'. fuseserver_read ino sz off im = Inr ([Reply_buf (take (unat sz) (drop (unat off) c))], im') \<and>
      same im im') \<and>
    (unat sz \<le> length dat \<and> unat off + unat sz \<le> BLOCK_SIZE * MAXFILE \<and>
       cost (unat off + unat sz) \<le> bm_free (im_bm im) + cost (length c) \<longrightarrow>
      (\<exists>im' im''. fuseserver_write ino dat sz off im = Inr ([Reply_write sz], im') \<and> fs_inv im' \<and>
         files im' = (files im)(eid_inum ino \<mapsto> (t, splice c (unat off) (take (unat sz) dat))) \<and>
         fuseserver_read ino sz off im' = Inr ([Reply_buf (take (unat sz) dat)], im'') \<and> same im' im''))"
proof (intro conjI impI)
  obtain im' where "chfs_read ino sz off [] im = Inr ((OK, take (unat sz) (drop (unat off) c)), im')" "same im im'"
    using chfs_read_eq [OF inv f off] .
  then show "\<exists>im'. fuseserver_read ino sz off im = Inr ([Reply_buf (take (unat sz) (drop (unat off) c))], im') \<and>
      same im im'"
    by (simp add: fuseserver_read_def)
next
  assume a: "unat sz \<le> length dat \<and> unat off + unat sz \<le> BLOCK_SIZE * MAXFILE \<and>
    cost (unat off + unat sz) \<le> bm_free (im_bm im) + cost (length c)"
  let ?d = "take (unat sz) dat"
  let ?c = "splice c (unat off) ?d"
  obtain im' where w: "chfs_write ino sz off dat 0 im = Inr ((OK, sz), im')" "fs_inv im'"
    "files im' = (files im)(eid_inum ino \<mapsto> (t, ?c))"
    using chfs_write_eq [OF inv f off, of sz dat 0] a by blast
  have "files im' (eid_inum ino) = Some (t, ?c)"
    by (simp add: w(3))
  then obtain im'' where r: "chfs_read ino sz off [] im' = Inr ((OK, take (unat sz) (drop (unat off) ?c)), im'')"
    "same im' im''"
    by (rule chfs_read_eq [OF w(2) _ off])
  have "length ?d = unat sz"
    using a by simp
  then have "take (unat sz) (drop (unat off) ?c) = ?d"
    using splice_read [of ?d "unat off" c] by simp
  then show "\<exists>im' im''. fuseserver_write ino dat sz off im = Inr ([Reply_write sz], im') \<and> fs_inv im' \<and>
      files im' = (files im)(eid_inum ino \<mapsto> (t, ?c)) \<and>
      fuseserver_read ino sz off im' = Inr ([Reply_buf ?d], im'') \<and> same im' im''"
    using w r by (simp add: fuseserver_write_def fuseserver_read_def)
qed

theorem data_replies_witness:
  "\<exists>im' im''. fuseserver_write 1 ''hello'' 5 3 (root_im sample_env) = Inr ([Reply_write 5], im') \<and>
     fuseserver_read 1 5 3 im' = Inr ([Reply_buf ''hello''], im'')"
proof -
  have f: "files (root_im sample_env) (eid_inum 1) = Some (1, [])"
    by (simp add: sample_root)
  have u: "unat (3 :: u64) = 3" "unat (5 :: u64) = 5" "0 \<le> sint (3 :: u64)"
    by simp_all
  have "cost (3 + 5) \<le> bm_free (im_bm (root_im sample_env)) + cost (length ([] :: byte list))"
    by (simp add: cost_def total_def nblk_def sample_root)
  then show ?thesis
    using data_replies [OF sample_root(1) f u(3), of 5 "''hello''", unfolded u] by auto
qed

text \<open>C38. A request to set the size is answered with the attributes after it: the file is cut to the size
  and never grows. Without the size bit nothing is done and the answer is \<open>ENOSYS\<close>.\<close>

theorem setattr_reply:
  assumes inv: "fs_inv im" and f: "files im (eid_inum ino) = Some (2, c)"
  shows "if to_set AND 8 = 0 then fuseserver_setattr ino sz to_set im = Inr ([Reply_err ENOSYS], im)
    else \<exists>st im'. fuseserver_setattr ino sz to_set im = Inr ([Reply_attr st], im') \<and> fs_inv im' \<and>
      files im' = (files im)(eid_inum ino \<mapsto> (2, take (unat sz) c)) \<and>
      st_mode st = 0x81B6 \<and> unat (st_size st) = min (length c) (unat sz)"
proof (cases "to_set AND 8 = 0")
  case True
  then show ?thesis
    by (simp add: fuseserver_setattr_def and.commute)
next
  case False
  obtain im' where s: "setattr ino sz im = Inr (OK, im')" "fs_inv im'"
    "files im' = (files im)(eid_inum ino \<mapsto> (2, take (unat sz) c))"
    using setattr_eq [OF inv f] .
  obtain st where "fuse_getattr ino im' = Inr ((OK, st), im')" "describes im' ino st"
    using fuse_getattr_ok [OF s(2)] .
  then show ?thesis
    using False s by (simp add: fuseserver_setattr_def and.commute describes_def)
qed

theorem setattr_reply_witness:
  "\<exists>ino im st im'. files im (eid_inum ino) = Some (2, []) \<and>
     fuseserver_setattr ino 10 8 im = Inr ([Reply_attr st], im') \<and> st_size st = 0"
proof -
  obtain ino im where c: "create 1 ''a'' 0 (root_im sample_env) = Inr ((OK, ino), im)" "fs_inv im" "ino \<noteq> 0"
    "is_dir im 1 [\<lparr>d_name = ''a'', d_inum = ino\<rparr>]" "files im (eid_inum ino) = Some (2, [])"
    "files im = [eid_inum ino \<mapsto> (2, []), 1 \<mapsto> (1, print_dir [\<lparr>d_name = ''a'', d_inum = ino\<rparr>])]"
    using sample_file .
  show ?thesis
    using setattr_reply [OF c(2,5), of 8 10] c(5) by (auto simp: unat_eq_0)
qed

text \<open>C36. \<open>unlink\<close> is answered with success for a regular file, which is then gone from the
  directory, with \<open>ENOENT\<close> for a name that is not there, and with \<open>ENOTEMPTY\<close> for
  everything else: a directory, a symbolic link or a number without a file.\<close>

theorem unlink_reply:
  assumes inv: "fs_inv im" and dir: "is_dir im p ds"
  shows "case dir_find ds name of
      None \<Rightarrow> \<exists>im'. fuseserver_unlink p name im = Inr ([Reply_err ENOENT], im') \<and> same im im'
    | Some i \<Rightarrow> if \<exists>c. files im (eid_inum i) = Some (2, c)
        then \<exists>im' im''. fuseserver_unlink p name im = Inr ([Reply_err E0], im') \<and> fs_inv im' \<and>
          files im' = (files im)(eid_inum i := None,
            eid_inum p \<mapsto> (1, print_dir (filter (\<lambda>d. d_name d \<noteq> name) ds))) \<and>
          fuseserver_lookup p name e j im' = Inr ([Reply_err ENOENT], im'')
        else \<exists>im'. fuseserver_unlink p name im = Inr ([Reply_err ENOTEMPTY], im') \<and> same im im'"
proof (cases "dir_find ds name")
  case None
  then show ?thesis
    using unlink_eq [OF inv dir, of name] by (auto simp: fuseserver_unlink_def)
next
  case (Some i)
  show ?thesis
  proof (cases "\<exists>c. files im (eid_inum i) = Some (2, c)")
    case True
    let ?ds = "filter (\<lambda>d. d_name d \<noteq> name) ds"
    have "\<exists>im'. unlink p name im = Inr (OK, im') \<and> fs_inv im' \<and>
        bm_free (im_bm im) \<le> bm_free (im_bm im') + 1 \<and>
        files im' = (files im)(eid_inum i := None, eid_inum p \<mapsto> (1, print_dir ?ds))"
      using unlink_eq [OF inv dir, of name] True by (simp only: Some option.case if_True)
    then obtain im' where u: "unlink p name im = Inr (OK, im')" "fs_inv im'"
      "files im' = (files im)(eid_inum i := None, eid_inum p \<mapsto> (1, print_dir ?ds))"
      by blast
    have "is_dir im' p ?ds"
      using dir u(3) by (simp add: is_dir_def names_ok_def)
    moreover have "dir_find ?ds name = None"
      by (auto simp: dir_find_None)
    ultimately have "\<exists>im''. fuseserver_lookup p name e j im' = Inr ([Reply_err ENOENT], im'')"
      using lookup_reply_ok [OF u(2), of p ?ds name e j] by auto
    then show ?thesis
      using Some True u by (simp add: fuseserver_unlink_def)
  next
    case False
    then show ?thesis
      using unlink_eq [OF inv dir, of name] Some by (auto simp: fuseserver_unlink_def)
  qed
qed

theorem unlink_reply_witness:
  "\<exists>ino im im'. create 1 ''a'' 0 (root_im sample_env) = Inr ((OK, ino), im) \<and>
     fuseserver_unlink 1 ''a'' im = Inr ([Reply_err E0], im') \<and> files im' (eid_inum ino) = None"
proof -
  obtain ino im where c: "create 1 ''a'' 0 (root_im sample_env) = Inr ((OK, ino), im)" "fs_inv im" "ino \<noteq> 0"
    "is_dir im 1 [\<lparr>d_name = ''a'', d_inum = ino\<rparr>]" "files im (eid_inum ino) = Some (2, [])"
    "files im = [eid_inum ino \<mapsto> (2, []), 1 \<mapsto> (1, print_dir [\<lparr>d_name = ''a'', d_inum = ino\<rparr>])]"
    using sample_file .
  have d: "dir_find [\<lparr>d_name = ''a'', d_inum = ino\<rparr>] ''a'' = Some ino"
    by (simp add: dir_find_def)
  have "eid_inum ino \<noteq> eid_inum 1"
    using c(4,5) by (auto simp: is_dir_def)
  then show ?thesis
    using unlink_reply [OF c(2,4), of "''a''" blank_entry 0] c(1,5) d by auto
qed

text \<open>A symbolic link is answered with its entry, and \<open>readlink\<close> of the number is answered
  with the target that was given; of anything but a symbolic link with \<open>ENOENT\<close>.\<close>

theorem symlink_replies:
  assumes inv: "fs_inv im" and dir: "is_dir im p ds" and new: "dir_find ds name = None"
    and name: "CHR ''/'' \<notin> set name" and fits: "link_fits im ds name target" and nul: "NUL \<notin> set target"
  shows "\<exists>e' im'. fuseserver_symlink target p name e i im = Inr ([Reply_entry e'], im') \<and>
    created im p ds name (3, target) e' im' \<and>
    (e_ino e' \<noteq> 0 \<longrightarrow> (\<exists>im''. fuseserver_readlink (e_ino e') im' = Inr ([Reply_readlink target], im''))) \<and>
    fuseserver_readlink p im' = Inr ([Reply_err ENOENT], im')"
proof -
  obtain ino im' where c: "create_symbolic_link p target name i im = Inr ((OK, ino), im')" "fs_inv im'"
    "fresh_ino im ino" "files im' = with_entry im p ds name ino (3, target)"
    using create_symbolic_link_eq [OF inv dir fits, of i] new by auto
  obtain st where st: "fuse_getattr ino im' = Inr ((OK, st), im')" "describes im' ino st"
    using fuse_getattr_ok [OF c(2)] .
  let ?e = "e\<lparr>e_attr_timeout := 0, e_entry_timeout := 0, e_generation := 0, e_ino := ino, e_attr := st\<rparr>"
  have reply: "fuseserver_symlink target p name e i im = Inr ([Reply_entry ?e], im')"
    using c(1) st(1) by (simp add: fuseserver_symlink_def Let_def)
  have e: "entry_reply im' ino ?e"
    using st(2) by (simp add: entry_reply_def)
  have "\<exists>im''. fuseserver_readlink ino im' = Inr ([Reply_readlink target], im'')" if "ino \<noteq> 0"
  proof -
    have "c_str target = target"
      using nul by (auto simp: c_str_def takeWhile_eq_all_conv)
    then show ?thesis
      using parse_symbolic_link_eq [OF c(2), where ino = ino and buf = "[]"]
        with_entry_new [OF c(4) dir c(3) that] by (auto simp: fuseserver_readlink_def)
  qed
  moreover have "fuseserver_readlink p im' = Inr ([Reply_err ENOENT], im')"
    using parse_symbolic_link_eq [OF c(2), where ino = p and buf = "[]"] c(4)
    by (simp add: with_entry_def fuseserver_readlink_def)
  ultimately show ?thesis
    using reply createdI [OF c(2,3,4) e dir new name]
    by (intro exI [of _ ?e] exI [of _ im'] conjI) simp_all
qed

theorem symlink_replies_witness:
  "\<exists>e' im'. fuseserver_symlink ''/etc/hosts'' 1 ''h'' blank_entry 0 (root_im sample_env) = Inr ([Reply_entry e'], im')"
  using symlink_replies [OF sample_root(1,2), of "''h''" "''/etc/hosts''" blank_entry 0]
    sample_fits(2) [of "''h''" "''/etc/hosts''"] by (auto simp: dir_find_def)

end
