(* ===== verification/Fuse_Session.thy ===== *)
theory Fuse_Session
  imports Fuse_Props
begin

text \<open>
  A whole session: the requests the kernel sends, one after the other, from the mount on. Every request
  is answered exactly once, and as long as the conditions of the single requests hold no handler ends in
  a fault and the file system stays well formed.
\<close>

section \<open>Safety of the handlers\<close>

named_theorems safe_intros

lemma safe_return [safe_intros]: "client_inv im \<Longrightarrow> safe (io_return x) im"
  by (simp add: safe_def)

lemma safe_bind:
  assumes "safe m im" "\<And>r im'. m im = Inr (r, im') \<Longrightarrow> client_inv im' \<Longrightarrow> safe (f r) im'"
  shows "safe (io_bind m f) im"
proof -
  obtain r im' where m: "m im = Inr (r, im')" "client_inv im'"
    using assms(1) by (auto simp: safe_def)
  then have "safe (f r) im'"
    by (rule assms(2))
  then show ?thesis
    using m by (auto simp: safe_def)
qed

lemma safe_if [safe_intros]: "(b \<Longrightarrow> safe m im) \<Longrightarrow> (\<not> b \<Longrightarrow> safe m' im) \<Longrightarrow> safe (if b then m else m') im"
  by simp

lemma safe_pair [safe_intros]: "(\<And>x y. safe (f x y) im) \<Longrightarrow> safe (case p of (x, y) \<Rightarrow> f x y) im"
  by (cases p) simp

lemma safe_let [safe_intros]: "(\<And>x. safe (f x) im) \<Longrightarrow> safe (let x = a in f x) im"
  by simp

lemma safe_getattr: "client_inv im \<Longrightarrow> safe (fuse_getattr ino) im"
  using fuse_getattr_ok [OF client_invD(1)] by (metis safeI)

lemma safe_isdir: "client_inv im \<Longrightarrow> safe (isdir ino) im"
  using isfile_ok(2) [OF client_invD(1)] by (metis safeI)

lemma safe_fill:
  assumes "dirent_lib ds ad" "client_inv im"
  shows "safe (dirbuf_fill ds ad its b) im"
  using dirbuf_fill_ok [OF assms(1) client_invD(1) [OF assms(2)]] client_inv_same [OF assms(2)] by (metis safeI)

lemma safe_createhelper:
  assumes "client_inv im" "room_for im p name"
  shows "safe (fuseserver_createhelper p name e type i) im"
  unfolding fuseserver_createhelper_def
  by (intro safe_let safe_bind [where m = "if type = T_FILE then create p name i else mkdir p name i"])
    (auto intro!: safe_intros safe_bind [OF safe_getattr] safe_create [OF assms] safe_mkdir [OF assms])

text \<open>The conditions of the requests: room for what is added, names without a slash, data and sizes only
  for files that are no directories, offsets that are not negative.\<close>

primrec admissible :: "inode_manager \<Rightarrow> request \<Rightarrow> bool" where
  "admissible im (Getattr ino) = True"
| "admissible im (Setattr ino sz to_set) = (\<nexists>c. files im (eid_inum ino) = Some (1, c))"
| "admissible im (Read ino sz off) = (0 \<le> sint off)"
| "admissible im (Write ino buf sz off) = room_for_data im ino sz off buf"
| "admissible im (Create parent name) = room_for im parent name"
| "admissible im (Mknod parent name) = room_for im parent name"
| "admissible im (Mkdir parent name) = room_for im parent name"
| "admissible im (Lookup parent name) = True"
| "admissible im (Readdir ino sz off) = True"
| "admissible im (Open ino) = True"
| "admissible im (Unlink parent name) = True"
| "admissible im (Symlink link parent name) = room_for_link im parent name link"
| "admissible im (Readlink ino) = True"
| "admissible im Statfs = True"

lemma safe_oper:
  assumes lib: "dirent_lib ds ad" and inv: "client_inv im" and ok: "admissible im req"
  shows "safe (fuseserver_oper ds ad e i req) im"
proof (cases req)
  case (Getattr ino)
  then show ?thesis
    by (auto simp: fuseserver_getattr_def intro!: safe_bind [OF safe_getattr] safe_intros inv)
next
  case (Setattr ino sz to_set)
  then show ?thesis
    using ok by (auto simp: fuseserver_setattr_def intro!: safe_intros safe_bind [OF safe_data(3)]
        safe_bind [OF safe_getattr] inv)
next
  case (Read ino sz off)
  then show ?thesis
    using ok by (auto simp: fuseserver_read_def intro!: safe_bind [OF safe_data(1)] safe_intros inv)
next
  case (Write ino buf sz off)
  then show ?thesis
    using ok by (auto simp: fuseserver_write_def intro!: safe_bind [OF safe_data(2)] safe_intros inv)
next
  case (Create parent name)
  then show ?thesis
    using ok by (auto simp: fuseserver_create_def intro!: safe_bind [OF safe_createhelper] safe_intros inv)
next
  case (Mknod parent name)
  then show ?thesis
    using ok by (auto simp: fuseserver_mknod_def intro!: safe_bind [OF safe_createhelper] safe_intros inv)
next
  case (Mkdir parent name)
  then show ?thesis
    using ok by (auto simp: fuseserver_mkdir_def intro!: safe_intros safe_bind [OF safe_createhelper] inv)
next
  case (Lookup parent name)
  then show ?thesis
    by (auto simp: fuseserver_lookup_def intro!: safe_intros safe_bind [OF safe_queries(2)]
        safe_bind [OF safe_getattr] inv)
next
  case (Readdir ino sz off)
  then show ?thesis
    by (auto simp: fuseserver_readdir_def intro!: safe_bind [OF safe_isdir] safe_bind [OF safe_queries(1)]
        safe_bind [OF safe_fill [OF lib]] safe_intros inv)
next
  case (Unlink parent name)
  then show ?thesis
    by (auto simp: fuseserver_unlink_def intro!: safe_bind [OF safe_unlink] safe_intros inv)
next
  case (Symlink link parent name)
  then show ?thesis
    using ok by (auto simp: fuseserver_symlink_def intro!: safe_intros safe_bind [OF safe_symlink]
        safe_bind [OF safe_getattr] inv)
next
  case (Readlink ino)
  then show ?thesis
    by (auto simp: fuseserver_readlink_def intro!: safe_bind [OF safe_queries(3)] safe_intros inv)
qed (simp_all add: fuseserver_open_def fuseserver_statfs_def safe_return inv)

section \<open>Sessions\<close>

text \<open>Each request is admissible in the state in which it arrives.\<close>

primrec session_ok ::
  "(nat \<Rightarrow> nat) \<Rightarrow> (string \<Rightarrow> stat \<Rightarrow> u64 \<Rightarrow> byte list) \<Rightarrow> (fuse_entry_param \<times> u64 \<times> request) list \<Rightarrow> inode_manager \<Rightarrow> bool" where
  "session_ok ds ad [] im = True"
| "session_ok ds ad (r # rs) im = (case r of (e, i, req) \<Rightarrow> admissible im req \<and>
     (case fuseserver_oper ds ad e i req im of Inl _ \<Rightarrow> True | Inr (_, im') \<Rightarrow> session_ok ds ad rs im'))"

lemma serve_ok:
  assumes lib: "dirent_lib ds ad" and inv: "client_inv im" and ok: "session_ok ds ad rs im"
  shows "\<exists>replies im'. serve ds ad rs im = Inr (replies, im') \<and> client_inv im' \<and>
    length replies = length rs \<and> (\<forall>r\<in>set replies. length r = 1)"
  using inv ok
proof (induction rs arbitrary: im)
  case Nil
  then show ?case
    by simp
next
  case (Cons r rs)
  obtain e i req where r: "r = (e, i, req)"
    by (cases r)
  obtain reply im1 where h: "fuseserver_oper ds ad e i req im = Inr (reply, im1)" "client_inv im1"
    using safe_oper [OF lib Cons.prems(1), of req e i] Cons.prems(2) r by (auto simp: safe_def)
  then obtain replies im' where s: "serve ds ad rs im1 = Inr (replies, im')" "client_inv im'"
    "length replies = length rs" "\<forall>r\<in>set replies. length r = 1"
    using Cons.IH [OF h(2)] Cons.prems(2) r by auto
  have "length reply = 1"
    using one_reply_oper [of ds ad e i req] h(1) by (fastforce simp: returns_def)
  then show ?case
    using h s by (simp add: r)
qed

text \<open>No handler of the table ever sends more or fewer than one reply when it returns, in whatever
  state the file system is; also the two handlers that have a path without a reply, for a size that
  cannot be set and for a new link without attributes, never take it.\<close>

theorem handlers_reply_once:
  assumes "fuseserver_oper ds ad e i req im = Inr (replies, im')"
  shows "\<exists>r. replies = [r]"
  using one_reply_oper [of ds ad e i req] assms unfolding returns_def by blast

theorem handlers_reply_once_witness:
  "\<exists>replies r. fuseserver_oper sample_size sample_dirent blank_entry 0 (Setattr 9 1 0) (root_im sample_env) =
     Inr (replies, root_im sample_env) \<and> replies = [r]"
proof -
  have "fuseserver_oper sample_size sample_dirent blank_entry 0 (Setattr 9 1 0) (root_im sample_env) =
    Inr ([Reply_err ENOSYS], root_im sample_env)"
    by (simp add: fuseserver_setattr_def)
  from this handlers_reply_once [OF this] show ?thesis
    by blast
qed

section \<open>The mount\<close>

text \<open>\<open>main\<close> constructs the client without arguments: when the constructor returns, the root is an
  empty directory, so the first listing of it is empty.\<close>

lemma mount_ok:
  assumes init: "chfs_client_new junk env = Inr im" and lib: "dirent_lib ds ad"
  shows "client_inv im \<and> files im = [1 \<mapsto> (1, [])] \<and>
    (\<exists>im'. fuseserver_readdir ds ad 1 sz 0 im = Inr ([Reply_buf []], im') \<and> same im im')"
proof -
  have im: "im = root_im env"
    using init by (auto simp: chfs_client_new_def extent_client_init_def extent_server_init_def
        inode_manager_init_eq split: if_splits)
  have fs: "fs_inv im" "files im = [1 \<mapsto> (1, [])]" "eid_inum 1 = 1" "print_dir [] = []"
    by (simp_all add: im root_im_facts eid_inum_def print_dir_def)
  then have "client_inv im" and "is_dir im 1 []"
    by (auto simp: client_inv_def is_dir_def names_ok_def intro: exI [of _ "[]"] split: if_splits)
  moreover obtain im' where "fuseserver_readdir ds ad 1 sz 0 im = Inr ([Reply_buf []], im')" "same im im'"
    using fuseserver_readdir_ok [OF lib fs(1), of 1 "[]" sz 0] \<open>is_dir im 1 []\<close> by auto
  ultimately show ?thesis
    using fs(2) by blast
qed

end
