(* ===== verification/Fuse_Spec.thy ===== *)
theory Fuse_Spec
  imports Namespace Fuse_Session
begin

text \<open>
  The service as a whole: what the kernel sees of the mounted file system, as a relation between
  requests, replies and the nodes of the abstract file system. A request does the step of one operation
  of the abstract file system, or none, and its reply shows the outcome and the nodes after the step. The
  handlers refine it, and so does every session from the mount on.
\<close>

section \<open>Requests and replies over nodes\<close>

fun op_of :: "request \<Rightarrow> fs_op option" where
  "op_of (Setattr ino sz to_set) = (if FUSE_SET_ATTR_SIZE AND to_set \<noteq> 0 then Some (Op_setsize ino sz) else None)"
| "op_of (Read ino sz off) = Some (Op_read ino sz off)"
| "op_of (Write ino buf sz off) = Some (Op_write ino sz off buf)"
| "op_of (Create p n) = Some (Op_create p n)"
| "op_of (Mknod p n) = Some (Op_create p n)"
| "op_of (Mkdir p n) = Some (Op_mkdir p n)"
| "op_of (Lookup p n) = Some (Op_lookup p n)"
| "op_of (Readdir ino sz off) = Some (Op_readdir ino)"
| "op_of (Unlink p n) = Some (Op_unlink p n)"
| "op_of (Symlink t p n) = Some (Op_symlink p n t)"
| "op_of (Readlink ino) = Some (Op_readlink ino)"
| "op_of _ = None"

text \<open>The attributes of a number: type, permissions, links and size. The times are left open. A number
  without a node is shown as an empty link.\<close>

definition stat_shows :: "fs \<Rightarrow> u64 \<Rightarrow> stat \<Rightarrow> bool" where
  "stat_shows s ino st \<longleftrightarrow> st_ino st = ino \<and>
     (st_mode st, st_nlink st, unat (st_size st)) =
       (case s (eid_inum ino) of
          None \<Rightarrow> (0xA1FF, 1, 0)
        | Some (Dir _) \<Rightarrow> (0x41FF, 2, 0)
        | Some (File c) \<Rightarrow> (0x81B6, 1, length c)
        | Some (Link c) \<Rightarrow> (0xA1FF, 1, length c))"

definition entry_shows :: "fs \<Rightarrow> u64 \<Rightarrow> fuse_entry_param \<Rightarrow> bool" where
  "entry_shows s ino e \<longleftrightarrow> e_ino e = ino \<and> e_generation e = 0 \<and> e_attr_timeout e = 0 \<and>
     e_entry_timeout e = 0 \<and> stat_shows s ino (e_attr e)"

text \<open>The reply to an operation with its outcome; \<open>s\<close> are the nodes after it.\<close>

definition creation_shows :: "(fuse_entry_param \<Rightarrow> reply) \<Rightarrow> fs \<Rightarrow> outcome \<Rightarrow> reply \<Rightarrow> bool" where
  "creation_shows reply s out r \<longleftrightarrow>
     (case out of
        (OK, Ino i) \<Rightarrow> \<exists>e. r = reply e \<and> entry_shows s i e
      | (EXIST, _) \<Rightarrow> r = Reply_err EEXIST
      | _ \<Rightarrow> r = Reply_err ENOENT)"

primrec reply_shows ::
  "(nat \<Rightarrow> nat) \<Rightarrow> (string \<Rightarrow> stat \<Rightarrow> u64 \<Rightarrow> byte list) \<Rightarrow> fs \<Rightarrow> request \<Rightarrow> outcome \<Rightarrow> reply \<Rightarrow> bool" where
  "reply_shows ds ad s (Setattr ino sz to_set) out r \<longleftrightarrow>
     fst out = OK \<and> (\<exists>st. r = Reply_attr st \<and> stat_shows s ino st)"
| "reply_shows ds ad s (Read ino sz off) out r \<longleftrightarrow> (\<exists>b. out = (OK, Bytes b) \<and> r = Reply_buf b)"
| "reply_shows ds ad s (Write ino buf sz off) out r \<longleftrightarrow> (\<exists>n. out = (OK, Count n) \<and> r = Reply_write n)"
| "reply_shows ds ad s (Create p n) out r \<longleftrightarrow> creation_shows Reply_create s out r"
| "reply_shows ds ad s (Mknod p n) out r \<longleftrightarrow> creation_shows Reply_entry s out r"
| "reply_shows ds ad s (Mkdir p n) out r \<longleftrightarrow> creation_shows Reply_entry s out r"
| "reply_shows ds ad s (Symlink t p n) out r \<longleftrightarrow> creation_shows Reply_entry s out r"
| "reply_shows ds ad s (Lookup p n) out r \<longleftrightarrow>
     (case out of (OK, Ino i) \<Rightarrow> \<exists>e. r = Reply_entry e \<and> entry_shows s i e | _ \<Rightarrow> r = Reply_err ENOENT)"
| "reply_shows ds ad s (Readdir ino sz off) out r \<longleftrightarrow>
     (case out of
        (OK, Listing its) \<Rightarrow> r = Reply_buf (take (unat sz) (drop (unat off) (listing ds ad 0 its)))
      | _ \<Rightarrow> r = Reply_err ENOTDIR)"
| "reply_shows ds ad s (Unlink p n) out r \<longleftrightarrow>
     r = Reply_err (case fst out of OK \<Rightarrow> E0 | NOENT \<Rightarrow> ENOENT | _ \<Rightarrow> ENOTEMPTY)"
| "reply_shows ds ad s (Readlink ino) out r \<longleftrightarrow>
     (case out of (OK, Bytes t) \<Rightarrow> r = Reply_readlink (c_str t) | _ \<Rightarrow> r = Reply_err ENOENT)"
| "reply_shows ds ad s (Getattr ino) out r \<longleftrightarrow> False"
| "reply_shows ds ad s (Open ino) out r \<longleftrightarrow> False"
| "reply_shows ds ad s Statfs out r \<longleftrightarrow> False"

text \<open>The requests that do no operation.\<close>

fun reply_alone :: "fs \<Rightarrow> request \<Rightarrow> reply \<Rightarrow> bool" where
  "reply_alone s (Getattr ino) r \<longleftrightarrow> (\<exists>st. r = Reply_attr st \<and> stat_shows s ino st)"
| "reply_alone s (Setattr ino sz to_set) r \<longleftrightarrow> r = Reply_err ENOSYS"
| "reply_alone s (Open ino) r \<longleftrightarrow> r = Reply_open"
| "reply_alone s Statfs r \<longleftrightarrow> r = Reply_statfs \<lparr>f_namemax = 255, f_bsize = 512\<rparr>"
| "reply_alone s _ r \<longleftrightarrow> False"

definition fuse_step ::
  "(nat \<Rightarrow> nat) \<Rightarrow> (string \<Rightarrow> stat \<Rightarrow> u64 \<Rightarrow> byte list) \<Rightarrow> fs \<Rightarrow> request \<Rightarrow> reply \<Rightarrow> fs \<Rightarrow> bool" where
  "fuse_step ds ad s req r s' \<longleftrightarrow>
     (case op_of req of
        None \<Rightarrow> s' = s \<and> reply_alone s req r
      | Some op \<Rightarrow> \<exists>out. fs_step s op out s' \<and> reply_shows ds ad s' req out r)"

section \<open>Attributes\<close>

lemma describes_shows:
  assumes ok: "fs_ok im" and d: "describes im ino st"
  shows "stat_shows (abs_fs im) ino st"
proof (cases "files im (eid_inum ino)")
  case None
  then show ?thesis
    using d by (simp add: describes_def stat_shows_def abs_fs_at)
next
  case (Some tc)
  then obtain t c where f: "files im (eid_inum ino) = Some (t, c)"
    by (cases tc) simp
  then have "t = 1 \<or> t = 2 \<or> t = 3"
    using fs_okD(4) [OF ok] by blast
  then show ?thesis
    using d f by (auto simp: describes_def stat_shows_def abs_fs_at node_of_def)
qed

lemma getattr_shows:
  assumes "fs_ok im"
  obtains st where "fuse_getattr ino im = Inr ((OK, st), im)" "stat_shows (abs_fs im) ino st"
  using fuse_getattr_ok [OF fs_okD(2) [OF assms]] describes_shows [OF assms] by metis

section \<open>The handlers\<close>

inductive_cases fs_stepE:
  "fs_step s (Op_create p n) out s'" "fs_step s (Op_mkdir p n) out s'" "fs_step s (Op_symlink p n t) out s'"
  "fs_step s (Op_unlink p n) out s'" "fs_step s (Op_lookup p n) out s'" "fs_step s (Op_readdir p) out s'"
  "fs_step s (Op_readlink i) out s'" "fs_step s (Op_read i sz off) out s'"
  "fs_step s (Op_write i sz off dat) out s'" "fs_step s (Op_setsize i sz) out s'"

text \<open>A handler serves a request: it returns with one reply, in a well-formed state, after a step of the
  service.\<close>

definition serves ::
  "(nat \<Rightarrow> nat) \<Rightarrow> (string \<Rightarrow> stat \<Rightarrow> u64 \<Rightarrow> byte list) \<Rightarrow> request \<Rightarrow> reply list io \<Rightarrow> inode_manager \<Rightarrow> bool" where
  "serves ds ad req m im \<longleftrightarrow> (\<exists>r im'. m im = Inr ([r], im') \<and> fs_ok im' \<and>
     fuse_step ds ad (abs_fs im) req r (abs_fs im'))"

text \<open>Most handlers call one operation of the client and then only look at the state.\<close>

lemma servesI:
  assumes "refines u op im" "op_of req = Some op"
    and "\<And>out im'. run_op u op im = Inr (out, im') \<Longrightarrow> fs_ok im' \<Longrightarrow> fs_step (abs_fs im) op out (abs_fs im') \<Longrightarrow>
      \<exists>r. m im = Inr ([r], im') \<and> reply_shows ds ad (abs_fs im') req out r"
  shows "serves ds ad req m im"
proof -
  obtain out im' where r: "run_op u op im = Inr (out, im')" "fs_ok im'" "fs_step (abs_fs im) op out (abs_fs im')"
    using assms(1) unfolding refines_def by blast
  from assms(3) [OF this] obtain rep where "m im = Inr ([rep], im')" "reply_shows ds ad (abs_fs im') req out rep"
    by blast
  then show ?thesis
    using r(2,3) unfolding serves_def fuse_step_def assms(2) option.case by blast
qed

lemma run_opE:
  assumes "io_bind m (\<lambda>x. io_return (f x)) im = Inr (out, im')"
  obtains x where "m im = Inr (x, im')" "out = f x"
  using assms by (auto simp: io_bind_def io_return_def res_bind_eq_Inr)

text \<open>The handlers that create a file, a directory or a link.\<close>

lemma entry_shows_new:
  "stat_shows s i st \<Longrightarrow>
   entry_shows s i (e\<lparr>e_attr_timeout := 0, e_entry_timeout := 0, e_generation := 0, e_ino := i, e_attr := st\<rparr>)"
  by (simp add: entry_shows_def)

lemma createhelper_shows:
  assumes ok: "fs_ok im'"
    and c: "(if type = T_FILE then create p n i else mkdir p n i) im = Inr ((ret, ino), im')"
  obtains e' where "fuseserver_createhelper p n e type i im = Inr ((ret, e'), im')"
    "ret = OK \<longrightarrow> entry_shows (abs_fs im') ino e'"
proof -
  obtain st where st: "fuse_getattr ino im' = Inr ((OK, st), im')" "stat_shows (abs_fs im') ino st"
    using getattr_shows [OF ok] .
  show ?thesis
    using that c st(1) entry_shows_new [OF st(2), of e]
    by (cases "ret = OK") (simp_all add: fuseserver_createhelper_def Let_def)
qed

lemma creation_outcome:
  "ret \<noteq> OK \<or> entry_shows s ino e \<Longrightarrow>
   creation_shows reply s (ret, if ret = OK \<or> ret = EXIST then Ino ino else Nothing)
     (if ret = OK then reply e else if ret = EXIST then Reply_err EEXIST else Reply_err ENOENT)"
  by (cases ret) (auto simp: creation_shows_def)

lemma helper_shows:
  assumes "io_bind (if type = T_FILE then create p n i else mkdir p n i) (\<lambda>(st, i).
      io_return (st, if st = OK \<or> st = EXIST then Ino i else Nothing)) im = Inr (out, im')" "fs_ok im'"
  shows "\<exists>ret ino e'. fuseserver_createhelper p n e type i im = Inr ((ret, e'), im') \<and>
    out = (ret, if ret = OK \<or> ret = EXIST then Ino ino else Nothing) \<and>
    (ret \<noteq> OK \<or> entry_shows (abs_fs im') ino e')"
proof -
  obtain ret ino where c: "(if type = T_FILE then create p n i else mkdir p n i) im = Inr ((ret, ino), im')"
    "out = (ret, if ret = OK \<or> ret = EXIST then Ino ino else Nothing)"
    using assms(1) by (auto simp: io_bind_def io_return_def res_bind_eq_Inr)
  then show ?thesis
    using createhelper_shows [OF assms(2) c(1), of e] by blast
qed

lemma serves_creation:
  assumes ref: "refines i op im" and op: "op_of req = Some op"
    and run: "run_op i op = io_bind (if type = T_FILE then create p n i else mkdir p n i) (\<lambda>(st, i).
      io_return (st, if st = OK \<or> st = EXIST then Ino i else Nothing))"
    and handler: "\<And>ret e' im'. fuseserver_createhelper p n e type i im = Inr ((ret, e'), im') \<Longrightarrow>
      m im = Inr ([if ret = OK then reply e' else if ret = EXIST then Reply_err EEXIST else Reply_err ENOENT], im')"
    and spec: "\<And>s out r. reply_shows ds ad s req out r \<longleftrightarrow> creation_shows reply s out r"
  shows "serves ds ad req m im"
proof (rule servesI [OF ref op])
  fix out im'
  assume "run_op i op im = Inr (out, im')" "fs_ok im'"
  then obtain ret ino e' where h: "fuseserver_createhelper p n e type i im = Inr ((ret, e'), im')"
    "out = (ret, if ret = OK \<or> ret = EXIST then Ino ino else Nothing)" "ret \<noteq> OK \<or> entry_shows (abs_fs im') ino e'"
    using helper_shows [where e = e] unfolding run by blast
  show "\<exists>r. m im = Inr ([r], im') \<and> reply_shows ds ad (abs_fs im') req out r"
    unfolding handler [OF h(1)] spec h(2) using creation_outcome [OF h(3), of reply] by simp
qed

lemma serves_create:
  assumes "refines i (Op_create p n) im"
  shows "serves ds ad (Create p n) (fuseserver_create p n e i) im"
    and "serves ds ad (Mknod p n) (fuseserver_mknod p n e i) im"
  by (rule serves_creation [OF assms, where type = T_FILE and e = e and p = p and n = n];
      simp add: fuseserver_create_def fuseserver_mknod_def)+

lemma serves_mkdir:
  assumes "refines i (Op_mkdir p n) im"
  shows "serves ds ad (Mkdir p n) (fuseserver_mkdir p n e i) im"
  by (rule serves_creation [OF assms, where type = T_DIR and p = p and n = n
        and e = "e\<lparr>e_attr_timeout := 0, e_entry_timeout := 0, e_generation := 0\<rparr>"];
      simp add: fuseserver_mkdir_def Let_def)

lemma serves_symlink:
  assumes "refines i (Op_symlink p n t) im"
  shows "serves ds ad (Symlink t p n) (fuseserver_symlink t p n e i) im"
proof (rule servesI [OF assms])
  fix out im'
  assume r: "run_op i (Op_symlink p n t) im = Inr (out, im')" and ok: "fs_ok im'"
  obtain ret ino where c: "create_symbolic_link p t n i im = Inr ((ret, ino), im')"
    "out = (ret, if ret = OK \<or> ret = EXIST then Ino ino else Nothing)"
    using r by (auto simp: io_bind_def io_return_def res_bind_eq_Inr)
  obtain st where st: "fuse_getattr ino im' = Inr ((OK, st), im')" "stat_shows (abs_fs im') ino st"
    using getattr_shows [OF ok] .
  show "\<exists>r. fuseserver_symlink t p n e i im = Inr ([r], im') \<and>
      reply_shows ds ad (abs_fs im') (Symlink t p n) out r"
    using creation_outcome [of ret "abs_fs im'" ino _ Reply_entry] entry_shows_new [OF st(2), of e] c st(1)
    by (cases "ret = OK") (auto simp: fuseserver_symlink_def Let_def)
qed simp

lemma serves_lookup:
  assumes "refines i (Op_lookup p n) im"
  shows "serves ds ad (Lookup p n) (fuseserver_lookup p n e i) im"
proof (rule servesI [OF assms])
  fix out im'
  assume r: "run_op i (Op_lookup p n) im = Inr (out, im')" and ok: "fs_ok im'"
    and step: "fs_step (abs_fs im) (Op_lookup p n) out (abs_fs im')"
  obtain ret found ino where c: "lookup p n False i im = Inr ((ret, found, ino), im')"
    "out = (ret, if found then Ino ino else Nothing)"
    using r by (auto simp: io_bind_def io_return_def res_bind_eq_Inr)
  have "found \<Longrightarrow> ret = OK"
    using step c(2) by (auto elim!: fs_stepE)
  obtain st where st: "fuse_getattr ino im' = Inr ((OK, st), im')" "stat_shows (abs_fs im') ino st"
    using getattr_shows [OF ok] .
  show "\<exists>r. fuseserver_lookup p n e i im = Inr ([r], im') \<and> reply_shows ds ad (abs_fs im') (Lookup p n) out r"
    using \<open>found \<Longrightarrow> ret = OK\<close> entry_shows_new [OF st(2), of e] c st(1)
    by (cases found) (auto simp: fuseserver_lookup_def Let_def split: xxstatus.split)
qed simp

text \<open>Listings, removal and links.\<close>

lemma serves_readdir:
  assumes lib: "dirent_lib ds ad" and ok: "fs_ok im"
  shows "serves ds ad (Readdir p sz off) (fuseserver_readdir ds ad p sz off) im"
  using fs_okD(1) [OF ok]
proof (cases rule: dir_or_not [of _ p])
  case (dir its)
  obtain im' where r: "fuseserver_readdir ds ad p sz off im =
      Inr ([Reply_buf (take (unat sz) (drop (unat off) (listing ds ad 0 its)))], im')" "same im im'"
    using fuseserver_readdir_ok [OF lib fs_okD(2) [OF ok] dir(1)] .
  have "fs_step (abs_fs im) (Op_readdir p) (OK, Listing its) (abs_fs im')"
    unfolding abs_fs_same [OF r(2)] using abs_fs_dir [OF dir(1)] by (rule fs_readdir)
  then show ?thesis
    using r(1) fs_ok_same [OF ok r(2)] by (fastforce simp: serves_def fuse_step_def)
next
  case other
  then have "fuseserver_readdir ds ad p sz off im = Inr ([Reply_err ENOTDIR], im)"
    by (simp add: fuseserver_readdir_def io_bind_def isfile_ok [OF fs_okD(2) [OF ok]])
  moreover have "fs_step (abs_fs im) (Op_readdir p) (IOERR, Nothing) (abs_fs im)"
    using other abs_fs_no_dir by (intro fs_not_dir) auto
  ultimately show ?thesis
    using ok by (fastforce simp: serves_def fuse_step_def)
qed

lemma serves_unlink:
  assumes "refines i (Op_unlink p n) im"
  shows "serves ds ad (Unlink p n) (fuseserver_unlink p n) im"
proof (rule servesI [OF assms])
  fix out im'
  assume r: "run_op i (Op_unlink p n) im = Inr (out, im')"
    and step: "fs_step (abs_fs im) (Op_unlink p n) out (abs_fs im')"
  obtain ret where c: "unlink p n im = Inr (ret, im')" "out = (ret, Nothing)"
    using r by (auto simp: io_bind_def io_return_def res_bind_eq_Inr)
  have "ret = OK \<or> ret = NOENT \<or> ret = IOERR"
    using step c(2) by (auto elim!: fs_stepE)
  then show "\<exists>r. fuseserver_unlink p n im = Inr ([r], im') \<and> reply_shows ds ad (abs_fs im') (Unlink p n) out r"
    using c by (auto simp: fuseserver_unlink_def)
qed simp

lemma serves_readlink:
  assumes "refines i (Op_readlink ino) im"
  shows "serves ds ad (Readlink ino) (fuseserver_readlink ino) im"
proof (rule servesI [OF assms])
  fix out im'
  assume "run_op i (Op_readlink ino) im = Inr (out, im')"
  then obtain ret t where "parse_symbolic_link [] ino im = Inr ((ret, t), im')"
    "out = (ret, if ret = OK then Bytes t else Nothing)"
    by (auto simp: io_bind_def io_return_def res_bind_eq_Inr)
  then show "\<exists>r. fuseserver_readlink ino im = Inr ([r], im') \<and>
      reply_shows ds ad (abs_fs im') (Readlink ino) out r"
    by (cases ret) (auto simp: fuseserver_readlink_def)
qed simp

text \<open>Data.\<close>

lemma serves_read:
  assumes "refines i (Op_read ino sz off) im"
  shows "serves ds ad (Read ino sz off) (fuseserver_read ino sz off) im"
proof (rule servesI [OF assms])
  fix out im'
  assume r: "run_op i (Op_read ino sz off) im = Inr (out, im')"
    and step: "fs_step (abs_fs im) (Op_read ino sz off) out (abs_fs im')"
  obtain ret b where c: "chfs_read ino sz off [] im = Inr ((ret, b), im')" "out = (ret, Bytes b)"
    using r by (auto simp: io_bind_def io_return_def res_bind_eq_Inr)
  moreover have "ret = OK"
    using step c(2) by (auto elim!: fs_stepE)
  ultimately show "\<exists>r. fuseserver_read ino sz off im = Inr ([r], im') \<and>
      reply_shows ds ad (abs_fs im') (Read ino sz off) out r"
    by (simp add: fuseserver_read_def)
qed simp

lemma serves_write:
  assumes "refines 0 (Op_write ino sz off buf) im"
  shows "serves ds ad (Write ino buf sz off) (fuseserver_write ino buf sz off) im"
proof (rule servesI [OF assms])
  fix out im'
  assume r: "run_op 0 (Op_write ino sz off buf) im = Inr (out, im')"
    and step: "fs_step (abs_fs im) (Op_write ino sz off buf) out (abs_fs im')"
  obtain ret k where c: "chfs_write ino sz off buf 0 im = Inr ((ret, k), im')" "out = (ret, Count k)"
    using r by (auto simp: io_bind_def io_return_def res_bind_eq_Inr)
  moreover have "ret = OK"
    using step c(2) by (auto elim!: fs_stepE)
  ultimately show "\<exists>r. fuseserver_write ino buf sz off im = Inr ([r], im') \<and>
      reply_shows ds ad (abs_fs im') (Write ino buf sz off) out r"
    by (simp add: fuseserver_write_def)
qed simp

lemma serves_setattr:
  assumes "refines i (Op_setsize ino sz) im" "FUSE_SET_ATTR_SIZE AND to_set \<noteq> 0"
  shows "serves ds ad (Setattr ino sz to_set) (fuseserver_setattr ino sz to_set) im"
proof (rule servesI [OF assms(1)])
  fix out im'
  assume r: "run_op i (Op_setsize ino sz) im = Inr (out, im')" and ok: "fs_ok im'"
    and step: "fs_step (abs_fs im) (Op_setsize ino sz) out (abs_fs im')"
  obtain ret where c: "setattr ino sz im = Inr (ret, im')" "out = (ret, Nothing)"
    using r by (auto simp: io_bind_def io_return_def res_bind_eq_Inr)
  moreover have "ret = OK"
    using step c(2) by (auto elim!: fs_stepE)
  moreover obtain st where "fuse_getattr ino im' = Inr ((OK, st), im')" "stat_shows (abs_fs im') ino st"
    using getattr_shows [OF ok] .
  ultimately show "\<exists>r. fuseserver_setattr ino sz to_set im = Inr ([r], im') \<and>
      reply_shows ds ad (abs_fs im') (Setattr ino sz to_set) out r"
    using assms(2) by (simp add: fuseserver_setattr_def)
qed (use assms(2) in simp)

text \<open>The requests that do no operation.\<close>

lemma serves_alone:
  assumes ok: "fs_ok im" and req: "op_of req = None"
  shows "serves ds ad req (fuseserver_oper ds ad e i req) im"
proof (cases req)
  case (Getattr ino)
  obtain st where "fuse_getattr ino im = Inr ((OK, st), im)" "stat_shows (abs_fs im) ino st"
    using getattr_shows [OF ok] .
  then show ?thesis
    using Getattr ok by (simp add: serves_def fuse_step_def fuseserver_getattr_def)
qed (use ok req in \<open>simp_all add: serves_def fuse_step_def fuseserver_setattr_def fuseserver_open_def
    fuseserver_statfs_def split: if_splits\<close>)

lemma serves_oper:
  assumes lib: "dirent_lib ds ad" and ok: "fs_ok im" and adm: "admissible im req"
  shows "serves ds ad req (fuseserver_oper ds ad e i req) im"
proof (cases "op_of req")
  case None
  then show ?thesis
    by (rule serves_alone [OF ok])
next
  case (Some op)
  have "op_ok im op"
    using adm Some by (cases req) (auto split: if_splits)
  then have "refines u op im" for u
    by (rule refines_op [OF ok])
  then show ?thesis
    using Some by (cases req) (auto split: if_splits intro: serves_create serves_mkdir serves_symlink serves_lookup
        serves_readdir [OF lib ok] serves_unlink serves_readlink serves_read serves_write serves_setattr)
qed

section \<open>Sessions\<close>

inductive fuse_trace ::
  "(nat \<Rightarrow> nat) \<Rightarrow> (string \<Rightarrow> stat \<Rightarrow> u64 \<Rightarrow> byte list) \<Rightarrow> fs \<Rightarrow> (request \<times> reply) list \<Rightarrow> fs \<Rightarrow> bool" for ds ad where
  fuse_trace_Nil: "fuse_trace ds ad s [] s"
| fuse_trace_Cons: "fuse_step ds ad s req r s1 \<Longrightarrow> fuse_trace ds ad s1 tr s2 \<Longrightarrow>
    fuse_trace ds ad s ((req, r) # tr) s2"

inductive_simps fuse_trace_simps:
  "fuse_trace ds ad s [] s'" "fuse_trace ds ad s (rr # tr) s'"

lemma tree_fuse_step: "fuse_step ds ad s req r s' \<Longrightarrow> tree s \<Longrightarrow> tree s'"
  by (auto simp: fuse_step_def split: option.splits intro: tree_step)

lemma tree_fuse_trace: "fuse_trace ds ad s tr s' \<Longrightarrow> tree s \<Longrightarrow> tree s'"
  by (induction rule: fuse_trace.induct) (auto intro: tree_fuse_step)

abbreviation request_of :: "fuse_entry_param \<times> u64 \<times> request \<Rightarrow> request" where
  "request_of x \<equiv> snd (snd x)"

lemma serve_refines:
  assumes lib: "dirent_lib ds ad" and ok: "fs_ok im" and session: "session_ok ds ad rs im"
  shows "\<exists>answers im'. serve ds ad rs im = Inr (map (\<lambda>r. [r]) answers, im') \<and> fs_ok im' \<and>
    length answers = length rs \<and> fuse_trace ds ad (abs_fs im) (zip (map request_of rs) answers) (abs_fs im')"
  using ok session
proof (induction rs arbitrary: im)
  case Nil
  then show ?case
    by (auto intro: fuse_trace_Nil)
next
  case (Cons x rs)
  obtain e i req where x: "x = (e, i, req)"
    by (cases x)
  obtain r im1 where h: "fuseserver_oper ds ad e i req im = Inr ([r], im1)" "fs_ok im1"
    "fuse_step ds ad (abs_fs im) req r (abs_fs im1)"
    using serves_oper [OF lib Cons.prems(1), of req e i] Cons.prems(2) x by (auto simp: serves_def)
  then obtain answers im' where s: "serve ds ad rs im1 = Inr (map (\<lambda>r. [r]) answers, im')" "fs_ok im'"
    "length answers = length rs" "fuse_trace ds ad (abs_fs im1) (zip (map request_of rs) answers) (abs_fs im')"
    using Cons.IH [OF h(2)] Cons.prems(2) x by auto
  show ?case
    by (rule exI [of _ "r # answers"], rule exI [of _ im'])
      (use h s in \<open>simp add: x fuse_trace_Cons\<close>)
qed

lemma mount_fs:
  assumes "chfs_client_new junk env = Inr im" "dirent_lib ds ad"
  shows "fs_ok im" "abs_fs im = fs_init"
proof -
  have im: "client_inv im" "files im = [1 \<mapsto> (1, [])]"
    using mount_ok [OF assms] by blast+
  then show "fs_ok im"
    by (simp add: fs_ok_def typed_def)
  have "node_of (1, []) = Dir []"
    using node_of_dir [of "[]"] by (simp add: names_ok_def print_dir_def)
  then show "abs_fs im = fs_init"
    by (auto simp: abs_fs_def abs_files_def im(2) fs_init_def)
qed

text \<open>C3. The whole service refines the abstract file system. From the mount on, every request that is
  admissible is answered with exactly one reply, in order, and requests and replies are a behaviour of the
  abstract service that starts with an empty root: each request does the step of its operation on the
  nodes, or none, and its reply shows the outcome, the attributes of the node and the page of the listing as they are
  after that step. At the end the directories form a tree.\<close>

theorem service_refines:
  assumes "chfs_client_new junk env = Inr im0" "dirent_lib ds ad" "session_ok ds ad rs im0"
  shows "\<exists>answers im. serve ds ad rs im0 = Inr (map (\<lambda>r. [r]) answers, im) \<and> length answers = length rs \<and>
    fuse_trace ds ad fs_init (zip (map request_of rs) answers) (abs_fs im) \<and> tree (abs_fs im)"
  using serve_refines [OF assms(2) mount_fs(1) [OF assms(1,2)] assms(3)] tree_fuse_trace [OF _ tree_init]
  unfolding mount_fs(2) [OF assms(1,2)] by blast

text \<open>A mounted file system in which a directory is made: the reply shows a directory.\<close>

lemma fresh_init: "fresh fs_init i \<Longrightarrow> i \<noteq> 0 \<and> eid_inum i \<noteq> 1"
proof (cases "i = 0")
  case True
  assume "fresh fs_init i"
  then have "\<forall>j. j \<noteq> 0 \<and> j < 1024 \<longrightarrow> fs_init j \<noteq> None"
    using True by (simp add: fresh_def)
  from this [rule_format, of 2] show ?thesis
    by (simp add: fs_init_def)
qed (auto simp: fresh_def fs_init_def)

lemma fuse_step_mkdir:
  assumes "fuse_step ds ad fs_init (Mkdir 1 ''d'') r s'"
  shows "\<exists>e. r = Reply_entry e \<and> st_mode (e_attr e) = 0x41FF"
proof -
  have root: "fs_init (eid_inum 1) = Some (Dir [])"
    by (simp add: fs_init_def sample_root(5))
  obtain out where step: "fs_step fs_init (Op_mkdir 1 ''d'') out s'" and r: "creation_shows Reply_entry s' out r"
    using assms by (auto simp: fuse_step_def)
  from step obtain i where i: "out = (OK, Ino i)" "fresh fs_init i" "s' = add_entry fs_init 1 [] ''d'' i (Dir [])"
    by cases (auto simp: root dir_find_def)
  have "s' (eid_inum i) = Some (Dir [])"
    using fresh_init [OF i(2)] by (simp add: i(3) add_entry_def sample_root(5))
  then show ?thesis
    using r by (auto simp: i(1) creation_shows_def entry_shows_def stat_shows_def)
qed

theorem service_refines_witness:
  "\<exists>e im. serve sample_size sample_dirent [(blank_entry, 0, Mkdir 1 ''d'')] (root_im sample_env) =
     Inr ([[Reply_entry e]], im) \<and> st_mode (e_attr e) = 0x41FF \<and> tree (abs_fs im)"
proof -
  have init: "chfs_client_new 0 sample_env = Inr (root_im sample_env)"
    by (simp add: chfs_client_new_def extent_client_init_def extent_server_init_def inode_manager_init_eq
        to_alloc_def word_le_nat_alt)
  have "session_ok sample_size sample_dirent [(blank_entry, 0, Mkdir 1 ''d'')] (root_im sample_env)"
    using sample_fits(1) [of "''d''"] is_dir_unique [OF sample_root(2)] by (auto simp: room_for_def split: sum.splits)
  from service_refines [OF init sample_lib this] obtain answers im where
    a: "serve sample_size sample_dirent [(blank_entry, 0, Mkdir 1 ''d'')] (root_im sample_env) =
      Inr (map (\<lambda>r. [r]) answers, im)" "length answers = 1"
      "fuse_trace sample_size sample_dirent fs_init (zip [Mkdir 1 ''d''] answers) (abs_fs im)" "tree (abs_fs im)"
    by auto
  obtain r where "answers = [r]"
    using a(2) by (auto simp: length_Suc_conv)
  then show ?thesis
    using a fuse_step_mkdir [of sample_size sample_dirent r] by (auto simp: fuse_trace_simps)
qed

end
