(* ===== verification/Timestamps.thy ===== *)
theory Timestamps
  imports Write_File Remove_File Inode_Alloc Read_File
begin

text \<open>
  The times of a file: which operation of the inode layer sets which of the three times, and that it
  leaves the times of all other files alone.
\<close>

section \<open>The times of a state\<close>

text \<open>The times of access, of change and of modification, in the order in which \<open>write_file\<close> sets
  them; and the value that the call of \<open>time\<close> returns after \<open>k\<close> other calls of the
  environment.\<close>

definition stamps :: "inode_manager \<Rightarrow> u32 \<rightharpoonup> u32 \<times> u32 \<times> u32" where
  "stamps im i = map_option (\<lambda>n. (i_atime n, i_ctime n, i_mtime n)) (get_inode im i)"

definition now :: "inode_manager \<Rightarrow> nat \<Rightarrow> u32" where
  "now im k = env_clock (im_env im) (env_tick (im_env im) + k)"

lemma time_NULL_now:
  "fst (time_NULL im) = now im 0" "fst (time_NULL (tick im)) = now im 1" "fst (time_NULL (tick (tick im))) = now im 2"
  by (simp_all add: time_NULL_def now_def tick_def)

lemma now_bm [simp]: "now (im\<lparr>im_bm := bm\<rparr>) k = now im k"
  by (simp add: now_def)

lemma times_put:
  assumes "bm_inv (im_bm im1)" "i \<le> INODE_NUM" "length (i_blocks n) = NDIRECT + 1" "i_type n \<noteq> 0"
    and "get_inode im1 = get_inode im"
  shows "stamps (put_inode im1 i (Some n)) = (stamps im)(i \<mapsto> (i_atime n, i_ctime n, i_mtime n))"
  by (auto simp: stamps_def fun_eq_iff get_put_inode [OF assms(1-4)] assms(5))

section \<open>The operations\<close>

lemma times_write:
  assumes inv: "fs_inv im" and fi: "files im i = Some (t, c)"
    and len: "length buf \<le> BLOCK_SIZE * MAXFILE" and tail: "BLOCK_SIZE \<le> length tail"
    and space: "total (nblk (length buf)) - total (nblk (length c)) \<le> bm_free (im_bm im)"
  shows "\<exists>im'. write_file im i (buf @ tail) (int (length buf)) = Inr im' \<and>
    stamps im' = (stamps im)(i \<mapsto> (now im 0, now im 1, now im 2))"
proof -
  obtain n where n: "get_inode im i = Some n" and tc: "t = i_type n" "c = content (im_bm im) n"
    using fi by (auto simp: files_def)
  let ?bm = "im_bm im" and ?s = "length buf" and ?mem = "buf @ tail"
  note bm = fs_invD(1) [OF inv] and ok = fs_invD(4) [OF inv n]
  have s: "nblk ?s \<le> MAXFILE" and mem: "BLOCK_SIZE * nblk ?s \<le> length ?mem"
    using len tail by (simp_all add: nblk_le_iff nblk_def)
  have "total (nblk ?s) - total (nblk (isize n)) \<le> bm_free ?bm"
    using space length_content(1) [OF bm ok] by (simp add: tc)
  from write_blocks_ok [OF bm ok s mem this] obtain bm1 blks1 bm2 blks2 E2 where
    w: "write_data ?bm (i_blocks n) ?mem (int ?s) = Inr (bm1, blks1)"
    and f: "free_unused bm1 (n\<lparr>i_blocks := blks1\<rparr>) (max 1 (nblk (isize n))) (int ?s) = Inr (bm2, n\<lparr>i_blocks := blks2\<rparr>)"
    and ev: "evolves ?bm (ids ?bm n) bm2 (blks2 @ E2) UNIV"
    and new: "\<forall>n'. i_blocks n' = blks2 \<longrightarrow> isize n' = ?s \<longrightarrow>
      inode_ok bm2 n' \<and> ids bm2 n' = blks2 @ E2 \<and> content bm2 n' = take ?s ?mem"
    by blast
  let ?im = "im\<lparr>im_bm := bm2\<rparr>"
  let ?n = "n\<lparr>i_blocks := blks2, i_size := word_of_int (int ?s), i_atime := now im 0, i_ctime := now im 1,
    i_mtime := now im 2\<rparr>"
  have "write_file im i ?mem (int ?s) = Inr (put_inode (tick (tick (tick ?im))) i (Some ?n))"
    using w f time_NULL_now [of ?im] unfolding write_file_def n option.case Let_def pre_block_num_eq
    by (simp add: time_NULL_def split del: if_split del: One_nat_def)
  moreover have "isize ?n = ?s"
    using isize_of_nat len by simp
  then have "inode_ok bm2 ?n"
    using new [rule_format, of ?n] by simp
  note inode_okD(1) [OF this]
  moreover have "bm_inv bm2"
    using evolvesD(1) [OF ev] by (simp add: good_def)
  moreover from this have "get_inode ?im = get_inode im"
    using get_inode_frame [of im ?im] bm evolvesD(6) [OF ev] by simp
  ultimately show ?thesis
    using times_put [of "tick (tick (tick ?im))" i ?n im] get_inode_SomeD [OF n] by simp
qed

lemma times_read:
  assumes inv: "fs_inv im" and n: "get_inode im i = Some n"
    and r: "read_file im i buf_out sz0 = Inr (out, sz, im')"
  shows "stamps im' = (stamps im)(i \<mapsto> (now im 1, i_ctime n, i_mtime n))"
proof -
  note ok = fs_invD(4) [OF inv n]
  have "im' = put_inode (tick (tick im)) i (Some (n\<lparr>i_atime := now im 1\<rparr>))"
    using r get_inode_SomeD(1) [OF n] time_NULL_now(2) [of im]
    by (auto simp: read_file_def n Let_def res_bind_eq_Inr heap_bytes_def time_NULL_def split: if_splits)
  then show ?thesis
    using times_put [of "tick (tick im)" i "n\<lparr>i_atime := now im 1\<rparr>" im] fs_invD(1) [OF inv]
      get_inode_SomeD [OF n] inode_okD(1) [OF ok] by simp
qed

lemma times_remove:
  assumes inv: "fs_inv im" and n: "get_inode im i = Some n"
  shows "\<exists>im'. remove_file im i = Inr im' \<and> stamps im' = (stamps im)(i := None)"
proof -
  obtain bm1 bm2 A' where
    d: "remove_direct (im_bm im) n 0 0 = Inr (bm1, BLOCK_SIZE * min NDIRECT (nblk (isize n)))"
    and f: "(if BLOCK_SIZE * min NDIRECT (nblk (isize n)) < isize n
      then res_bind (get_indirect_blocks bm1 n) (\<lambda>(ind, indirect_block_num).
           res_bind (remove_indirect bm1 n ind indirect_block_num 0 (BLOCK_SIZE * min NDIRECT (nblk (isize n))))
             (\<lambda>bm2. free_block bm2 (i_blocks n ! NDIRECT)))
      else Inr bm1) = Inr bm2"
    and ev: "evolves (im_bm im) (ids (im_bm im) n) bm2 A' UNIV"
    using remove_blocks_ok [OF fs_invD(1) [OF inv] fs_invD(4) [OF inv n]] by metis
  let ?im = "im\<lparr>im_bm := bm2\<rparr>"
  have bm2: "bm_inv bm2"
    using evolvesD(1) [OF ev] by (simp add: good_def)
  then have tab: "get_inode ?im = get_inode im"
    using get_inode_frame [of im ?im] fs_invD(1) [OF inv] evolvesD(6) [OF ev] by simp
  have "remove_file im i = Inr (free_inode ?im i)"
    using leD [OF get_inode_SomeD(1) [OF n]] d f by (simp add: remove_file_def n split del: if_split)
  moreover have "get_inode (free_inode ?im i) = (get_inode im)(i := None)"
    using get_free_inode [of ?im i n] bm2 tab n by simp
  ultimately show ?thesis
    by (auto simp: stamps_def fun_eq_iff)
qed

lemma times_alloc:
  assumes inv: "fs_inv im" and type: "(ucast type :: u16) \<noteq> 0" and r: "alloc_inode im type = (inum, im')" "inum \<noteq> 0"
  shows "stamps im' = (stamps im)(inum \<mapsto> (now im 0, now im 0, now im 0))"
  using inv r(1)
proof (cases rule: alloc_inode_cases)
  case new
  have "stamps (put_inode (tick im) inum (Some (new_inode type (now im 0)))) =
      (stamps im)(inum \<mapsto> (now im 0, now im 0, now im 0))"
    using times_put [of "tick im" inum "new_inode type (now im 0)" im] fs_invD(1) [OF inv] new(2) type
    by (simp add: new_inode_def)
  then show ?thesis
    using new(4) by (simp add: stamps_def time_NULL_now fun_eq_iff get_inode_cong [of "_\<lparr>last_alloced := _\<rparr>"])
qed (use r(2) in simp)

text \<open>C37. The times of a file: \<open>write_file\<close> sets all three, from three calls of the clock in the order access,
  change, modification; \<open>read_file\<close> sets the time of access only; \<open>remove_file\<close> removes them and
  \<open>get_attr\<close> reports them; a new file has the time of its creation three times. No operation touches the times of another file.\<close>

theorem timestamps:
  assumes inv: "fs_inv im" and fi: "files im i = Some (t, c)" and at: "stamps im i = Some (ta, tc, tm)"
    and len: "length buf \<le> BLOCK_SIZE * MAXFILE" and tail: "BLOCK_SIZE \<le> length tail"
    and space: "total (nblk (length buf)) - total (nblk (length c)) \<le> bm_free (im_bm im)"
  shows "(\<exists>im'. write_file im i (buf @ tail) (int (length buf)) = Inr im' \<and>
      stamps im' = (stamps im)(i \<mapsto> (now im 0, now im 1, now im 2))) \<and>
    (\<exists>out im'. read_file im i buf_out sz0 = Inr (Some out, int (length c), im') \<and>
      stamps im' = (stamps im)(i \<mapsto> (now im 1, tc, tm))) \<and>
    (\<exists>im'. remove_file im i = Inr im' \<and> stamps im' = (stamps im)(i := None)) \<and>
    (a_atime (get_attr im i a), a_ctime (get_attr im i a), a_mtime (get_attr im i a)) = (ta, tc, tm) \<and>
    (\<forall>ty j im'. (ucast ty :: u16) \<noteq> 0 \<and> alloc_inode im ty = (j, im') \<and> j \<noteq> 0 \<longrightarrow>
      stamps im' = (stamps im)(j \<mapsto> (now im 0, now im 0, now im 0)))"
proof -
  obtain n where n: "get_inode im i = Some n" "i_atime n = ta" "i_ctime n = tc" "i_mtime n = tm"
    using at by (auto simp: stamps_def)
  obtain out im' where r: "read_file im i buf_out sz0 = Inr (Some out, int (length c), im')"
    using read_file_ok [OF inv fi] by blast
  have "\<not> INODE_NUM < i"
    using get_inode_SomeD(1) [OF n(1)] by simp
  then show ?thesis
    using times_write [OF inv fi len tail space] times_remove [OF inv n(1)] r times_read [OF inv n(1) r] times_alloc [OF inv] n
    by (auto simp: get_attr_def)
qed

theorem timestamps_witness:
  "\<exists>im'. write_file (root_im sample_env) 1 (''hello'' @ zeros BLOCK_SIZE) 5 = Inr im' \<and>
     stamps im' 1 = Some (now (root_im sample_env) 0, now (root_im sample_env) 1, now (root_im sample_env) 2)"
proof -
  have files: "files (root_im sample_env) 1 = Some (1, [])"
    by (simp add: root_im_facts)
  then obtain ta tc tm where at: "stamps (root_im sample_env) 1 = Some (ta, tc, tm)"
    by (auto simp: files_def stamps_def)
  show ?thesis
    using timestamps [OF root_im_facts(1) files at, of "''hello''" "zeros BLOCK_SIZE" None 0
        "\<lparr>a_type = 0, a_atime = 0, a_mtime = 0, a_ctime = 0, a_size = 0\<rparr>"]
    by (auto simp: root_im_facts bm_free_init total_def nblk_def)
qed

end
