(* ===== verification/Oversize.thy ===== *)
theory Oversize
  imports Client_Data
begin

text \<open>
  Files larger than an inode can hold. \<open>write_file\<close> never compares the size with
  \<open>MAXFILE\<close> blocks: it stores the first 228 blocks of the data, drops the rest and sets the
  size of the inode to the full length. The next \<open>read_file\<close> trusts that size and walks past the
  end of the array of the indirect block.
\<close>

abbreviation CAPACITY :: "'a::numeral" where
  "CAPACITY \<equiv> 116736"

section \<open>The write stores a prefix\<close>

lemma write_direct_capped:
  assumes "CAPACITY < s"
  shows "i \<le> NDIRECT \<Longrightarrow> write_direct bm blks arr mem (int s) (BLOCK_SIZE * i) i
    = write_direct bm blks arr mem CAPACITY (BLOCK_SIZE * i) i"
proof (induction "NDIRECT - i" arbitrary: i bm blks arr)
  case 0
  then show ?case
    by (subst (1 2) write_direct.simps) simp
next
  case (Suc d)
  have "write_direct b l a mem (int s) (BLOCK_SIZE * i + BLOCK_SIZE) (Suc i)
      = write_direct b l a mem CAPACITY (BLOCK_SIZE * i + BLOCK_SIZE) (Suc i)" for b l a
    using Suc.hyps(1) [of "Suc i"] Suc.hyps(2) by (simp add: add.commute)
  then show ?case
    using Suc.hyps(2) assms by (subst (1 2) write_direct.simps) (simp add: not_less [symmetric])
qed

lemma write_indirect_capped:
  assumes "CAPACITY < s"
  shows "i \<le> NINDIRECT \<Longrightarrow> write_indirect bm ind arr mem (int s) (BLOCK_SIZE * (NDIRECT + i)) i
    = write_indirect bm ind arr mem CAPACITY (BLOCK_SIZE * (NDIRECT + i)) i"
proof (induction "NINDIRECT - i" arbitrary: i bm ind)
  case 0
  then show ?case
    by (subst (1 2) write_indirect.simps) simp
next
  case (Suc d)
  have "write_indirect b l arr mem (int s) (BLOCK_SIZE * (NDIRECT + i) + BLOCK_SIZE) (Suc i)
      = write_indirect b l arr mem CAPACITY (BLOCK_SIZE * (NDIRECT + i) + BLOCK_SIZE) (Suc i)" for b l
    using Suc.hyps(1) [of "Suc i"] Suc.hyps(2) by (simp add: algebra_simps)
  then show ?case
    using Suc.hyps(2) assms by (subst (1 2) write_indirect.simps) (simp add: not_less [symmetric])
qed

text \<open>The loop over the direct blocks ends at the end of the data or with the last direct
  block.\<close>

lemma write_direct_end:
  "write_direct bm blks arr mem sz (BLOCK_SIZE * i) i = Inr (bm', blks', arr', pos, j) \<Longrightarrow> i \<le> NDIRECT \<Longrightarrow>
   pos = BLOCK_SIZE * j \<and> (sz \<le> int pos \<or> j = NDIRECT)"
proof (induction "NDIRECT - i" arbitrary: i bm blks arr)
  case 0
  then show ?case
    by (subst (asm) write_direct.simps) simp
next
  case (Suc d)
  have d: "d = NDIRECT - Suc i" "Suc i \<le> NDIRECT"
    using Suc.hyps(2) by auto
  have IH: "pos = BLOCK_SIZE * j \<and> (sz \<le> int pos \<or> j = NDIRECT)"
    if "write_direct b l a mem sz (BLOCK_SIZE * i + BLOCK_SIZE) (Suc i) = Inr (bm', blks', arr', pos, j)" for b l a
    by (rule Suc.hyps(1) [OF d(1) _ d(2)]) (use that in \<open>simp add: add.commute\<close>)
  from Suc.prems d show ?case
    by (subst (asm) write_direct.simps) (auto simp: res_bind_eq_Inr split: if_splits prod.splits dest!: IH)
qed

lemma write_tail_capped:
  "CAPACITY < s \<Longrightarrow> write_tail bm blks arr mem (int s) (BLOCK_SIZE * NDIRECT)
    = write_tail bm blks arr mem CAPACITY (BLOCK_SIZE * NDIRECT)"
  using write_indirect_capped [of s 0] by (simp add: write_tail_def)

lemma write_data_capped:
  assumes "CAPACITY < s"
  shows "write_data bm blks mem (int s) = write_data bm blks mem CAPACITY"
  unfolding write_data_def
proof (rule res_bind_cong)
  show "write_direct bm blks (zeros BLOCK_SIZE) mem (int s) 0 0
      = write_direct bm blks (zeros BLOCK_SIZE) mem CAPACITY 0 0"
    using write_direct_capped [OF assms, of 0] by simp
  fix x
  assume x: "write_direct bm blks (zeros BLOCK_SIZE) mem CAPACITY 0 0 = Inr x"
  obtain bm1 blks1 arr pos j where "x = (bm1, blks1, arr, pos, j)"
    by (cases x)
  moreover from this have "pos = BLOCK_SIZE * j" "CAPACITY \<le> int pos \<or> j = NDIRECT"
    using write_direct_end [of bm blks _ mem CAPACITY 0] x by auto
  ultimately show "(case x of (bm1, blks1, arr, pos, i) \<Rightarrow>
       if int pos < int s \<and> i = NDIRECT then write_tail bm1 blks1 arr mem (int s) pos else Inr (bm1, blks1))
    = (case x of (bm1, blks1, arr, pos, i) \<Rightarrow>
       if int pos < CAPACITY \<and> i = NDIRECT then write_tail bm1 blks1 arr mem CAPACITY pos else Inr (bm1, blks1))"
    using write_tail_capped [OF assms] assms by auto
qed

section \<open>Nothing is freed\<close>

lemma free_indirect_blocks_beyond:
  assumes "NINDIRECT \<le> k" "isize node \<le> CAPACITY"
  shows "free_indirect_blocks bm node k = free_indirect_blocks bm node NINDIRECT"
proof -
  define c where "c = (if isize node \<ge> BLOCK_SIZE * NDIRECT then (isize node - 1) div BLOCK_SIZE + 1 - NDIRECT else 0)"
  have "c \<le> NINDIRECT"
    using assms(2) by (auto simp: c_def)
  then have "free_indirect_loop bm ind c j = Inr (bm, ind)" if "NINDIRECT \<le> j" for ind j
    using that by (subst free_indirect_loop.simps) simp
  then show ?thesis
    using assms(1) unfolding free_indirect_blocks_def c_def [symmetric] Let_def by simp
qed

lemma free_unused_beyond:
  assumes "CAPACITY \<le> s" "isize node \<le> CAPACITY"
  shows "free_unused bm node p (int s) = (if NDIRECT < p then free_indirect_blocks bm node NINDIRECT else Inr (bm, node))"
proof -
  have u: "c_div (int s - 1) BLOCK_SIZE + 1 = int (nblk s)" "MAXFILE \<le> nblk s"
    using used_block_num_eq [of s] less_nblk_iff [of 227 s] assms(1) by auto
  have "free_direct bm (i_blocks node) p (nblk s) = Inr (bm, i_blocks node, nblk s)"
    using u(2) by (subst free_direct.simps) simp
  moreover have "free_indirect_blocks bm node (nblk s - NDIRECT) = free_indirect_blocks bm node NINDIRECT"
    using u(2) assms(2) by (intro free_indirect_blocks_beyond) simp_all
  ultimately show ?thesis
    using u(2) unfolding free_unused_def u(1) Let_def by (auto simp: res_bind_def split: sum.splits)
qed

section \<open>The read leaves the indirect block\<close>

lemma read_direct_beyond:
  assumes "bm_inv bm" "MAXFILE < count" "BLOCK_SIZE * MAXFILE \<le> length out"
  shows "\<exists>out'. read_direct bm n count r i out = Inr (max NDIRECT i, out') \<and> length out' = length out"
  using assms(3)
proof (induction "NDIRECT - i" arbitrary: i out)
  case 0
  then show ?case
    by (subst read_direct.simps) (simp add: max_def)
next
  case (Suc d)
  have IH: "\<exists>out'. read_direct bm n count r (Suc i) o1 = Inr (NDIRECT, out') \<and> length out' = length out"
    if "length o1 = length out" for o1
    using Suc.hyps(1) [of "Suc i" o1] Suc.hyps(2) Suc.prems that by simp
  have "max NDIRECT i = NDIRECT" "i \<noteq> count - 1" "i < NDIRECT"
    using Suc.hyps(2) assms(2) by auto
  moreover obtain o1 where
    "memcpy_at out (i * BLOCK_SIZE) (take BLOCK_SIZE (blk bm (i_blocks n ! i))) = Inr o1" "length o1 = length out"
    using Suc.prems \<open>i < NDIRECT\<close> length_blk [OF assms(1)] by (simp add: memcpy_at_ok)
  ultimately show ?case
    using IH by (subst read_direct.simps) (auto simp: read_valid [OF assms(1)] Let_def)
qed

lemma read_indirect_beyond:
  assumes "bm_inv bm" "MAXFILE < count" "BLOCK_SIZE * MAXFILE \<le> length out" "length ind = BLOCK_SIZE"
  shows "i \<le> NINDIRECT \<Longrightarrow> read_indirect bm ind count r i out = Inl Out_of_bounds"
  using assms(3)
proof (induction "NINDIRECT - i" arbitrary: i out)
  case 0
  then show ?case
    using assms(2,4) by (subst read_indirect.simps) (simp add: ind_at_def)
next
  case (Suc d)
  have IH: "read_indirect bm ind count r (Suc i) o1 = Inl Out_of_bounds" if "length o1 = length out" for o1
    using Suc.hyps(1) [of "Suc i" o1] Suc.hyps(2) Suc.prems that by simp
  have i: "i + NDIRECT \<noteq> count - 1" "i < NINDIRECT" "i < count - NDIRECT"
    using Suc.hyps(2) assms(2) by auto
  moreover obtain o1 where
    "memcpy_at out ((i + NDIRECT) * BLOCK_SIZE) (take BLOCK_SIZE (blk bm (entries ind ! i))) = Inr o1"
    "length o1 = length out"
    using Suc.prems i length_blk [OF assms(1)] by (simp add: memcpy_at_ok)
  ultimately show ?case
    using IH ind_at_entries [OF assms(4), of i]
    by (subst read_indirect.simps) (auto simp: read_valid [OF assms(1)] Let_def)
qed

text \<open>An inode whose size is beyond the capacity cannot be read.\<close>

lemma read_file_beyond:
  assumes bm: "bm_inv (im_bm im)" and n: "get_inode im i = Some n" and sz: "CAPACITY < isize n" "isize n + BLOCK_SIZE \<le> 2 ^ 31"
    and ind: "is_valid_block (im_bm im) (i_blocks n ! NDIRECT)"
  shows "read_file im i buf_out sz0 = Inl Out_of_bounds"
proof -
  let ?c = "nblk (isize n)"
  have c: "MAXFILE < ?c" "max 1 ?c = ?c" "?c * BLOCK_SIZE < 2 ^ 31"
    using less_nblk_iff [of MAXFILE "isize n"] sz by (auto simp: nblk_def)
  obtain mem where mem: "heap_bytes im (?c * BLOCK_SIZE) = (mem, tick im)" "BLOCK_SIZE * MAXFILE \<le> length mem"
    using c(1) by (simp add: heap_bytes_def)
  obtain out where out: "read_direct (im_bm im) n ?c (isize n mod BLOCK_SIZE) 0 mem = Inr (NDIRECT, out)"
    "BLOCK_SIZE * MAXFILE \<le> length out"
    using read_direct_beyond [OF bm c(1) mem(2), of n "isize n mod BLOCK_SIZE" 0] mem(2) by auto
  have "read_indirect (im_bm im) (blk (im_bm im) (i_blocks n ! NDIRECT)) ?c (isize n mod BLOCK_SIZE) 0 out = Inl Out_of_bounds"
    using length_blk [OF bm] by (intro read_indirect_beyond [OF bm c(1) out(2)]) simp_all
  then show ?thesis
    using get_inode_SomeD(1) [OF n] mem(1) out(1) ind c(3)
    unfolding read_file_def n option.case Let_def block_count_eq c(2)
    by (simp add: read_valid [OF bm] not_less [symmetric])
qed

section \<open>The operations of the store\<close>

lemma write_file_beyond:
  assumes inv: "fs_inv im" and n: "get_inode im i = Some n" and s: "CAPACITY < s" "s < 2 ^ 31"
    and mem: "CAPACITY \<le> length mem" and space: "total MAXFILE - total (nblk (isize n)) \<le> bm_free (im_bm im)"
  obtains im1 n1 where "write_file im i mem (int s) = Inr im1" "get_inode im1 i = Some n1" "isize n1 = s"
    "is_valid_block (im_bm im1) (i_blocks n1 ! NDIRECT)" "bm_inv (im_bm im1)"
proof -
  note bm = fs_invD(1) [OF inv] and ok = fs_invD(4) [OF inv n]
  have cap: "nblk CAPACITY = MAXFILE"
    by (simp add: nblk_def)
  have old: "isize n \<le> CAPACITY"
    using nblk_le_iff [of "isize n" MAXFILE] inode_okD(2) [OF ok] by simp
  have pre: "nblk CAPACITY \<le> MAXFILE" "BLOCK_SIZE * nblk CAPACITY \<le> length mem"
    "total (nblk CAPACITY) - total (nblk (isize n)) \<le> bm_free (im_bm im)"
    using mem space by (simp_all add: cap)
  from write_blocks_ok [OF bm ok pre] obtain bm1 blks1 bm2 blks2 E2 where
    w: "write_data (im_bm im) (i_blocks n) mem (int CAPACITY) = Inr (bm1, blks1)"
    "free_unused bm1 (n\<lparr>i_blocks := blks1\<rparr>) (max 1 (nblk (isize n))) (int CAPACITY) = Inr (bm2, n\<lparr>i_blocks := blks2\<rparr>)"
    and ev: "evolves (im_bm im) (ids (im_bm im) n) bm2 (blks2 @ E2) UNIV"
    and new: "\<forall>n'. i_blocks n' = blks2 \<longrightarrow> isize n' = CAPACITY \<longrightarrow>
      inode_ok bm2 n' \<and> ids bm2 n' = blks2 @ E2 \<and> content bm2 n' = take CAPACITY mem"
    by blast
  have wd: "write_data (im_bm im) (i_blocks n) mem (int s) = Inr (bm1, blks1)"
    using w(1) write_data_capped [OF s(1)] by simp
  have fu: "free_unused bm1 (n\<lparr>i_blocks := blks1\<rparr>) (max 1 (nblk (isize n))) (int s)
      = Inr (bm2, n\<lparr>i_blocks := blks2\<rparr>)"
    using w(2) free_unused_beyond [of s "n\<lparr>i_blocks := blks1\<rparr>"]
      free_unused_beyond [of CAPACITY "n\<lparr>i_blocks := blks1\<rparr>"] s(1) old by simp
  have "s < 2 ^ 32"
    using s(2) by simp
  then obtain im0 n1 where res: "write_file im i mem (int s) = Inr (put_inode im0 i (Some n1))" "im_bm im0 = bm2"
    and n1: "i_blocks n1 = blks2" "isize n1 = s" "i_type n1 = i_type n"
    using write_file_result [OF n wd fu] by blast
  have "inode_ok bm2 (n1\<lparr>i_size := CAPACITY\<rparr>)"
    using new n1(1) by simp
  then have blks: "length blks2 = NDIRECT + 1" "is_valid_block bm2 (blks2 ! NDIRECT)"
    using inode_okD(1,5) [of bm2 "n1\<lparr>i_size := CAPACITY\<rparr>"] cap n1(1) by auto
  note i = get_inode_SomeD [OF n]
  have put: "bm_inv (im_bm im0)" "length (i_blocks n1) = NDIRECT + 1" "i_type n1 \<noteq> 0"
    using evolvesD(1) [OF ev] blks(1) n1 i(2) by (simp_all add: good_def res(2))
  have "is_valid_block (im_bm (put_inode im0 i (Some n1))) (i_blocks n1 ! NDIRECT)"
    using is_valid_cong [OF put_inode_blk(3) [OF put(1) i(1) put(2)]] blks(2) res(2) n1(1) by simp
  then show ?thesis
    using get_put_inode [OF put(1) i(1) put(2,3)] put_inode_blk(2) [OF put(1) i(1) put(2)] n1(2)
    by (intro that [OF res(1)]) simp_all
qed

text \<open>The state after such a \<open>put\<close>, whatever it came from.\<close>

definition oversized :: "u32 \<Rightarrow> inode_manager \<Rightarrow> bool" where
  "oversized i im \<longleftrightarrow> (\<exists>n. get_inode im i = Some n \<and> CAPACITY < isize n \<and>
     isize n + BLOCK_SIZE \<le> 2 ^ 31 \<and> is_valid_block (im_bm im) (i_blocks n ! NDIRECT)) \<and> bm_inv (im_bm im)"

lemma oversized_not_ok: "oversized i im \<Longrightarrow> \<not> fs_inv im"
proof
  assume "oversized i im" "fs_inv im"
  then obtain n where "CAPACITY < isize n" "inode_ok (im_bm im) n"
    using fs_invD(4) by (auto simp: oversized_def)
  then show False
    using inode_okD(2) [of "im_bm im" n] nblk_le_iff [of "isize n" MAXFILE] by simp
qed

lemma oversized_get: "oversized (eid_inum eid) im \<Longrightarrow> ec_get eid im = Inl Out_of_bounds"
  unfolding ec_es es_get_def oversized_def using read_file_beyond by force

lemma put_beyond:
  assumes inv: "fs_inv im" and f: "files im (eid_inum eid) = Some (t, c)"
    and len: "CAPACITY < length buf" "length buf + BLOCK_SIZE \<le> 2 ^ 31"
    and space: "cost CAPACITY - cost (length c) \<le> bm_free (im_bm im)"
  obtains im1 where "ec_put eid buf im = Inr (OK, im1)" "oversized (eid_inum eid) im1"
proof -
  let ?i = "eid_inum eid" and ?mem = "buf @ NUL # fst (heap_bytes im 511)"
  obtain n where n: "get_inode (tick im) ?i = Some n" "c = content (im_bm im) n"
    using f by (auto simp: files_def)
  have "length c = isize n"
    using length_content(1) [OF fs_invD(1) fs_invD(4)] inv n by simp
  moreover have "nblk CAPACITY = MAXFILE"
    by (simp add: nblk_def)
  ultimately have pre: "fs_inv (tick im)" "CAPACITY \<le> length ?mem"
    "total MAXFILE - total (nblk (isize n)) \<le> bm_free (im_bm (tick im))" "length buf < 2 ^ 31"
    using inv len space by (simp_all add: cost_def)
  obtain im1 n1 where w: "write_file (tick im) ?i ?mem (int (length buf)) = Inr im1" "get_inode im1 ?i = Some n1"
    "isize n1 = length buf" "is_valid_block (im_bm im1) (i_blocks n1 ! NDIRECT)" "bm_inv (im_bm im1)"
    by (rule write_file_beyond [OF pre(1) n(1) len(1) pre(4,2,3)])
  have "sint (word_of_nat (length buf) :: u32) = int (length buf)"
    using pre(4) by (subst sint_small) (simp_all add: unat_of_nat)
  then have "ec_put eid buf im = Inr (OK, im1)"
    using w(1) by (simp add: ec_es es_put_def es_put_with_def heap_bytes_simps Let_def)
  then show ?thesis
    using that w(2-5) len by (auto simp: oversized_def)
qed

text \<open>C21. A \<open>put\<close> of more bytes than the 228 blocks of an inode hold (116736) and of less
  than 2 GB minus one block, to a file on a well-formed file system with room for the 228 blocks, reports
  success. The inode then has the full size: the state is no longer well formed, and the next \<open>get\<close>
  of the file reads an entry of the indirect block behind its 128th.\<close>

theorem put_oversize:
  assumes "fs_inv im" "files im (eid_inum eid) = Some (t, c)"
    and "BLOCK_SIZE * MAXFILE < length buf" "length buf + BLOCK_SIZE \<le> 2 ^ 31"
    and "cost (BLOCK_SIZE * MAXFILE) - cost (length c) \<le> bm_free (im_bm im)"
  shows "\<exists>im1. ec_put eid buf im = Inr (OK, im1) \<and> \<not> fs_inv im1 \<and> ec_get eid im1 = Inl Out_of_bounds"
proof -
  obtain im1 where "ec_put eid buf im = Inr (OK, im1)" "oversized (eid_inum eid) im1"
    by (rule put_beyond [OF assms(1,2), of buf]) (use assms(3-5) in simp_all)
  then show ?thesis
    using oversized_not_ok oversized_get by blast
qed

theorem put_oversize_witness:
  "\<exists>im1. ec_put 1 (replicate 116737 CHR ''a'') (root_im sample_env) = Inr (OK, im1) \<and>
     \<not> fs_inv im1 \<and> ec_get 1 im1 = Inl Out_of_bounds"
proof -
  have "eid_inum 1 = 1"
    by (simp add: eid_inum_def)
  then show ?thesis
    using put_oversize [OF root_im_facts(1), of sample_env 1 1 "[]" "replicate 116737 CHR ''a''"]
    by (simp add: root_im_facts bm_free_init cost_def total_def nblk_def)
qed

section \<open>The client\<close>

lemma oversized_client:
  assumes "oversized (eid_inum ino) im"
  shows "chfs_read ino sz off dat im = Inl Out_of_bounds" "chfs_write ino sz off dat w im = Inl Out_of_bounds"
    "setattr ino sz im = Inl Out_of_bounds"
  using oversized_get [OF assms]
  by (simp_all add: chfs_read_def chfs_write_def setattr_def io_bind_def ec_es es_getattr_def load_def)

text \<open>C22. \<open>chfs_write\<close> beyond the capacity of a file, by the offset or by the size, reports that
  all bytes were written; from then on every read of the file, every write to it and every change of its size
  faults in the same way.\<close>

theorem write_oversize:
  assumes inv: "fs_inv im" and f: "files im (eid_inum ino) = Some (t, c)" and off: "0 \<le> sint off"
    and dat: "unat sz \<le> length dat"
    and big: "BLOCK_SIZE * MAXFILE < unat off + unat sz" "unat off + unat sz + BLOCK_SIZE \<le> 2 ^ 31"
    and space: "cost (BLOCK_SIZE * MAXFILE) - cost (length c) \<le> bm_free (im_bm im)"
  shows "\<exists>im1. chfs_write ino sz off dat w0 im = Inr ((OK, sz), im1) \<and>
    (\<forall>sz2 off2 dat2 w2. chfs_read ino sz2 off2 dat2 im1 = Inl Out_of_bounds \<and>
       chfs_write ino sz2 off2 dat2 w2 im1 = Inl Out_of_bounds \<and> setattr ino sz2 im1 = Inl Out_of_bounds)"
proof -
  obtain im0 where im0: "same im im0" 
    "\<forall>im1. ec_put ino (splice c (unat off) (take (unat sz) dat)) im0 = Inr (OK, im1) \<longrightarrow>
      chfs_write ino sz off dat w0 im = Inr ((OK, sz), im1)"
    by (rule chfs_write_put [OF inv f off dat, where ?w0.0 = w0])
  have f0: "files im0 (eid_inum ino) = Some (t, c)"
    using f sameD(2) [OF im0(1)] by simp
  have "length (splice c (unat off) (take (unat sz) dat)) = unat off + unat sz"
    using dat big(1) files_size [OF inv f] by (simp add: length_splice)
  then obtain im1 where "ec_put ino (splice c (unat off) (take (unat sz) dat)) im0 = Inr (OK, im1)"
    "oversized (eid_inum ino) im1"
    using put_beyond [OF sameD(1) [OF im0(1)] f0, of "splice c (unat off) (take (unat sz) dat)"] big space
      sameD(3) [OF im0(1)] by auto
  then show ?thesis
    using im0(2) oversized_client by blast
qed

theorem write_oversize_witness:
  "\<exists>im1. chfs_write 1 1 116736 ''x'' 0 (root_im sample_env) = Inr ((OK, 1), im1) \<and>
     chfs_read 1 1 0 [] im1 = Inl Out_of_bounds"
proof -
  have "eid_inum 1 = 1"
    by (simp add: eid_inum_def)
  then show ?thesis
    using write_oversize [OF root_im_facts(1), of sample_env 1 1 "[]" 116736 1 "''x''" 0]
    by (auto simp: root_im_facts bm_free_init cost_def total_def nblk_def)
qed

end
