(* ===== verification/Disk_Full.thy ===== *)
theory Disk_Full
  imports Extent
begin

text \<open>
  What happens when no block is left: \<open>alloc_block\<close> returns 0 and \<open>write_file\<close> does
  not look at it. The data goes to block 0, the file gets the size it asked for and refers to block 0,
  and \<open>put\<close> reports success; the removal of that file then ends in a failed assertion.
\<close>

lemma remove_indirect_inv:
  "bm_inv bm \<Longrightarrow> length ind = BLOCK_SIZE \<Longrightarrow> num \<le> NINDIRECT \<Longrightarrow>
   \<exists>bm'. remove_indirect bm n ind num i free_size = Inr bm' \<and> bm_inv bm'"
proof (induction bm n ind num i free_size rule: remove_indirect.induct)
  case (1 bm n ind num i free_size)
  note unf = remove_indirect.simps [of bm n ind num i free_size]
  show ?case
  proof (cases "i < num \<and> free_size < isize n")
    case True
    then have at: "ind_at ind i = Inr (entries ind ! i)"
      using "1.prems"(2,3) by (simp add: ind_at_entries)
    show ?thesis
    proof (cases "is_valid_block bm (entries ind ! i)")
      case valid: True
      obtain bm1 where "free_block bm (entries ind ! i) = Inr bm1" "bm_inv bm1"
        using free_block_spec [OF "1.prems"(1) valid] by blast
      then show ?thesis
        using "1.IH" [OF True] True at valid "1.prems"(2,3) unf by simp
    qed (use True at "1.prems"(1) unf in simp)
  qed (use "1.prems"(1) unf in auto)
qed

lemma free_block_zero: "bm_inv bm \<Longrightarrow> free_block bm 0 = Inl Assert_failed"
  by (rule ba.free_unused) simp_all

text \<open>The write, when the inode holds no block and none is free: the only effect on the blocks is that
  block 0 is overwritten.\<close>

lemma write_blocks_full:
  assumes inv: "fs_inv im" and n: "get_inode im i = Some n" and empty: "isize n = 0" "held im i = 0"
    and full: "bm_free (im_bm im) = 0" and s: "0 < s" "s < BLOCK_SIZE" and mem: "BLOCK_SIZE \<le> length mem"
  defines "bm0 \<equiv> write_block (im_bm im) 0 (chunk mem 0)"
  shows "write_data (im_bm im) (i_blocks n) mem (int s) = Inr (bm0, i_blocks n)"
    "free_unused bm0 n 1 (int s) = Inr (bm0, n)" "\<And>k. k \<le> NDIRECT \<Longrightarrow> i_blocks n ! k = 0"
proof -
  let ?bm = "im_bm im"
  note bm = fs_invD(1) [OF inv] and len = inode_okD(1) [OF fs_invD(4) [OF inv n]]
  have "set (owned ?bm n) = {}"
    using empty(2) n by (simp add: held_def)
  then show zero: "i_blocks n ! k = 0" if "k \<le> NDIRECT" for k
    using that len by (auto simp: owned_def ids_def filter_empty_conv)
  have "free_set ?bm = {}"
    using full by (simp add: bm_free_def)
  then have "slot_block ?bm 0 = (0, ?bm)"
    using bm by (simp add: slot_block_def alloc_block_eq [OF bm])
  then have sb0: "slot_block ?bm (i_blocks n ! 0) = (0, ?bm)"
    unfolding zero [OF le0] .
  have c0: "BLOCK_SIZE * (0 + 1) \<le> length mem"
    using mem by simp
  obtain arr1 where "write_direct ?bm (i_blocks n) (zeros BLOCK_SIZE) mem (int s) (BLOCK_SIZE * 0) 0 =
      write_direct bm0 ((i_blocks n)[0 := 0]) arr1 mem (int s) (BLOCK_SIZE * (0 + 1)) (0 + 1)"
    unfolding bm0_def by (rule write_direct_step [OF _ _ c0 sb0 length_replicate]) (use s in simp_all)
  moreover have "(i_blocks n)[0 := 0] = i_blocks n"
    using zero [of 0] by (metis list_update_id le0)
  ultimately have "write_direct ?bm (i_blocks n) (zeros BLOCK_SIZE) mem (int s) 0 0
      = Inr (bm0, i_blocks n, arr1, BLOCK_SIZE, 1)"
    using s by (simp add: write_direct.simps [of bm0])
  then show "write_data ?bm (i_blocks n) mem (int s) = Inr (bm0, i_blocks n)"
    using s by (simp add: write_data_def)
  have "nblk s = 1"
    using s by (simp add: nblk_def div_nat_eqI)
  then show "free_unused bm0 n 1 (int s) = Inr (bm0, n)"
    using used_block_num_eq [of s] by (simp add: free_unused_def free_direct.simps [of bm0])
qed

lemma write_file_full:
  assumes inv: "fs_inv im" and n: "get_inode im i = Some n" and empty: "isize n = 0" "held im i = 0"
    and full: "bm_free (im_bm im) = 0" and s: "0 < s" "s < BLOCK_SIZE" and mem: "BLOCK_SIZE \<le> length mem"
  obtains im1 n1 where "write_file im i mem (int s) = Inr im1" "get_inode im1 i = Some n1"
    "isize n1 = s" "\<forall>k\<le>NDIRECT. i_blocks n1 ! k = 0" "bm_inv (im_bm im1)"
    "blk (im_bm im1) 0 = take BLOCK_SIZE mem"
proof -
  let ?w = "write_block (im_bm im) 0 (chunk mem 0)"
  note bm = fs_invD(1) [OF inv] and len = inode_okD(1) [OF fs_invD(4) [OF inv n]] and i = get_inode_SomeD [OF n]
  note blocks = write_blocks_full [OF inv n empty full s mem]
  have c0: "length (chunk mem 0) = BLOCK_SIZE"
    using mem by (simp add: length_chunk)
  have "free_unused ?w (n\<lparr>i_blocks := i_blocks n\<rparr>) (max 1 (nblk (isize n))) (int s) = Inr (?w, n\<lparr>i_blocks := i_blocks n\<rparr>)"
    "s < 2 ^ 32"
    using blocks(2) empty(1) s by simp_all
  from write_file_result [OF n blocks(1) this] obtain im1 n1 where
    res: "write_file im i mem (int s) = Inr (put_inode im1 i (Some n1))" "im_bm im1 = ?w"
    and n1: "i_blocks n1 = i_blocks n" "isize n1 = s" "i_type n1 = i_type n"
    by blast
  have "bm_inv (im_bm im1)" "length (i_blocks n1) = NDIRECT + 1" "i_type n1 \<noteq> 0"
    using c0 bm len n1 i(2) by (simp_all add: res(2) bm_inv_write_block)
  note put = put_inode_blk(1,2) [OF this(1) i(1) this(2)] get_put_inode [OF this(1) i(1) this(2,3)]
  have "unat (11 + i) = 11 + unat i"
    using i(1) by (simp add: word_le_nat_alt unat_word_ariths)
  then have ne: "11 + i \<noteq> 0"
    by auto
  have "blk (im_bm im1) 0 = take BLOCK_SIZE mem"
    using c0 bm by (simp add: res(2) blk_write_block chunk_def)
  moreover have "\<forall>k\<le>NDIRECT. i_blocks n1 ! k = 0"
    unfolding n1(1) using blocks(3) by blast
  ultimately show ?thesis
    using put ne n1(2) by (intro that [OF res(1)]) simp_all
qed

text \<open>A read of an inode without blocks copies nothing: it returns the memory that \<open>malloc\<close>
  gave.\<close>

lemma read_direct_empty:
  assumes "bm_inv bm" "\<forall>k\<le>NDIRECT. i_blocks n ! k = 0"
  shows "i \<le> NDIRECT \<Longrightarrow> read_direct bm n c r i out = Inr (NDIRECT, out)"
proof (induction "NDIRECT - i" arbitrary: i)
  case 0
  then show ?case
    by (subst read_direct.simps) simp
next
  case (Suc d)
  then show ?case
    using Suc.hyps(1) [of "Suc i"] assms by (subst read_direct.simps) simp
qed

lemma read_file_empty:
  assumes bm: "bm_inv (im_bm im)" and n: "get_inode im i = Some n" "\<forall>k\<le>NDIRECT. i_blocks n ! k = 0"
    and s: "0 < isize n" "isize n < BLOCK_SIZE"
  shows "\<exists>im'. read_file im i buf_out sz = Inr (Some (fst (heap_bytes im BLOCK_SIZE)), int (isize n), im')"
proof -
  have "sint (i_size n) = int (isize n)"
    using s(2) by (intro sint_small) simp
  moreover have "nblk (isize n) = 1"
    using s by (simp add: nblk_def div_nat_eqI)
  ultimately show ?thesis
    using get_inode_SomeD(1) [OF n(1)] read_direct_empty [OF bm n(2)] n(2) bm
    unfolding read_file_def n(1) option.case Let_def block_count_eq
    by (simp add: heap_bytes_simps time_NULL_def not_less [symmetric])
qed

lemma load_heap_bytes:
  "m \<le> n \<Longrightarrow> load (fst (heap_bytes im n)) 0 m = Inr (map (env_heap (im_env im) (env_tick (im_env im))) [0..<m])"
  by (simp add: heap_bytes_simps load_def take_map)

lemma write_file_env:
  "get_inode im i = Some n \<Longrightarrow> write_file im i mem sz = Inr im' \<Longrightarrow> im_env im' = im_env (tick (tick (tick im)))"
  by (auto simp: write_file_def res_bind_eq_Inr time_NULL_def Let_def tick_def)

text \<open>A disk on which every data block is taken.\<close>

definition full_disk_im :: inode_manager where
  "full_disk_im = (table_im 2)\<lparr>im_bm := (im_bm (table_im 2))
     \<lparr>using_blocks := (\<lambda>b. if data_block b then 1 else 0)\<rparr>\<rparr>"

lemma full_disk_im_facts:
  "fs_inv full_disk_im" "get_inode full_disk_im 2 = Some (new_inode T_FILE 0)"
  "held full_disk_im 2 = 0" "bm_free (im_bm full_disk_im) = 0" "files full_disk_im 2 = Some (2, [])"
proof -
  have bm: "bm_inv (im_bm full_disk_im)"
    using table_im_simps(3) [of 2] by (auto simp: full_disk_im_def bm_inv_def)
  have "get_inode full_disk_im = get_inode (table_im 2)"
    by (rule get_inode_frame) (use bm in \<open>simp_all add: full_disk_im_def\<close>)
  then have tab: "get_inode full_disk_im j =
      (if j \<noteq> 0 \<and> j \<le> 2 then Some (new_inode (if j = 1 then T_DIR else T_FILE) 0) else None)" for j
    by (simp add: get_inode_table)
  then show "get_inode full_disk_im 2 = Some (new_inode T_FILE 0)" "held full_disk_im 2 = 0"
    "files full_disk_im 2 = Some (2, [])"
    by (simp_all add: held_def files_def)
  have "last_alloced full_disk_im = 1"
    by (simp add: full_disk_im_def)
  then show "fs_inv full_disk_im"
    using bm tab by (auto simp: fs_inv_def others_def)
  show "bm_free (im_bm full_disk_im) = 0"
    by (simp add: full_disk_im_def bm_free_def free_set_def)
qed

text \<open>A file with a size whose first slot is empty: the state is not well formed, and \<open>remove_file\<close>
  ends in the assertion of \<open>free_block\<close>.\<close>

lemma zero_slot_not_ok:
  assumes "bm_inv (im_bm im)" "get_inode im i = Some n" "0 < isize n" "i_blocks n ! 0 = 0"
  shows "\<not> fs_inv im"
proof
  assume "fs_inv im"
  then have ok: "inode_ok (im_bm im) n"
    using fs_invD(4) assms(2) by blast
  have "0 < nblk (isize n)"
    using assms(3) nblk_eq_0 [of "isize n"] by linarith
  then have "is_valid_block (im_bm im) (slots (im_bm im) n ! 0)"
    by (rule inode_okD(8) [OF ok])
  then show False
    using assms(1,4) slots_direct [OF inode_okD(1) [OF ok], of 0] by simp
qed

lemma remove_zero_slot:
  assumes bm: "bm_inv (im_bm im)" and n: "get_inode im i = Some n" "0 < isize n" "i_blocks n ! 0 = 0"
    "i_blocks n ! NDIRECT = 0" and nul: "NUL \<in> set (blk (im_bm im) 0)" "length (blk (im_bm im) 0) = BLOCK_SIZE"
  shows "remove_file im i = Inl Assert_failed"
proof -
  define num where "num = length (takeWhile (\<lambda>c. c \<noteq> NUL) (blk (im_bm im) 0)) div 4"
  have "length (takeWhile (\<lambda>c. c \<noteq> NUL) (blk (im_bm im) 0)) \<le> length (blk (im_bm im) 0)"
    by (rule length_takeWhile_le)
  then have num: "num \<le> NINDIRECT"
    using nul(2) unfolding num_def by linarith
  have "get_indirect_blocks (im_bm im) n = Inr (blk (im_bm im) 0, num)"
    using nul(1) n(4) by (simp add: get_indirect_blocks_def read_block_blk strlen_def num_def Let_def)
  moreover obtain bm' where "remove_indirect (im_bm im) n (blk (im_bm im) 0) num 0 0 = Inr bm'" "bm_inv bm'"
    using remove_indirect_inv [OF bm nul(2) num] by blast
  moreover have "remove_direct (im_bm im) n 0 0 = Inr (im_bm im, 0)"
    using bm n(3) by (subst remove_direct.simps) simp
  moreover have "\<not> INODE_NUM < i"
    using get_inode_SomeD(1) [OF n(1)] by (rule leD)
  ultimately show ?thesis
    using n by (simp add: remove_file_def free_block_zero)
qed

text \<open>C31. On a disk without a free block, \<open>put\<close> of 1 to 511 bytes to an empty file that holds no
  block reports success, but the content is not stored: the \<open>get\<close> that follows reports success
  and gives as many bytes of uninitialised memory, the ones of its own \<open>malloc\<close>, whatever was put.
  The file system is no longer well formed, and a \<open>remove\<close> of the file ends the process in the
  assertion of \<open>free_block\<close>.\<close>

theorem put_on_full_disk:
  assumes inv: "fs_inv im" and fi: "files im (eid_inum eid) = Some (t, [])" and held: "held im (eid_inum eid) = 0"
    and full: "bm_free (im_bm im) = 0" and buf: "buf \<noteq> []" "length buf < BLOCK_SIZE"
  shows "\<exists>im1. ec_put eid buf im = Inr (OK, im1) \<and> \<not> fs_inv im1 \<and> ec_remove eid im1 = Inl Assert_failed \<and>
    (\<exists>im2. ec_get eid im1 =
      Inr ((OK, map (env_heap (im_env im) (env_tick (im_env im) + 4)) [0..<length buf]), im2))"
proof -
  let ?i = "eid_inum eid" and ?mem = "buf @ NUL # fst (heap_bytes im 511)" and ?s = "length buf"
  obtain n where n: "get_inode (tick im) ?i = Some n" "content (im_bm im) n = []"
    using fi by (auto simp: files_def)
  have "get_inode im ?i = Some n"
    using n(1) by simp
  then have empty: "isize n = 0"
    using length_content(1) [OF fs_invD(1) [OF inv] fs_invD(4) [OF inv]] n(2) by (metis list.size(3))
  have h: "fs_inv (tick im)" "held (tick im) ?i = 0" "bm_free (im_bm (tick im)) = 0"
    "0 < ?s" "BLOCK_SIZE \<le> length ?mem"
    using inv held full buf by (simp_all add: held_cong [of "tick im" im] heap_bytes_simps)
  obtain im1 n1 where w: "write_file (tick im) ?i ?mem (int ?s) = Inr im1" "get_inode im1 ?i = Some n1"
    "isize n1 = ?s" "\<forall>k\<le>NDIRECT. i_blocks n1 ! k = 0" "bm_inv (im_bm im1)"
    "blk (im_bm im1) 0 = take BLOCK_SIZE ?mem"
    by (rule write_file_full [OF h(1) n(1) empty h(2,3,4) buf(2) h(5)])
  have slots: "i_blocks n1 ! 0 = 0" "i_blocks n1 ! NDIRECT = 0"
    using w(4) by simp_all
  have "sint (word_of_nat ?s :: u32) = int ?s"
    using buf(2) by (intro int_size) simp
  then have "ec_put eid buf im = Inr (OK, im1)"
    using w(1) by (simp add: ec_es es_put_def es_put_with_def heap_bytes_simps)
  moreover have "NUL \<in> set (blk (im_bm im1) 0)" "length (blk (im_bm im1) 0) = BLOCK_SIZE"
    using h(5) buf(2) w(6) by (auto simp: take_Cons')
  then have "ec_remove eid im1 = Inl Assert_failed"
    using remove_zero_slot [OF w(5,2) _ slots] h(4) w(3) by (simp add: ec_es es_remove_def)
  moreover have "\<exists>im2. ec_get eid im1 =
      Inr ((OK, map (env_heap (im_env im) (env_tick (im_env im) + 4)) [0..<?s]), im2)"
  proof -
    have pos: "0 < isize n1" "isize n1 < BLOCK_SIZE"
      using h(4) buf(2) w(3) by simp_all
    obtain im2 where "read_file im1 ?i None 0 = Inr (Some (fst (heap_bytes im1 BLOCK_SIZE)), int ?s, im2)"
      using read_file_empty [OF w(5,2,4) pos] w(3) by metis
    moreover have "env_tick (im_env im1) = env_tick (im_env im) + 4" "env_heap (im_env im1) = env_heap (im_env im)"
      using write_file_env [OF n(1) w(1)] by (simp_all add: tick_def)
    ultimately show ?thesis
      using buf by (simp add: ec_es es_get_def load_heap_bytes)
  qed
  ultimately show ?thesis
    using zero_slot_not_ok [OF w(5,2) _ slots(1)] h(4) w(3) by auto
qed

theorem put_on_full_disk_witness:
  "\<exists>im1 im2. ec_put 2 ''hi'' full_disk_im = Inr (OK, im1) \<and> ec_remove 2 im1 = Inl Assert_failed \<and>
     ec_get 2 im1 = Inr ((OK, ''xx''), im2)"
proof -
  have "eid_inum 2 = 2"
    by (simp add: eid_inum_def)
  moreover have "im_env full_disk_im = sample_env" "env_tick sample_env = 0" "env_heap sample_env k j = CHR ''x''" for k j
    by (simp_all add: full_disk_im_def table_im_def sample_env_def)
  ultimately show ?thesis
    using put_on_full_disk [of full_disk_im 2 2 "''hi''"] full_disk_im_facts by auto
qed

end
