(* ===== verification/Overread.thy ===== *)
theory Overread
  imports Extent
begin

text \<open>
  How much memory behind the string \<open>put\<close> needs. The loop over the direct blocks of
  \<open>write_file\<close> copies the last, partly filled block twice: its bytes, by way of
  \<open>arr_for_remain\<close>, and then a whole block from the buffer, since no \<open>else\<close> separates
  the two; the loop over the indirect blocks breaks between them. \<open>extent_server::put\<close> passes
  \<open>c_str()\<close>, behind which C++ promises the terminating NUL and no more. Here the bytes that
  may be read behind it are an argument, and the lemmas say for which lengths there are enough of them.
\<close>

section \<open>Enough memory\<close>

text \<open>Bytes that are not read make no difference.\<close>

lemma load_append: "pos + n \<le> length mem \<Longrightarrow> load (mem @ e) pos n = load mem pos n"
  by (simp add: load_def)

lemma write_direct_append:
  assumes "s \<le> length mem" "BLOCK_SIZE * min NDIRECT (nblk s) \<le> length mem"
  shows "write_direct bm blks arr (mem @ e) (int s) (BLOCK_SIZE * i) i
    = write_direct bm blks arr mem (int s) (BLOCK_SIZE * i) i"
proof (induction "NDIRECT - i" arbitrary: i bm blks arr)
  case 0
  then show ?case
    by (subst (1 2) write_direct.simps) simp
next
  case (Suc d)
  show ?case
  proof (cases "BLOCK_SIZE * i < s")
    case True
    have IH: "write_direct b l a (mem @ e) (int s) (BLOCK_SIZE * i + BLOCK_SIZE) (Suc i)
        = write_direct b l a mem (int s) (BLOCK_SIZE * i + BLOCK_SIZE) (Suc i)" for b l a
      using Suc.hyps(1) [of "Suc i"] Suc.hyps(2) by (simp add: add.commute)
    have "BLOCK_SIZE * i + BLOCK_SIZE \<le> length mem"
      using True less_nblk_iff [of i s] Suc.hyps(2) assms(2) by linarith
    then have "load (mem @ e) (BLOCK_SIZE * i) BLOCK_SIZE = load mem (BLOCK_SIZE * i) BLOCK_SIZE"
      "load (mem @ e) (BLOCK_SIZE * i) (s - BLOCK_SIZE * i) = load mem (BLOCK_SIZE * i) (s - BLOCK_SIZE * i)"
      using True assms(1) by (simp_all add: load_append)
    moreover have "nat (int s - int (BLOCK_SIZE * i)) = s - BLOCK_SIZE * i"
      by linarith
    moreover obtain b bm1 where "slot_block bm (blks ! i) = (b, bm1)"
      by fastforce
    ultimately show ?thesis
      by (subst (1 2) write_direct.simps) (simp add: IH del: of_nat_mult cong: if_cong)
  qed (subst (1 2) write_direct.simps, simp)
qed

lemma write_indirect_append:
  assumes "s \<le> length mem"
  shows "write_indirect bm ind arr (mem @ e) (int s) pos i = write_indirect bm ind arr mem (int s) pos i"
proof (induction "NINDIRECT - i" arbitrary: i bm ind pos)
  case 0
  then show ?case
    by (subst (1 2) write_indirect.simps) simp
next
  case (Suc d)
  note IH = Suc.hyps(1) [of "Suc i"]
  show ?case
  proof (cases "pos + BLOCK_SIZE \<le> s")
    case True
    then have "load (mem @ e) pos BLOCK_SIZE = load mem pos BLOCK_SIZE"
      using assms by (simp add: load_append)
    with True show ?thesis
      using IH Suc.hyps(2) by (subst (1 2) write_indirect.simps) simp
  next
    case False
    have "load (mem @ e) pos (s - pos) = load mem pos (s - pos)" if "pos < s"
      using that assms by (simp add: load_append)
    moreover have "nat (int s - int pos) = s - pos"
      by linarith
    ultimately show ?thesis
      using False by (subst (1 2) write_indirect.simps) simp
  qed
qed

lemma write_file_append:
  assumes "s \<le> length mem" "BLOCK_SIZE * min NDIRECT (nblk s) \<le> length mem"
  shows "write_file im i (mem @ e) (int s) = write_file im i mem (int s)"
proof -
  have tail: "write_tail bm blks arr (mem @ e) (int s) pos = write_tail bm blks arr mem (int s) pos" for bm blks arr pos
    by (simp add: write_tail_def write_indirect_append [OF assms(1)])
  have data: "write_data bm blks (mem @ e) (int s) = write_data bm blks mem (int s)" for bm blks
    using write_direct_append [OF assms, where i = 0] unfolding write_data_def tail by simp
  show ?thesis
    unfolding write_file_def data ..
qed

section \<open>Too little memory\<close>

text \<open>The last direct block is partly filled and cannot be copied as a whole.\<close>

lemma write_direct_fault:
  assumes s: "s < BLOCK_SIZE * NDIRECT" "s mod BLOCK_SIZE \<noteq> 0"
    and mem: "s \<le> length mem" "length mem < BLOCK_SIZE * (s div BLOCK_SIZE + 1)"
  shows "i \<le> s div BLOCK_SIZE \<Longrightarrow> length arr = BLOCK_SIZE \<Longrightarrow>
    write_direct bm blks arr mem (int s) (BLOCK_SIZE * i) i = Inl Out_of_bounds"
proof (induction "s div BLOCK_SIZE - i" arbitrary: i bm blks arr)
  case 0
  then have i: "i = s div BLOCK_SIZE"
    by simp
  then have "BLOCK_SIZE * i < s" "s - BLOCK_SIZE * i \<le> BLOCK_SIZE" "i < NDIRECT"
    using s mult_div_mod_eq [of BLOCK_SIZE s] mod_less_divisor [of BLOCK_SIZE s] by linarith+
  moreover from this have "load mem (BLOCK_SIZE * i) (s - BLOCK_SIZE * i)
      = Inr (take (s - BLOCK_SIZE * i) (drop (BLOCK_SIZE * i) mem))"
    "load mem (BLOCK_SIZE * i) BLOCK_SIZE = Inl Out_of_bounds"
    using mem i by (simp_all add: load_def)
  ultimately show ?case
    using "0.prems"(2) mem(1) by (subst write_direct.simps) (auto simp: memcpy_at_ok split: prod.splits)
next
  case (Suc d)
  have "BLOCK_SIZE * (i + 1) \<le> s"
    using Suc.hyps(2) less_eq_div_iff_mult_less_eq [of BLOCK_SIZE "i + 1" s] by (simp add: mult.commute)
  then have i: "i < NDIRECT" "BLOCK_SIZE * i < s" "BLOCK_SIZE * (i + 1) \<le> length mem"
    using s(1) mem(1) by simp_all
  obtain b bm1 where b: "slot_block bm (blks ! i) = (b, bm1)"
    by fastforce
  obtain arr1 where "length arr1 = BLOCK_SIZE" "write_direct bm blks arr mem (int s) (BLOCK_SIZE * i) i =
      write_direct (write_block bm1 b (chunk mem i)) (blks[i := b]) arr1 mem (int s) (BLOCK_SIZE * (i + 1)) (i + 1)"
    by (rule write_direct_step [OF i b Suc.prems(2)])
  then show ?case
    using Suc.hyps(1) [of "i + 1" arr1] Suc.hyps(2) by simp
qed

lemma write_file_fault:
  assumes "get_inode im i = Some n" "s < BLOCK_SIZE * NDIRECT" "s mod BLOCK_SIZE \<noteq> 0" "s \<le> length mem"
    "length mem < BLOCK_SIZE * (s div BLOCK_SIZE + 1)"
  shows "write_file im i mem (int s) = Inl Out_of_bounds"
  using assms(1) write_direct_fault [OF assms(2-5), of 0 "zeros BLOCK_SIZE"]
  by (simp add: write_file_def write_data_def Let_def)

section \<open>\<open>put\<close>\<close>

text \<open>C5. A \<open>put\<close> to an existing file, of content that fits the largest file and the free
  space, reads outside the string exactly when the content ends in a partly filled direct block and the
  string with its NUL and the readable bytes behind it ends before that block does. Otherwise it stores
  the content and changes no other file, whatever is behind the string. So without readable bytes behind
  the NUL every content shorter than the direct blocks is affected, unless it is empty or its last block is filled but for
  at most one byte.\<close>

theorem put_overread:
  assumes "fs_inv im" "files im (eid_inum eid) = Some (t, c)" "length buf \<le> BLOCK_SIZE * MAXFILE"
    "cost (length buf) - cost (length c) \<le> bm_free (im_bm im)"
  shows "if length buf < BLOCK_SIZE * NDIRECT \<and> length buf mod BLOCK_SIZE \<noteq> 0 \<and>
      length buf mod BLOCK_SIZE + 1 + length behind < BLOCK_SIZE
    then es_put_with behind eid buf im = Inl Out_of_bounds
    else \<exists>im'. es_put_with behind eid buf im = Inr (OK, im') \<and> fs_inv im' \<and>
      files im' = (files im)(eid_inum eid \<mapsto> (t, buf))"
proof -
  let ?s = "length buf" and ?mem = "buf @ NUL # behind"
  have sz: "sint (word_of_nat ?s :: u32) = int ?s"
    using int_size [OF assms(3)] .
  obtain q r where qr: "?s div BLOCK_SIZE = q" "?s mod BLOCK_SIZE = r" "?s = BLOCK_SIZE * q + r" "r < BLOCK_SIZE"
    by (metis mod_less_divisor mult_div_mod_eq zero_less_numeral)
  show ?thesis
  proof (cases "?s < BLOCK_SIZE * NDIRECT \<and> ?s mod BLOCK_SIZE \<noteq> 0 \<and> ?s mod BLOCK_SIZE + 1 + length behind < BLOCK_SIZE")
    case True
    obtain n where "get_inode im (eid_inum eid) = Some n"
      using assms(2) by (auto simp: files_def)
    moreover have "length ?mem < BLOCK_SIZE * (?s div BLOCK_SIZE + 1)"
      using True qr by simp
    ultimately have "write_file im (eid_inum eid) ?mem (int ?s) = Inl Out_of_bounds"
      using True by (intro write_file_fault) simp_all
    with True show ?thesis
      by (simp add: es_put_with_def sz)
  next
    case False
    have "BLOCK_SIZE * min NDIRECT (nblk ?s) \<le> length ?mem"
    proof (cases "?s < BLOCK_SIZE * NDIRECT \<and> ?s mod BLOCK_SIZE \<noteq> 0")
      case True
      then have "BLOCK_SIZE * (?s div BLOCK_SIZE + 1) \<le> length ?mem"
        using False qr by auto
      moreover have "nblk ?s \<le> ?s div BLOCK_SIZE + 1"
        unfolding nblk_le_iff using qr by simp
      ultimately show ?thesis
        by (meson le_trans min.coboundedI2 mult_le_mono2)
    next
      case short: False
      then have "BLOCK_SIZE * NDIRECT \<le> ?s \<or> nblk ?s \<le> ?s div BLOCK_SIZE"
        unfolding nblk_le_iff using qr by auto
      then show ?thesis
        using qr by (auto simp: min_def)
    qed
    then have "write_file im (eid_inum eid) (?mem @ zeros 511) (int ?s) = write_file im (eid_inum eid) ?mem (int ?s)"
      by (intro write_file_append) simp_all
    then have "es_put_with (behind @ zeros 511) eid buf im = es_put_with behind eid buf im"
      by (simp add: es_put_with_def sz)
    then show ?thesis
      using False es_put_with_ok [OF assms, of "behind @ zeros 511"] by auto
  qed
qed

theorem put_overread_witness:
  "es_put_with [] 1 ''hello'' (root_im sample_env) = Inl Out_of_bounds \<and>
   (\<exists>im'. es_put_with (zeros 506) 1 ''hello'' (root_im sample_env) = Inr (OK, im') \<and> fs_inv im' \<and>
     files im' = (files (root_im sample_env))(1 \<mapsto> (1, ''hello'')))"
proof -
  have "eid_inum 1 = 1"
    by (simp add: eid_inum_def)
  moreover have "cost (length ''hello'') - cost (length []) \<le> bm_free (im_bm (root_im sample_env))"
    by (simp add: root_im_facts bm_free_init cost_def total_def nblk_def)
  ultimately show ?thesis
    using put_overread [of "root_im sample_env" 1 1 "[]" "''hello''" "[]"]
      put_overread [of "root_im sample_env" 1 1 "[]" "''hello''" "zeros 506"] root_im_facts(1,2)
    by (simp add: root_im_facts)
qed

end
