(* ===== verification/Fuse_Main.thy ===== *)
theory Fuse_Main
  imports Fuse_Spec
begin

text \<open>
  \<open>main\<close> of \<open>fuse.cc\<close>, as it is compiled on Linux: the client is constructed, the file system
  mounted, the session served and everything given back. What the calls of the FUSE library return is an
  argument; the calls that others can see are recorded in order.
\<close>

section \<open>The program\<close>

text \<open>\<open>fuse_parse_cmdline\<close> gives the mount point and the remaining arguments, or fails;
  \<open>fuse_mount\<close> gives a file descriptor, or -1; \<open>fuse_lowlevel_new\<close> and
  \<open>fuse_kern_chan_new\<close> give an object or NULL; \<open>fuse_session_loop\<close> gives an error number
  when the kernel ends the session.\<close>

record fuse_lib =
  lib_parse :: "string list \<Rightarrow> (string \<times> string list) option"
  lib_mount :: "string \<Rightarrow> string list \<Rightarrow> int"
  lib_new :: "string list \<Rightarrow> bool"
  lib_chan :: "int \<Rightarrow> bool"
  lib_err :: int

datatype main_event = Fuse_mount string | Session_destroy | Close int | Fuse_unmount string

text \<open>The exit status, the events and the replies. The requests of the session are an argument, as is
  what the handlers find in uninitialised memory.\<close>

definition fuse_main ::
  "(nat \<Rightarrow> nat) \<Rightarrow> (string \<Rightarrow> stat \<Rightarrow> u64 \<Rightarrow> byte list) \<Rightarrow> fuse_lib \<Rightarrow> string list \<Rightarrow> u32 \<Rightarrow> env \<Rightarrow>
   (fuse_entry_param \<times> u64 \<times> request) list \<Rightarrow> (nat \<times> main_event list \<times> reply list list) res" where
  "fuse_main ds ad lib argv junk env requests =
     (if length argv \<noteq> 2 then Inr (1, [], [])
      else let mountpoint = argv ! 1
      in res_bind (chfs_client_new junk env) (\<lambda>im.
         let fuse_argv = [argv ! 0, mountpoint, ''-d'']
         in case lib_parse lib fuse_argv of
              None \<Rightarrow> Inr (0, [], [])
            | Some (mountpoint, args) \<Rightarrow>
                let fd = lib_mount lib mountpoint args
                in if fd = - 1 then Inr (1, [], [])
                   else if \<not> lib_new lib args then Inr (1, [Fuse_mount mountpoint], [])
                   else if \<not> lib_chan lib fd then Inr (1, [Fuse_mount mountpoint], [])
                   else res_bind (serve ds ad requests im) (\<lambda>(replies, im').
                        Inr (if lib_err lib \<noteq> 0 then 1 else 0,
                          [Fuse_mount mountpoint, Session_destroy, Close fd, Fuse_unmount mountpoint], replies))))"

section \<open>A run\<close>

text \<open>After a failure to make the session or
  the channel the file system stays mounted.\<close>

lemma main_leaves_mount:
  assumes "length argv = 2" "lib_parse lib [argv ! 0, argv ! 1, ''-d''] = Some (mp, args)"
    "lib_mount lib mp args \<noteq> - 1" "\<not> lib_new lib args \<or> \<not> lib_chan lib (lib_mount lib mp args)"
    "chfs_client_new junk env = Inr im"
  shows "fuse_main ds ad lib argv junk env requests = Inr (1, [Fuse_mount mp], [])"
  using assms by (auto simp: fuse_main_def Let_def)

text \<open>C40. \<open>main\<close> constructs the client without arguments; when the constructor returns, the root is an
  empty directory, so a first listing of it is empty. When the calls of the library succeed, every
  admissible request of the session is answered exactly once, requests and replies are a behaviour of the
  abstract service, and then the session is destroyed, the descriptor
  closed and the file system unmounted, once each and in this order; the exit status is 0 when the
  session loop ended without an error.\<close>

theorem main_serves:
  assumes argv: "length argv = 2" and parse: "lib_parse lib [argv ! 0, argv ! 1, ''-d''] = Some (mp, args)"
    and mount: "lib_mount lib mp args = fd" "fd \<noteq> - 1" and objects: "lib_new lib args" "lib_chan lib fd"
    and init: "chfs_client_new junk env = Inr im" and lib: "dirent_lib ds ad"
    and requests: "session_ok ds ad requests im"
  shows "files im = [1 \<mapsto> (1, [])] \<and>
    (\<exists>im'. fuseserver_readdir ds ad 1 sz 0 im = Inr ([Reply_buf []], im') \<and> same im im') \<and>
    (\<exists>answers im'. fuse_main ds ad lib argv junk env requests =
         Inr (if lib_err lib = 0 then 0 else 1, [Fuse_mount mp, Session_destroy, Close fd, Fuse_unmount mp],
           map (\<lambda>r. [r]) answers) \<and>
       length answers = length requests \<and>
       fuse_trace ds ad fs_init (zip (map request_of requests) answers) (abs_fs im'))"
proof -
  obtain answers im' where "serve ds ad requests im = Inr (map (\<lambda>r. [r]) answers, im')"
    "length answers = length requests" "fuse_trace ds ad fs_init (zip (map request_of requests) answers) (abs_fs im')"
    using serve_refines [OF lib mount_fs(1) [OF init lib] requests] unfolding mount_fs(2) [OF init lib] by blast
  then have "\<exists>answers im'. fuse_main ds ad lib argv junk env requests =
      Inr (if lib_err lib = 0 then 0 else 1, [Fuse_mount mp, Session_destroy, Close fd, Fuse_unmount mp],
        map (\<lambda>r. [r]) answers) \<and>
    length answers = length requests \<and>
    fuse_trace ds ad fs_init (zip (map request_of requests) answers) (abs_fs im')"
    using argv parse mount objects init by (auto simp: fuse_main_def Let_def)
  then show ?thesis
    using mount_ok [OF init lib] by blast
qed

definition sample_fuse :: fuse_lib where
  "sample_fuse = \<lparr>lib_parse = (\<lambda>args. Some (args ! 1, [args ! 0, ''-d''])), lib_mount = (\<lambda>_ _. 5), lib_new = (\<lambda>_. True),
     lib_chan = (\<lambda>_. True), lib_err = 0\<rparr>"

theorem main_serves_witness:
  "\<exists>replies. fuse_main sample_size sample_dirent sample_fuse [''chfs_client'', ''/mnt''] 0 sample_env
       [(blank_entry, 0, Lookup 1 ''a''), (blank_entry, 0, Readdir 1 4096 0)] =
     Inr (0, [Fuse_mount ''/mnt'', Session_destroy, Close 5, Fuse_unmount ''/mnt''], replies) \<and> length replies = 2"
proof -
  have init: "chfs_client_new 0 sample_env = Inr (root_im sample_env)"
    by (simp add: chfs_client_new_def extent_client_init_def extent_server_init_def inode_manager_init_eq
        to_alloc_def word_le_nat_alt)
  have "session_ok sample_size sample_dirent
      [(blank_entry, 0, Lookup 1 ''a''), (blank_entry, 0, Readdir 1 4096 0)] (root_im sample_env)"
    by (auto split: sum.splits)
  from main_serves [OF _ _ _ _ _ _ init sample_lib this, of "[''chfs_client'', ''/mnt'']" sample_fuse "''/mnt''"
      "[''chfs_client'', ''-d'']" 5 4096]
  show ?thesis
    by (auto simp: sample_fuse_def eval_nat_numeral)
qed

end
