(* ===== verification/Fifo.thy ===== *)
theory Fifo
  imports Prelude
begin

text \<open>
  The blocking queue \<open>fifo\<close> of \<open>rpc/fifo.h\<close>, used by the thread pool of the RPC layer,
  with any number of threads that call \<open>enq\<close> and \<open>deq\<close>. \<open>ScopedLock\<close> holds the
  mutex over a whole iteration of the loops, up to the return or to \<open>pthread_cond_wait\<close>, so
  one step of the system is one iteration by one thread. A signal wakes one of the threads that wait on
  the condition, if there is one, and which one is not determined; a wait may also end without a signal. Taking and releasing the mutex is taken to
  succeed.
\<close>

section \<open>The queue\<close>

record 'a fifo =
  fq :: "'a list"
  fmax :: u32

text \<open>The limit is an \<open>int\<close> and is stored as an \<open>unsigned int\<close>: the same 32 bits.\<close>

definition fifo_init :: "u32 \<Rightarrow> 'a fifo" where
  "fifo_init limit = \<lparr>fq = [], fmax = limit\<rparr>"

text \<open>The constructor initialises the mutex and the two conditions and the destructor destroys them; the
  results of the \<open>pthread\<close> functions are arguments, and a failure ends the process.\<close>

definition fifo_new :: "int \<Rightarrow> int \<Rightarrow> int \<Rightarrow> u32 \<Rightarrow> 'a fifo res" where
  "fifo_new m_err non_empty_err has_space_err limit =
     (if m_err \<noteq> 0 then Inl Assert_failed
      else if non_empty_err \<noteq> 0 then Inl Assert_failed
      else if has_space_err \<noteq> 0 then Inl Assert_failed
      else Inr (fifo_init limit))"

definition fifo_destroy :: "int \<Rightarrow> int \<Rightarrow> int \<Rightarrow> unit res" where
  "fifo_destroy m_err non_empty_err has_space_err =
     (if m_err \<noteq> 0 then Inl Assert_failed
      else if non_empty_err \<noteq> 0 then Inl Assert_failed
      else if has_space_err \<noteq> 0 then Inl Assert_failed
      else Inr ())"

text \<open>\<open>size\<close> converts the number of elements to \<open>bool\<close>.\<close>

definition fifo_size :: "'a fifo \<Rightarrow> bool" where
  "fifo_size f \<longleftrightarrow> length (fq f) \<noteq> 0"

datatype 'a enq_result = Enqueued "'a fifo" | Enq_waits | Refused

definition enq :: "'a fifo \<Rightarrow> 'a \<Rightarrow> bool \<Rightarrow> 'a enq_result" where
  "enq f e blocking =
     (if fmax f = 0 \<or> length (fq f) < unat (fmax f) then Enqueued (f\<lparr>fq := fq f @ [e]\<rparr>)
      else if blocking then Enq_waits
      else Refused)"

text \<open>A removal tells whether it signals \<open>has_space_c_\<close>.\<close>

datatype 'a deq_result = Dequeued 'a "'a fifo" bool | Deq_waits

definition deq :: "'a fifo \<Rightarrow> 'a deq_result" where
  "deq f = (case fq f of
      [] \<Rightarrow> Deq_waits
    | e # es \<Rightarrow> Dequeued e (f\<lparr>fq := es\<rparr>) (fmax f \<noteq> 0 \<and> length es < unat (fmax f)))"

section \<open>Threads\<close>

text \<open>A thread is outside, about to run an iteration of \<open>enq\<close> or \<open>deq\<close>, or asleep in
  \<open>pthread_cond_wait\<close>; only a blocking \<open>enq\<close> sleeps.\<close>

datatype 'a thread = Out | Enq_at 'a bool | Enq_asleep 'a | Deq_at | Deq_asleep

primrec enq_asleep :: "'a thread \<Rightarrow> bool" where
  "enq_asleep Out = False"
| "enq_asleep (Enq_at e b) = False"
| "enq_asleep (Enq_asleep e) = True"
| "enq_asleep Deq_at = False"
| "enq_asleep Deq_asleep = False"

primrec enq_awake :: "'a thread \<Rightarrow> bool" where
  "enq_awake Out = False"
| "enq_awake (Enq_at e b) = True"
| "enq_awake (Enq_asleep e) = False"
| "enq_awake Deq_at = False"
| "enq_awake Deq_asleep = False"

primrec wake :: "'a thread \<Rightarrow> 'a thread" where
  "wake Out = Out"
| "wake (Enq_at e b) = Enq_at e b"
| "wake (Enq_asleep e) = Enq_at e True"
| "wake Deq_at = Deq_at"
| "wake Deq_asleep = Deq_at"

definition deq_asleep :: "'a thread \<Rightarrow> bool" where
  [simp]: "deq_asleep t \<longleftrightarrow> t = Deq_asleep"

definition deq_awake :: "'a thread \<Rightarrow> bool" where
  [simp]: "deq_awake t \<longleftrightarrow> t = Deq_at"

text \<open>\<open>pthread_cond_signal\<close>: \<open>P\<close> are the threads that wait on the condition.\<close>

definition signals :: "('a thread \<Rightarrow> bool) \<Rightarrow> 'a thread list \<Rightarrow> 'a thread list \<Rightarrow> bool" where
  "signals P ts ts' \<longleftrightarrow>
     (if \<exists>t\<in>set ts. P t then \<exists>i<length ts. P (ts ! i) \<and> ts' = ts[i := wake (ts ! i)] else ts' = ts)"

text \<open>The system, with the elements that were added and that were removed so far.\<close>

record 'a pool =
  queue :: "'a fifo"
  threads :: "'a thread list"
  sent :: "'a list"
  received :: "'a list"

definition pool_init :: "u32 \<Rightarrow> nat \<Rightarrow> 'a pool" where
  "pool_init limit n = \<lparr>queue = fifo_init limit, threads = replicate n Out, sent = [], received = []\<rparr>"

inductive pool_step :: "'a pool \<Rightarrow> 'a pool \<Rightarrow> bool" where
  call_enq: "i < length (threads s) \<Longrightarrow> threads s ! i = Out \<Longrightarrow>
    pool_step s (s\<lparr>threads := (threads s)[i := Enq_at e b]\<rparr>)"
| call_deq: "i < length (threads s) \<Longrightarrow> threads s ! i = Out \<Longrightarrow>
    pool_step s (s\<lparr>threads := (threads s)[i := Deq_at]\<rparr>)"
| enq_done: "i < length (threads s) \<Longrightarrow> threads s ! i = Enq_at e b \<Longrightarrow> enq (queue s) e b = Enqueued f \<Longrightarrow>
    signals deq_asleep ((threads s)[i := Out]) ts \<Longrightarrow>
    pool_step s (s\<lparr>queue := f, threads := ts, sent := sent s @ [e]\<rparr>)"
| enq_wait: "i < length (threads s) \<Longrightarrow> threads s ! i = Enq_at e b \<Longrightarrow> enq (queue s) e b = Enq_waits \<Longrightarrow>
    pool_step s (s\<lparr>threads := (threads s)[i := Enq_asleep e]\<rparr>)"
| enq_refused: "i < length (threads s) \<Longrightarrow> threads s ! i = Enq_at e b \<Longrightarrow> enq (queue s) e b = Refused \<Longrightarrow>
    pool_step s (s\<lparr>threads := (threads s)[i := Out]\<rparr>)"
| deq_done: "i < length (threads s) \<Longrightarrow> threads s ! i = Deq_at \<Longrightarrow> deq (queue s) = Dequeued e f sig \<Longrightarrow>
    (if sig then signals enq_asleep ((threads s)[i := Out]) ts else ts = (threads s)[i := Out]) \<Longrightarrow>
    pool_step s (s\<lparr>queue := f, threads := ts, received := received s @ [e]\<rparr>)"
| deq_wait: "i < length (threads s) \<Longrightarrow> threads s ! i = Deq_at \<Longrightarrow> deq (queue s) = Deq_waits \<Longrightarrow>
    pool_step s (s\<lparr>threads := (threads s)[i := Deq_asleep]\<rparr>)"
| spurious: "i < length (threads s) \<Longrightarrow> pool_step s (s\<lparr>threads := (threads s)[i := wake (threads s ! i)]\<rparr>)"

inductive_cases pool_stepE: "pool_step s t"

section \<open>Counting threads\<close>

definition count :: "('a thread \<Rightarrow> bool) \<Rightarrow> 'a thread list \<Rightarrow> nat" where
  "count P ts = length (filter P ts)"

lemma count_update:
  assumes "i < length ts"
  shows "count P (ts[i := t]) + (if P (ts ! i) then 1 else 0) = count P ts + (if P t then 1 else 0)"
  using assms
proof (induction ts arbitrary: i)
  case (Cons x ts)
  then show ?case
    by (cases i) (auto simp: count_def)
qed simp

lemma count_0: "count P ts = 0 \<longleftrightarrow> (\<forall>t\<in>set ts. \<not> P t)"
  by (simp add: count_def filter_empty_conv)

lemmas counts = count_update [of _ _ deq_asleep] count_update [of _ _ deq_awake]
  count_update [of _ _ enq_asleep] count_update [of _ _ enq_awake]

text \<open>A signal turns one sleeping thread into an awake one.\<close>

lemma signalsE:
  assumes "signals P ts ts'"
  obtains (woken) i where "i < length ts" "P (ts ! i)" "ts' = ts[i := wake (ts ! i)]"
  | (nobody) "ts' = ts" "count P ts = 0"
  using assms by (auto simp: signals_def count_0 split: if_splits)

lemma signals_total: "\<exists>ts'. signals P ts ts'"
  by (cases "\<exists>t\<in>set ts. P t") (auto simp: signals_def in_set_conv_nth)

lemma signals_deq:
  assumes "signals deq_asleep ts ts'"
  shows "count deq_asleep ts' = count deq_asleep ts - 1 \<and>
    count deq_awake ts' = count deq_awake ts + (if 0 < count deq_asleep ts then 1 else 0) \<and>
    count enq_asleep ts' = count enq_asleep ts \<and> count enq_awake ts' = count enq_awake ts"
  using assms
proof (cases rule: signalsE)
  case (woken i)
  then show ?thesis
    using counts [OF woken(1), of "wake (ts ! i)"] by simp
qed simp

lemma signals_enq:
  assumes "signals enq_asleep ts ts'"
  shows "count enq_asleep ts' = count enq_asleep ts - 1 \<and>
    count enq_awake ts' = count enq_awake ts + (if 0 < count enq_asleep ts then 1 else 0) \<and>
    count deq_asleep ts' = count deq_asleep ts \<and> count deq_awake ts' = count deq_awake ts"
  using assms
proof (cases rule: signalsE)
  case (woken i)
  then obtain e where "ts ! i = Enq_asleep e"
    by (cases "ts ! i") simp_all
  then show ?thesis
    using counts [OF woken(1), of "wake (ts ! i)"] woken(3) by simp
qed simp

section \<open>The invariant\<close>

text \<open>
  What was added is what was removed and then what is in the queue; the limit is kept; and for the
  elements that are in the queue while a \<open>deq\<close> sleeps there are as many threads awake in
  \<open>deq\<close>, and likewise for the free places.
\<close>

definition pool_inv :: "'a pool \<Rightarrow> bool" where
  "pool_inv s \<longleftrightarrow>
     sent s = received s @ fq (queue s) \<and>
     (fmax (queue s) \<noteq> 0 \<longrightarrow> length (fq (queue s)) \<le> unat (fmax (queue s))) \<and>
     (0 < count deq_asleep (threads s) \<longrightarrow> length (fq (queue s)) \<le> count deq_awake (threads s)) \<and>
     (0 < count enq_asleep (threads s) \<longrightarrow> fmax (queue s) \<noteq> 0 \<and>
        unat (fmax (queue s)) \<le> length (fq (queue s)) + count enq_awake (threads s))"

lemma pool_inv_init: "pool_inv (pool_init limit n)"
  by (simp add: pool_inv_def pool_init_def fifo_init_def count_def)

text \<open>A change of one thread that neither falls asleep nor stops being awake.\<close>

lemma pool_inv_thread:
  assumes "pool_inv s" "i < length (threads s)"
    and "\<not> deq_awake (threads s ! i) \<or> deq_awake t" "\<not> enq_awake (threads s ! i) \<or> enq_awake t"
    and "deq_asleep t \<longrightarrow> deq_asleep (threads s ! i)" "enq_asleep t \<longrightarrow> enq_asleep (threads s ! i)"
  shows "pool_inv (s\<lparr>threads := (threads s)[i := t]\<rparr>)"
  using assms(1,3-) counts [OF assms(2), of t] unfolding pool_inv_def
  by (auto split: if_splits simp del: deq_asleep_def deq_awake_def)

text \<open>A call of \<^verbatim>\<open>enq\<close> or \<^verbatim>\<open>deq\<close> that gets through, with its signal.\<close>

lemma pool_inv_enq:
  assumes i: "i < length (threads s)" and idle: "threads s ! i = Enq_at e b"
    and enq: "enq (queue s) e b = Enqueued f"
    and sig0: "signals deq_asleep ((threads s)[i := Out]) ts" and inv: "pool_inv s"
  shows "pool_inv (s\<lparr>queue := f, threads := ts, sent := sent s @ [e]\<rparr>)"
proof -
  have f: "f = (queue s)\<lparr>fq := fq (queue s) @ [e]\<rparr>" "fmax (queue s) = 0 \<or> length (fq (queue s)) < unat (fmax (queue s))"
    using enq by (auto simp: enq_def split: if_splits)
  let ?us = "(threads s)[i := Out]"
  have us: "count deq_asleep ?us = count deq_asleep (threads s)" "count deq_awake ?us = count deq_awake (threads s)"
    "count enq_asleep ?us = count enq_asleep (threads s)" "count enq_awake (threads s) = count enq_awake ?us + 1"
    using counts [OF i, of Out] idle by simp_all
  note sig = signals_deq [OF sig0, unfolded us]
  show ?thesis
    using inv f(2) sig us(4) by (auto simp: pool_inv_def f(1))
qed

lemma pool_inv_deq:
  assumes i: "i < length (threads s)" and idle: "threads s ! i = Deq_at"
    and deq: "deq (queue s) = Dequeued e f sig"
    and sig0: "if sig then signals enq_asleep ((threads s)[i := Out]) ts else ts = (threads s)[i := Out]"
    and inv: "pool_inv s"
  shows "pool_inv (s\<lparr>queue := f, threads := ts, received := received s @ [e]\<rparr>)"
proof -
  obtain es where f: "fq (queue s) = e # es" "f = (queue s)\<lparr>fq := es\<rparr>"
    "sig \<longleftrightarrow> fmax (queue s) \<noteq> 0 \<and> length es < unat (fmax (queue s))"
    using deq by (auto simp: deq_def split: list.splits)
  let ?us = "(threads s)[i := Out]"
  have us: "count deq_asleep ?us = count deq_asleep (threads s)" "count enq_awake ?us = count enq_awake (threads s)"
    "count enq_asleep ?us = count enq_asleep (threads s)" "count deq_awake (threads s) = count deq_awake ?us + 1"
    using counts [OF i, of Out] idle by simp_all
  show ?thesis
  proof (cases sig)
    case True
    then have "signals enq_asleep ?us ts"
      using sig0 by simp
    note sig = signals_enq [OF this, unfolded us]
    show ?thesis
      using inv f(1) sig us(4) by (auto simp: pool_inv_def f(2))
  next
    case False
    then have "ts = ?us"
      using sig0 by simp
    then show ?thesis
      using inv f(1,3) False us by (auto simp: pool_inv_def f(2))
  qed
qed

lemma pool_inv_step: "pool_step s t \<Longrightarrow> pool_inv s \<Longrightarrow> pool_inv t"
proof (induction rule: pool_step.induct)
  case (call_enq i s e b)
  then show ?case
    by (intro pool_inv_thread) simp_all
next
  case (call_deq i s)
  then show ?case
    by (intro pool_inv_thread) simp_all
next
  case (enq_done i s e b f ts)
  then show ?case
    by (rule pool_inv_enq)
next
  case (enq_wait i s e b)
  have "fmax (queue s) \<noteq> 0 \<and> unat (fmax (queue s)) \<le> length (fq (queue s))"
    using enq_wait(3) by (auto simp: enq_def split: if_splits)
  then show ?case
    using enq_wait(2,4) counts [OF enq_wait(1), of "Enq_asleep e"] by (auto simp: pool_inv_def)
next
  case (enq_refused i s e b)
  have "fmax (queue s) \<noteq> 0 \<and> unat (fmax (queue s)) \<le> length (fq (queue s))"
    using enq_refused(3) by (auto simp: enq_def split: if_splits)
  then show ?case
    using enq_refused(2,4) counts [OF enq_refused(1), of Out] by (auto simp: pool_inv_def)
next
  case (deq_done i s e f sig ts)
  then show ?case
    by (rule pool_inv_deq)
next
  case (deq_wait i s)
  have "fq (queue s) = []"
    using deq_wait(3) by (simp add: deq_def split: list.splits)
  then show ?case
    using deq_wait(2,4) counts [OF deq_wait(1), of Deq_asleep] by (auto simp: pool_inv_def)
next
  case (spurious i s)
  then show ?case
    by (cases "threads s ! i") (auto intro!: pool_inv_thread)
qed

lemma pool_inv_reachable: "pool_step\<^sup>*\<^sup>* (pool_init limit n) s \<Longrightarrow> pool_inv s"
  by (induction rule: rtranclp_induct) (auto intro: pool_inv_init pool_inv_step)

lemma pool_limit: "pool_step\<^sup>*\<^sup>* (pool_init limit n) s \<Longrightarrow> fmax (queue s) = limit"
proof (induction rule: rtranclp_induct)
  case (step s t)
  from step(2) have "fmax (queue t) = fmax (queue s)"
    by (cases rule: pool_stepE) (auto simp: enq_def deq_def split: if_splits list.splits)
  then show ?case
    using step(3) by simp
qed (simp add: pool_init_def fifo_init_def)

text \<open>When no thread is awake, who sleeps has a reason.\<close>

lemma quiet_empty:
  assumes "pool_inv s" "\<forall>t\<in>set (threads s). \<not> enq_awake t \<and> \<not> deq_awake t" "\<exists>t\<in>set (threads s). deq_asleep t"
  shows "fq (queue s) = []"
proof -
  have "count deq_awake (threads s) = 0" "count deq_asleep (threads s) \<noteq> 0"
    using assms(2,3) unfolding count_0 by blast+
  then show ?thesis
    using assms(1) by (simp add: pool_inv_def)
qed

lemma quiet_full:
  assumes "pool_inv s" "\<forall>t\<in>set (threads s). \<not> enq_awake t \<and> \<not> deq_awake t" "\<exists>t\<in>set (threads s). enq_asleep t"
  shows "fmax (queue s) \<noteq> 0 \<and> length (fq (queue s)) = unat (fmax (queue s))"
proof -
  have "count enq_awake (threads s) = 0" "count enq_asleep (threads s) \<noteq> 0"
    using assms(2,3) unfolding count_0 by blast+
  then show ?thesis
    using assms(1) by (auto simp: pool_inv_def)
qed

lemma awake_takes:
  assumes i: "i < length (threads s)" "deq_awake (threads s ! i)" and ne: "fq (queue s) \<noteq> []"
  shows "\<exists>t. pool_step s t \<and> received t = received s @ [hd (fq (queue s))]"
proof -
  obtain e es where q: "fq (queue s) = e # es"
    using ne by (cases "fq (queue s)") auto
  let ?f = "(queue s)\<lparr>fq := es\<rparr>" and ?ts = "(threads s)[i := Out]"
  obtain sig where d: "deq (queue s) = Dequeued e ?f sig"
    using q by (simp add: deq_def)
  have "\<exists>ts. if sig then signals enq_asleep ?ts ts else ts = ?ts"
    using signals_total [of enq_asleep ?ts] by (cases sig) simp_all
  then obtain ts where "if sig then signals enq_asleep ?ts ts else ts = ?ts" ..
  then have "pool_step s (s\<lparr>queue := ?f, threads := ts, received := received s @ [e]\<rparr>)"
    using i d by (intro deq_done) simp_all
  then show ?thesis
    using q by (intro exI conjI) auto
qed

section \<open>Properties\<close>

text \<open>C15. The queue delivers in order, loses nothing and invents nothing: at any time what was removed,
  followed by what is in the queue, is what was added, whatever the threads did in between; and a
  limited queue never holds more than its limit.\<close>

theorem fifo_order:
  assumes "pool_step\<^sup>*\<^sup>* (pool_init limit n) s"
  shows "sent s = received s @ fq (queue s) \<and> (limit \<noteq> 0 \<longrightarrow> length (fq (queue s)) \<le> unat limit)"
  using pool_inv_reachable [OF assms] pool_limit [OF assms] by (auto simp: pool_inv_def)

text \<open>Two threads; the first adds an element.\<close>

lemma sample_run:
  "pool_step\<^sup>*\<^sup>* (pool_init 1 2) \<lparr>queue = \<lparr>fq = [7 :: nat], fmax = 1\<rparr>, threads = [Out, Out], sent = [7], received = []\<rparr>"
proof -
  let ?i = "pool_init 1 2 :: nat pool"
  let ?s = "?i\<lparr>threads := (threads ?i)[0 := Enq_at 7 True]\<rparr>"
  have "pool_step ?i ?s"
    by (rule call_enq) (simp_all add: pool_init_def)
  moreover have "pool_step ?s (?s\<lparr>queue := \<lparr>fq = [7], fmax = 1\<rparr>, threads := [Out, Out], sent := sent ?s @ [7]\<rparr>)"
    by (rule enq_done [of 0 _ 7 True])
      (auto simp: pool_init_def fifo_init_def enq_def signals_def numeral_2_eq_2)
  moreover have "?s\<lparr>queue := \<lparr>fq = [7], fmax = 1\<rparr>, threads := [Out, Out], sent := sent ?s @ [7]\<rparr> =
      \<lparr>queue = \<lparr>fq = [7], fmax = 1\<rparr>, threads = [Out, Out], sent = [7], received = []\<rparr>"
    by (simp add: pool_init_def)
  ultimately show ?thesis
    by auto
qed

theorem fifo_order_witness:
  "\<exists>s. pool_step\<^sup>*\<^sup>* (pool_init 1 2) s \<and> sent s = [7 :: nat] \<and> fq (queue s) = [7]"
  using sample_run fifo_order [OF sample_run] by fastforce

text \<open>C16. No wake-up is lost: when no thread can go on, a thread that sleeps in \<open>deq\<close> has an empty
  queue and one that sleeps in \<open>enq\<close> a full one, so they never sleep at the same time; and a
  thread that is awake in \<open>deq\<close> while there is an element can take it.\<close>

theorem no_lost_wakeup:
  assumes "pool_step\<^sup>*\<^sup>* (pool_init limit n) s"
  shows "((\<forall>t\<in>set (threads s). \<not> enq_awake t \<and> \<not> deq_awake t) \<longrightarrow>
      ((\<exists>t\<in>set (threads s). deq_asleep t) \<longrightarrow> fq (queue s) = []) \<and>
      ((\<exists>t\<in>set (threads s). enq_asleep t) \<longrightarrow> limit \<noteq> 0 \<and> length (fq (queue s)) = unat limit) \<and>
      \<not> ((\<exists>t\<in>set (threads s). deq_asleep t) \<and> (\<exists>t\<in>set (threads s). enq_asleep t))) \<and>
    (\<forall>i<length (threads s). deq_awake (threads s ! i) \<and> fq (queue s) \<noteq> [] \<longrightarrow>
      (\<exists>t. pool_step s t \<and> received t = received s @ [hd (fq (queue s))]))"
proof (intro conjI impI allI)
  note inv = pool_inv_reachable [OF assms] and lim = pool_limit [OF assms]
  assume quiet: "\<forall>t\<in>set (threads s). \<not> enq_awake t \<and> \<not> deq_awake t"
  note empty = quiet_empty [OF inv quiet] and full = quiet_full [OF inv quiet, unfolded lim]
  show "fq (queue s) = []" if "\<exists>t\<in>set (threads s). deq_asleep t"
    using that by (rule empty)
  show "limit \<noteq> 0" "length (fq (queue s)) = unat limit" if "\<exists>t\<in>set (threads s). enq_asleep t"
    using full [OF that] by simp_all
  show "\<not> ((\<exists>t\<in>set (threads s). deq_asleep t) \<and> (\<exists>t\<in>set (threads s). enq_asleep t))"
    using empty full by (metis list.size(3) unat_eq_zero)
next
  fix i
  assume "i < length (threads s)" "deq_awake (threads s ! i) \<and> fq (queue s) \<noteq> []"
  then show "\<exists>t. pool_step s t \<and> received t = received s @ [hd (fq (queue s))]"
    using awake_takes by blast
qed

text \<open>One thread that waits for an element.\<close>

lemma sample_wait:
  "pool_step\<^sup>*\<^sup>* (pool_init 1 1) \<lparr>queue = \<lparr>fq = [] :: nat list, fmax = 1\<rparr>, threads = [Deq_asleep], sent = [], received = []\<rparr>"
proof -
  let ?i = "pool_init 1 1 :: nat pool"
  let ?s = "?i\<lparr>threads := (threads ?i)[0 := Deq_at]\<rparr>"
  have "pool_step ?i ?s"
    by (rule call_deq) (simp_all add: pool_init_def)
  moreover have "pool_step ?s (?s\<lparr>threads := (threads ?s)[0 := Deq_asleep]\<rparr>)"
    by (rule deq_wait) (simp_all add: pool_init_def fifo_init_def deq_def)
  moreover have "?s\<lparr>threads := (threads ?s)[0 := Deq_asleep]\<rparr> =
      \<lparr>queue = \<lparr>fq = [], fmax = 1\<rparr>, threads = [Deq_asleep], sent = [], received = []\<rparr>"
    by (simp add: pool_init_def fifo_init_def)
  ultimately show ?thesis
    by auto
qed

theorem no_lost_wakeup_witness:
  "\<exists>s. pool_step\<^sup>*\<^sup>* (pool_init 1 1) s \<and> Deq_asleep \<in> set (threads s) \<and> fq (queue s) = ([] :: nat list)"
proof -
  have "fq (queue \<lparr>queue = \<lparr>fq = [] :: nat list, fmax = 1\<rparr>, threads = [Deq_asleep], sent = [], received = []\<rparr>) = []"
    by (rule no_lost_wakeup [OF sample_wait, THEN conjunct1, THEN mp, THEN conjunct1, THEN mp]) simp_all
  then show ?thesis
    using sample_wait by fastforce
qed

end
