(* ===== verification/Method_Thread.thy ===== *)
theory Method_Thread
  imports Prelude "HOL-Library.Multiset"
begin

text \<open>
  \<open>rpc/method_thread.h\<close> and \<open>ThrPool::addObjJob\<close> of \<open>rpc/thr_pool.h\<close>: the call of
  a method in another thread. The caller allocates a wrapper with the object, the method and the arguments
  and passes its address; the thread reads the wrapper, deletes it and makes the call. The templates for
  no, one, two and three arguments differ in the type of the arguments only, which is a parameter here.
  What the \<open>pthread\<close> functions return, the address that \<open>new\<close> gives, and whether the pool takes a
  job, are arguments.
\<close>

section \<open>The program\<close>

record ('c, 'm, 'a) wrapper =
  w_o :: 'c
  w_m :: 'm
  w_a :: 'a

text \<open>Where a thread or a job is: \<open>XXX::yyy\<close> called with an address; the wrapper read and deleted;
  the same for \<open>objfunc_wrapper::func\<close>, which makes the call before it deletes; at the end.\<close>

datatype ('c, 'm, 'a) thread =
    Started nat
  | Loaded "('c, 'm, 'a) wrapper"
  | Queued nat
  | Called nat
  | Finished

record ('c, 'm, 'a) process =
  heap :: "nat \<rightharpoonup> ('c, 'm, 'a) wrapper"
  threads :: "('c, 'm, 'a) thread list"
  calls :: "('c, 'm, 'a) wrapper list"

text \<open>The result is the number of the thread. The threads run detached or not in the same way.\<close>

definition method_thread_parent ::
  "int \<Rightarrow> int \<Rightarrow> nat \<Rightarrow> bool \<Rightarrow> ('c, 'm, 'a) process \<Rightarrow> (nat \<times> ('c, 'm, 'a) process) res" where
  "method_thread_parent err detach_err arg detach s =
     (if err \<noteq> 0 then Inl Exit_called
      else let th = length (threads s); s' = s\<lparr>threads := threads s @ [Started arg]\<rparr>
           in if detach \<and> detach_err \<noteq> 0 then Inl Assert_failed else Inr (th, s'))"

definition method_thread_child :: "int \<Rightarrow> int \<Rightarrow> unit res" where
  "method_thread_child state_err type_err =
     (if state_err \<noteq> 0 then Inl Assert_failed else if type_err \<noteq> 0 then Inl Assert_failed else Inr ())"

definition method_thread ::
  "int \<Rightarrow> int \<Rightarrow> nat \<Rightarrow> 'c \<Rightarrow> bool \<Rightarrow> 'm \<Rightarrow> 'a \<Rightarrow> ('c, 'm, 'a) process \<Rightarrow> (nat \<times> ('c, 'm, 'a) process) res" where
  "method_thread err detach_err x ob detach m a s =
     method_thread_parent err detach_err x detach (s\<lparr>heap := (heap s)(x \<mapsto> \<lparr>w_o = ob, w_m = m, w_a = a\<rparr>)\<rparr>)"

text \<open>The first part of \<open>yyy\<close>, until the wrapper is deleted; reading one that is not there is a fault.\<close>

definition yyy :: "nat \<Rightarrow> ('c, 'm, 'a) process \<Rightarrow> (('c, 'm, 'a) wrapper \<times> ('c, 'm, 'a) process) res" where
  "yyy x s = (case heap s x of None \<Rightarrow> Inl Out_of_bounds | Some w \<Rightarrow> Inr (w, s\<lparr>heap := (heap s)(x := None)\<rparr>))"

definition addObjJob :: "bool \<Rightarrow> nat \<Rightarrow> 'c \<Rightarrow> 'm \<Rightarrow> 'a \<Rightarrow> ('c, 'm, 'a) process \<Rightarrow> bool \<times> ('c, 'm, 'a) process" where
  "addObjJob taken x ob m a s =
     (let s' = s\<lparr>heap := (heap s)(x \<mapsto> \<lparr>w_o = ob, w_m = m, w_a = a\<rparr>)\<rparr>
      in (taken, if taken then s'\<lparr>threads := threads s' @ [Queued x]\<rparr> else s'))"

definition func_load :: "nat \<Rightarrow> ('c, 'm, 'a) process \<Rightarrow> ('c, 'm, 'a) wrapper res" where
  "func_load x s = (case heap s x of None \<Rightarrow> Inl Out_of_bounds | Some w \<Rightarrow> Inr w)"

definition func_delete :: "nat \<Rightarrow> ('c, 'm, 'a) process \<Rightarrow> ('c, 'm, 'a) process res" where
  "func_delete x s = (case heap s x of None \<Rightarrow> Inl Out_of_bounds | Some w \<Rightarrow> Inr (s\<lparr>heap := (heap s)(x := None)\<rparr>))"

section \<open>Runs\<close>

text \<open>The threads in any order. A run also records which calls were asked for and which wrappers belong to
  jobs that the pool did not take. The calls of the library succeed; \<open>new\<close> gives an address that is
  not in use.\<close>

record ('c, 'm, 'a) run =
  proc :: "('c, 'm, 'a) process"
  asked :: "('c, 'm, 'a) wrapper list"
  refused :: "nat set"

abbreviation move :: "nat \<Rightarrow> ('c, 'm, 'a) thread \<Rightarrow> ('c, 'm, 'a) process \<Rightarrow> ('c, 'm, 'a) process" where
  "move i t p \<equiv> p\<lparr>threads := (threads p)[i := t]\<rparr>"

inductive run_step :: "('c, 'm, 'a) run \<Rightarrow> ('c, 'm, 'a) run \<Rightarrow> bool" where
  start: "heap (proc s) x = None \<Longrightarrow> method_thread 0 0 x ob detach m a (proc s) = Inr (th, p) \<Longrightarrow>
    run_step s (s\<lparr>proc := p, asked := asked s @ [\<lparr>w_o = ob, w_m = m, w_a = a\<rparr>]\<rparr>)"
| load: "i < length (threads (proc s)) \<Longrightarrow> threads (proc s) ! i = Started x \<Longrightarrow> yyy x (proc s) = Inr (w, p) \<Longrightarrow>
    run_step s (s\<lparr>proc := move i (Loaded w) p\<rparr>)"
| call: "i < length (threads (proc s)) \<Longrightarrow> threads (proc s) ! i = Loaded w \<Longrightarrow> method_thread_child 0 0 = Inr () \<Longrightarrow>
    run_step s (s\<lparr>proc := (move i Finished (proc s))\<lparr>calls := calls (proc s) @ [w]\<rparr>\<rparr>)"
| add_job: "heap (proc s) x = None \<Longrightarrow> addObjJob True x ob m a (proc s) = (r, p) \<Longrightarrow>
    run_step s (s\<lparr>proc := p, asked := asked s @ [\<lparr>w_o = ob, w_m = m, w_a = a\<rparr>]\<rparr>)"
| refuse_job: "heap (proc s) x = None \<Longrightarrow> addObjJob False x ob m a (proc s) = (r, p) \<Longrightarrow>
    run_step s (s\<lparr>proc := p, refused := insert x (refused s)\<rparr>)"
| job_call: "i < length (threads (proc s)) \<Longrightarrow> threads (proc s) ! i = Queued x \<Longrightarrow> func_load x (proc s) = Inr w \<Longrightarrow>
    run_step s (s\<lparr>proc := (move i (Called x) (proc s))\<lparr>calls := calls (proc s) @ [w]\<rparr>\<rparr>)"
| job_end: "i < length (threads (proc s)) \<Longrightarrow> threads (proc s) ! i = Called x \<Longrightarrow> func_delete x (proc s) = Inr p \<Longrightarrow>
    run_step s (s\<lparr>proc := move i Finished p\<rparr>)"

inductive_cases run_stepE: "run_step s t"

definition run_init :: "('c, 'm, 'a) run" where
  "run_init = \<lparr>proc = \<lparr>heap = Map.empty, threads = [], calls = []\<rparr>, asked = [], refused = {}\<rparr>"

section \<open>The invariant\<close>

text \<open>The wrapper a thread has still to delete, and the calls it has still to make.\<close>

primrec addr :: "('c, 'm, 'a) thread \<Rightarrow> nat list" where
  "addr (Started x) = [x]"
| "addr (Loaded w) = []"
| "addr (Queued x) = [x]"
| "addr (Called x) = [x]"
| "addr Finished = []"

primrec todo :: "(nat \<rightharpoonup> ('c, 'm, 'a) wrapper) \<Rightarrow> ('c, 'm, 'a) thread \<Rightarrow> ('c, 'm, 'a) wrapper list" where
  "todo h (Started x) = [the (h x)]"
| "todo h (Loaded w) = [w]"
| "todo h (Queued x) = [the (h x)]"
| "todo h (Called x) = []"
| "todo h Finished = []"

abbreviation gather :: "('t \<Rightarrow> 'b list) \<Rightarrow> 't list \<Rightarrow> 'b list" where
  "gather f ts \<equiv> concat (map f ts)"

lemma gather_update:
  "i < length ts \<Longrightarrow> mset (gather f (ts[i := t])) + mset (f (ts ! i)) = mset (gather f ts) + mset (f t)"
proof (induction ts arbitrary: i)
  case (Cons u ts)
  then show ?case
    by (cases i) (auto simp: ac_simps)
qed simp

lemma todo_frame: "x \<notin> set (addr t) \<Longrightarrow> todo (h(x := v)) t = todo h t"
  by (cases t) auto

lemma gather_todo_frame: "x \<notin> set (gather addr ts) \<Longrightarrow> gather (todo (h(x := v))) ts = gather (todo h) ts"
  by (induction ts) (auto simp: todo_frame)

text \<open>Every allocated wrapper belongs to exactly one thread or to a refused job; what was asked for is what
  was called and what is still to be called.\<close>

definition run_inv :: "('c, 'm, 'a) run \<Rightarrow> bool" where
  "run_inv s \<longleftrightarrow> finite (dom (heap (proc s))) \<and> finite (refused s) \<and>
     mset (gather addr (threads (proc s))) + mset_set (refused s) = mset_set (dom (heap (proc s))) \<and>
     mset (asked s) = mset (calls (proc s)) + mset (gather (todo (heap (proc s))) (threads (proc s)))"

lemma run_inv_fresh:
  assumes "run_inv s" "heap (proc s) x = None"
  shows "x \<notin> set (gather addr (threads (proc s)))" "x \<notin> refused s"
proof -
  have "x \<notin># mset (gather addr (threads (proc s))) + mset_set (refused s)"
    using assms by (simp only: run_inv_def) (simp add: domIff)
  then show "x \<notin> set (gather addr (threads (proc s)))" "x \<notin> refused s"
    using assms(1) by (simp_all only: union_iff set_mset_mset) (simp_all add: run_inv_def)
qed

lemma run_inv_owned:
  assumes "run_inv s" "i < length (threads (proc s))" "x \<in> set (addr (threads (proc s) ! i))"
  obtains w where "heap (proc s) x = Some w"
proof -
  have "x \<in># mset (gather addr (threads (proc s))) + mset_set (refused s)"
    using assms(2,3) by (auto intro!: bexI [of _ "threads (proc s) ! i"])
  then have "x \<in> dom (heap (proc s))"
    using assms(1) by (simp only: run_inv_def) simp
  then show ?thesis
    using that by blast
qed

text \<open>A wrapper is added.\<close>

lemma run_inv_add:
  assumes inv: "run_inv s" and x: "heap (proc s) x = None" and t: "addr t = [x]" "todo ((heap (proc s))(x \<mapsto> w)) t = [w]"
  shows "run_inv (s\<lparr>proc := (proc s)\<lparr>heap := (heap (proc s))(x \<mapsto> w), threads := threads (proc s) @ [t]\<rparr>,
    asked := asked s @ [w]\<rparr>)"
  using inv t gather_todo_frame [OF run_inv_fresh(1) [OF inv x], of "heap (proc s)" "Some w"] x
  by (simp add: run_inv_def domIff ac_simps)

lemma run_inv_refuse:
  assumes inv: "run_inv s" and x: "heap (proc s) x = None"
  shows "run_inv (s\<lparr>proc := (proc s)\<lparr>heap := (heap (proc s))(x \<mapsto> w)\<rparr>, refused := insert x (refused s)\<rparr>)"
  using inv gather_todo_frame [OF run_inv_fresh(1) [OF inv x], of "heap (proc s)" "Some w"] x run_inv_fresh(2) [OF inv x]
  by (simp add: run_inv_def domIff)

text \<open>A wrapper is deleted by its thread.\<close>

lemma run_inv_delete:
  assumes inv: "run_inv s" and i: "i < length (threads (proc s))" "addr (threads (proc s) ! i) = [x]" "addr t = []"
    and t: "todo (heap (proc s)) t = todo (heap (proc s)) (threads (proc s) ! i)"
  shows "run_inv (s\<lparr>proc := move i t ((proc s)\<lparr>heap := (heap (proc s))(x := None)\<rparr>)\<rparr>)"
proof -
  let ?ts = "(threads (proc s))[i := t]" and ?h = "heap (proc s)"
  have x: "x \<in> dom ?h"
    using run_inv_owned [OF inv i(1), of x] i(2) by auto
  have "mset (gather addr ?ts) + {#x#} + mset_set (refused s) = mset_set (dom ?h)"
    using gather_update [OF i(1), of addr t] i(2,3) inv by (simp add: run_inv_def)
  moreover have "mset_set (dom ?h) = mset_set (dom ?h - {x}) + {#x#}"
    using x inv by (simp add: run_inv_def mset_set.remove)
  ultimately have own: "mset (gather addr ?ts) + mset_set (refused s) = mset_set (dom ?h - {x})"
    by simp
  have "x \<notin># mset (gather addr ?ts) + mset_set (refused s)"
    using inv unfolding own by (simp add: run_inv_def)
  then have "x \<notin> set (gather addr ?ts)"
    unfolding union_iff set_mset_mset by blast
  then have "gather (todo (?h(x := None))) ?ts = gather (todo ?h) ?ts"
    by (rule gather_todo_frame)
  moreover have "mset (gather (todo ?h) ?ts) = mset (gather (todo ?h) (threads (proc s)))"
    using gather_update [OF i(1), of "todo ?h" t] t by simp
  ultimately show ?thesis
    using inv own by (simp add: run_inv_def)
qed

text \<open>A call is made.\<close>

lemma run_inv_call:
  assumes inv: "run_inv s" and i: "i < length (threads (proc s))" "addr t = addr (threads (proc s) ! i)"
    and t: "todo (heap (proc s)) (threads (proc s) ! i) = [w]" "todo (heap (proc s)) t = []"
  shows "run_inv (s\<lparr>proc := (move i t (proc s))\<lparr>calls := calls (proc s) @ [w]\<rparr>\<rparr>)"
  using inv gather_update [OF i(1), of addr t] gather_update [OF i(1), of "todo (heap (proc s))" t] i(2) t
  by (simp add: run_inv_def)

lemma run_inv_step: "run_step s t \<Longrightarrow> run_inv s \<Longrightarrow> run_inv t"
proof (induction rule: run_step.induct)
  case (start s x ob detach m a th p)
  then show ?case
    using run_inv_add [of s x "Started x"] by (auto simp: method_thread_def method_thread_parent_def Let_def)
next
  case (load i s x w p)
  then show ?case
    using run_inv_delete [of s i x "Loaded w"] by (auto simp: yyy_def split: option.splits)
next
  case (call i s w)
  then show ?case
    by (intro run_inv_call) simp_all
next
  case (add_job s x ob m a r p)
  then show ?case
    using run_inv_add [of s x "Queued x"] by (auto simp: addObjJob_def Let_def)
next
  case (refuse_job s x ob m a r p)
  then show ?case
    using run_inv_refuse [of s x] by (auto simp: addObjJob_def Let_def)
next
  case (job_call i s x w)
  then show ?case
    by (intro run_inv_call) (auto simp: func_load_def split: option.splits)
next
  case (job_end i s x p)
  then show ?case
    using run_inv_delete [of s i x Finished] by (auto simp: func_delete_def split: option.splits)
qed

lemma run_inv_reachable: "run_step\<^sup>*\<^sup>* run_init s \<Longrightarrow> run_inv s"
proof (induction rule: rtranclp_induct)
  case base
  show ?case
    by (simp add: run_init_def run_inv_def)
qed (rule run_inv_step)

lemma run_progress:
  assumes inv: "run_inv s" and i: "i < length (threads (proc s))" "threads (proc s) ! i \<noteq> Finished"
  shows "\<exists>t. run_step s t \<and> threads (proc t) ! i \<noteq> threads (proc s) ! i"
proof -
  have owned: "\<exists>w. heap (proc s) x = Some w" if "addr (threads (proc s) ! i) = [x]" for x
    using run_inv_owned [OF inv i(1), of x] that by auto
  show ?thesis
  proof (cases "threads (proc s) ! i")
    case (Started x)
    then obtain w where "yyy x (proc s) = Inr (w, (proc s)\<lparr>heap := (heap (proc s))(x := None)\<rparr>)"
      using owned by (auto simp: yyy_def)
    from run_step.load [OF i(1) Started this] show ?thesis
      using Started i(1) by force
  next
    case (Loaded w)
    from run_step.call [OF i(1) Loaded] show ?thesis
      using Loaded i(1) by (force simp: method_thread_child_def)
  next
    case (Queued x)
    then obtain w where "func_load x (proc s) = Inr w"
      using owned by (auto simp: func_load_def)
    from run_step.job_call [OF i(1) Queued this] show ?thesis
      using Queued i(1) by force
  next
    case (Called x)
    then have "func_delete x (proc s) = Inr ((proc s)\<lparr>heap := (heap (proc s))(x := None)\<rparr>)"
      using owned by (auto simp: func_delete_def)
    from run_step.job_end [OF i(1) Called this] show ?thesis
      using Called i(1) by force
  qed (use i(2) in simp)
qed

section \<open>Properties\<close>

text \<open>C35. Every call that was asked for is made once, with its object, method and arguments: at any
  time the calls made are among the calls asked for, every thread that is not at its end can go on, so
  no thread reads or deletes a wrapper that is not there, and when all are at their end exactly the calls asked for
  have been made. Then every wrapper has been deleted, once, but for those of jobs that the pool did not
  take: they are never deleted.\<close>

theorem calls_made_once:
  assumes "run_step\<^sup>*\<^sup>* run_init s"
  shows "mset (calls (proc s)) \<subseteq># mset (asked s) \<and>
    (\<forall>i<length (threads (proc s)). threads (proc s) ! i \<noteq> Finished \<longrightarrow>
      (\<exists>t. run_step s t \<and> threads (proc t) ! i \<noteq> threads (proc s) ! i)) \<and>
    ((\<forall>t\<in>set (threads (proc s)). t = Finished) \<longrightarrow>
      mset (calls (proc s)) = mset (asked s) \<and> dom (heap (proc s)) = refused s)"
proof (intro conjI impI allI)
  note inv = run_inv_reachable [OF assms]
  show "mset (calls (proc s)) \<subseteq># mset (asked s)"
    using inv by (simp add: run_inv_def)
  show "\<exists>t. run_step s t \<and> threads (proc t) ! i \<noteq> threads (proc s) ! i"
    if "i < length (threads (proc s))" "threads (proc s) ! i \<noteq> Finished" for i
    using that by (rule run_progress [OF inv])
  assume "\<forall>t\<in>set (threads (proc s)). t = Finished"
  then have "gather addr (threads (proc s)) = []" "gather (todo (heap (proc s))) (threads (proc s)) = []"
    by (auto simp: concat_eq_Nil_conv)
  note empty = this
  have "finite (dom (heap (proc s)))" "finite (refused s)" "mset_set (refused s) = mset_set (dom (heap (proc s)))"
    and "mset (asked s) = mset (calls (proc s))"
    using inv unfolding run_inv_def empty by (simp_all only: mset.simps add_0 add_0_right)
  then show "mset (calls (proc s)) = mset (asked s)" "dom (heap (proc s)) = refused s"
    by (simp_all add: mset_set_eq_iff)
qed

text \<open>A thread that runs to its end, and a job that the pool does not take.\<close>

lemma sample_calls:
  "run_step\<^sup>*\<^sup>* run_init \<lparr>proc = \<lparr>heap = [9 \<mapsto> \<lparr>w_o = 2, w_m = 3, w_a = 4\<rparr>], threads = [Finished],
     calls = [\<lparr>w_o = 5 :: nat, w_m = 2 :: nat, w_a = 3 :: nat\<rparr>]\<rparr>, asked = [\<lparr>w_o = 5, w_m = 2, w_a = 3\<rparr>], refused = {9}\<rparr>"
proof -
  let ?w = "\<lparr>w_o = 5 :: nat, w_m = 2 :: nat, w_a = 3 :: nat\<rparr>"
  have "run_step run_init \<lparr>proc = \<lparr>heap = [8 \<mapsto> ?w], threads = [Started 8], calls = []\<rparr>, asked = [?w], refused = {}\<rparr>"
    using run_step.start [of run_init 8 "5 :: nat" True "2 :: nat" "3 :: nat"]
    by (simp add: run_init_def method_thread_def method_thread_parent_def)
  moreover have "run_step \<dots> \<lparr>proc = \<lparr>heap = Map.empty, threads = [Loaded ?w], calls = []\<rparr>, asked = [?w], refused = {}\<rparr>"
    using run_step.load [of 0 "\<lparr>proc = \<lparr>heap = [8 \<mapsto> ?w], threads = [Started 8], calls = []\<rparr>, asked = [?w], refused = {}\<rparr>" 8 ?w]
    by (simp add: yyy_def)
  moreover have "run_step \<dots> \<lparr>proc = \<lparr>heap = Map.empty, threads = [Finished], calls = [?w]\<rparr>, asked = [?w], refused = {}\<rparr>"
    using run_step.call [of 0 "\<lparr>proc = \<lparr>heap = Map.empty, threads = [Loaded ?w], calls = []\<rparr>, asked = [?w], refused = {}\<rparr>" ?w]
    by (simp add: method_thread_child_def)
  moreover have "run_step \<dots> \<lparr>proc = \<lparr>heap = [9 \<mapsto> \<lparr>w_o = 2, w_m = 3, w_a = 4\<rparr>], threads = [Finished],
     calls = [?w]\<rparr>, asked = [?w], refused = {9}\<rparr>"
    using run_step.refuse_job [of "\<lparr>proc = \<lparr>heap = Map.empty, threads = [Finished], calls = [?w]\<rparr>, asked = [?w], refused = {}\<rparr>" 9 2 3 4 False]
    by (simp add: addObjJob_def)
  ultimately show ?thesis
    by (meson converse_rtranclp_into_rtranclp rtranclp.rtrancl_refl)
qed

theorem calls_made_once_witness:
  "\<exists>s. run_step\<^sup>*\<^sup>* run_init s \<and> calls (proc s) = [\<lparr>w_o = 5 :: nat, w_m = 2 :: nat, w_a = 3 :: nat\<rparr>] \<and> refused s = {9} \<and>
     mset (calls (proc s)) = mset (asked s) \<and> dom (heap (proc s)) = refused s"
  using sample_calls calls_made_once [OF sample_calls] by fastforce

end
