(* ===== verification/Marshal.thy ===== *)
theory Marshal
  imports Prelude "HOL-Library.RBT"
begin

text \<open>
  The message buffers of \<open>rpc/marshall.h\<close>: the classes \<open>marshall\<close> and
  \<open>unmarshall\<close> with the headers of requests and replies, and the templates for vectors and
  maps. The operators for the basic types (and \<open>pack\<close>, \<open>unpack\<close>) are only declared in
  the header, their code is in a binary library: they are arguments here, and what is relied on is
  that reading gives back what was written at the same position (\<open>puts\<close>, \<open>gets\<close>,
  \<open>packs\<close>). \<open>RPC_CHECKSUMMING\<close> is not defined in the build.
\<close>

section \<open>Buffers\<close>

record req_header =
  rq_xid :: u32
  rq_proc :: u32
  rq_clt_nonce :: u32
  rq_srv_nonce :: u32
  rq_xid_rep :: u32

record reply_header =
  rp_xid :: u32
  rp_ret :: u32

abbreviation DEFAULT_RPC_SZ :: nat where "DEFAULT_RPC_SZ \<equiv> 1024"

text \<open>The templates of \<open>lang/algorithm.h\<close>, evaluated by the compiler.\<close>

definition static_max :: "int \<Rightarrow> int \<Rightarrow> int" where
  "static_max a b = (if a > b then a else b)"

definition static_min :: "int \<Rightarrow> int \<Rightarrow> int" where
  "static_min a b = (if a < b then a else b)"

text \<open>The larger of the two headers, five integers, behind the size of the message.\<close>

definition RPC_HEADER_SZ :: nat where
  "RPC_HEADER_SZ = nat (static_max (5 * 4) (2 * 4)) + 4"

text \<open>The capacity is the length of the buffer; fresh memory has any content.\<close>

record marshall =
  m_buf :: "byte list"
  m_ind :: nat

definition marshall_init :: "(nat \<Rightarrow> byte) \<Rightarrow> marshall" where
  "marshall_init heap = \<lparr>m_buf = map heap [0..<DEFAULT_RPC_SZ], m_ind = RPC_HEADER_SZ\<rparr>"

definition get_content :: "marshall \<Rightarrow> byte list" where
  "get_content m = take (m_ind m - RPC_HEADER_SZ) (drop RPC_HEADER_SZ (m_buf m))"

definition pack_req_header :: "(u32 \<Rightarrow> marshall \<Rightarrow> marshall) \<Rightarrow> req_header \<Rightarrow> marshall \<Rightarrow> marshall" where
  "pack_req_header pack h m =
     (let saved_sz = m_ind m;
          m = m\<lparr>m_ind := 4\<rparr>;
          m = pack (rq_xid h) m;
          m = pack (rq_proc h) m;
          m = pack (rq_clt_nonce h) m;
          m = pack (rq_srv_nonce h) m;
          m = pack (rq_xid_rep h) m
      in m\<lparr>m_ind := saved_sz\<rparr>)"

definition pack_reply_header :: "(u32 \<Rightarrow> marshall \<Rightarrow> marshall) \<Rightarrow> reply_header \<Rightarrow> marshall \<Rightarrow> marshall" where
  "pack_reply_header pack h m =
     (let saved_sz = m_ind m;
          m = m\<lparr>m_ind := 4\<rparr>;
          m = pack (rp_xid h) m;
          m = pack (rp_ret h) m
      in m\<lparr>m_ind := saved_sz\<rparr>)"

text \<open>\<open>take_buf\<close> hands the buffer and its used size over and leaves none.\<close>

definition take_buf :: "marshall \<Rightarrow> (byte list \<times> nat) \<times> marshall" where
  "take_buf m = ((m_buf m, m_ind m), \<lparr>m_buf = [], m_ind = 0\<rparr>)"

record unmarshall =
  u_buf :: "byte list"
  u_sz :: nat
  u_ind :: nat
  u_ok :: bool

definition unmarshall_init :: unmarshall where
  "unmarshall_init = \<lparr>u_buf = [], u_sz = 0, u_ind = 0, u_ok = False\<rparr>"

definition unmarshall_of :: "byte list \<Rightarrow> nat \<Rightarrow> unmarshall" where
  "unmarshall_of b sz = \<lparr>u_buf = b, u_sz = sz, u_ind = 0, u_ok = True\<rparr>"

text \<open>\<open>realloc\<close> keeps what fits of the old bytes; the bytes of the header stay as they are
  in memory.\<close>

definition take_content :: "(nat \<Rightarrow> byte) \<Rightarrow> byte list \<Rightarrow> unmarshall \<Rightarrow> unmarshall" where
  "take_content heap s u =
     (let sz = length s + RPC_HEADER_SZ;
          b = map (\<lambda>i. if i < length (u_buf u) then u_buf u ! i else heap i) [0..<sz]
      in u\<lparr>u_sz := sz, u_buf := take RPC_HEADER_SZ b @ s, u_ind := RPC_HEADER_SZ, u_ok := True\<rparr>)"

text \<open>The constructor from a string.\<close>

definition unmarshall_string :: "(nat \<Rightarrow> byte) \<Rightarrow> byte list \<Rightarrow> unmarshall" where
  "unmarshall_string heap s = take_content heap s unmarshall_init"

definition take_ubuf :: "unmarshall \<Rightarrow> (byte list \<times> nat) \<times> unmarshall" where
  "take_ubuf u = ((u_buf u, u_sz u), u\<lparr>u_sz := 0, u_ind := 0, u_buf := []\<rparr>)"

definition unpack_req_header ::
  "(unmarshall \<Rightarrow> u32 \<times> unmarshall) \<Rightarrow> unmarshall \<Rightarrow> req_header \<times> unmarshall" where
  "unpack_req_header unpack u =
     (let u = u\<lparr>u_ind := 4\<rparr>;
          (xid, u) = unpack u;
          (proc, u) = unpack u;
          (clt_nonce, u) = unpack u;
          (srv_nonce, u) = unpack u;
          (xid_rep, u) = unpack u
      in (\<lparr>rq_xid = xid, rq_proc = proc, rq_clt_nonce = clt_nonce, rq_srv_nonce = srv_nonce, rq_xid_rep = xid_rep\<rparr>,
          u\<lparr>u_ind := RPC_HEADER_SZ\<rparr>))"

definition unpack_reply_header ::
  "(unmarshall \<Rightarrow> u32 \<times> unmarshall) \<Rightarrow> unmarshall \<Rightarrow> reply_header \<times> unmarshall" where
  "unpack_reply_header unpack u =
     (let u = u\<lparr>u_ind := 4\<rparr>;
          (xid, u) = unpack u;
          (ret, u) = unpack u
      in (\<lparr>rp_xid = xid, rp_ret = ret\<rparr>, u\<lparr>u_ind := RPC_HEADER_SZ\<rparr>))"

section \<open>Vectors and maps\<close>

type_synonym 'a putter = "'a \<Rightarrow> marshall \<Rightarrow> marshall"
type_synonym 'a getter = "unmarshall \<Rightarrow> 'a \<times> unmarshall"

definition put_vector :: "u32 putter \<Rightarrow> 'a putter \<Rightarrow> 'a list putter" where
  "put_vector put_uint put v m = fold put v (put_uint (of_nat (length v)) m)"

fun get_loop :: "nat \<Rightarrow> 'a getter \<Rightarrow> 'a list \<Rightarrow> unmarshall \<Rightarrow> 'a list \<times> unmarshall" where
  "get_loop 0 get v u = (v, u)"
| "get_loop (Suc n) get v u = (let (z, u) = get u in get_loop n get (v @ [z]) u)"

text \<open>The elements are added behind those that the vector already has.\<close>

definition get_vector :: "u32 getter \<Rightarrow> 'a getter \<Rightarrow> 'a list \<Rightarrow> 'a list getter" where
  "get_vector get_uint get v u = (let (n, u) = get_uint u in get_loop (unat n) get v u)"

text \<open>A \<open>std::map\<close> is a red-black tree; its iterators go through the keys in order.\<close>

definition put_map :: "u32 putter \<Rightarrow> 'a putter \<Rightarrow> 'b putter \<Rightarrow> ('a :: linorder, 'b) rbt putter" where
  "put_map put_uint put_a put_b d m =
     fold (\<lambda>(a, b) m. put_b b (put_a a m)) (RBT.entries d) (put_uint (of_nat (length (RBT.entries d))) m)"

fun map_loop :: "nat \<Rightarrow> 'a getter \<Rightarrow> 'b getter \<Rightarrow> ('a :: linorder, 'b) rbt \<Rightarrow> unmarshall \<Rightarrow> ('a, 'b) rbt \<times> unmarshall" where
  "map_loop 0 get_a get_b d u = (d, u)"
| "map_loop (Suc n) get_a get_b d u =
     (let (a, u) = get_a u; (b, u) = get_b u in map_loop n get_a get_b (RBT.insert a b d) u)"

definition get_map :: "u32 getter \<Rightarrow> 'a getter \<Rightarrow> 'b getter \<Rightarrow> ('a :: linorder, 'b) rbt getter" where
  "get_map get_uint get_a get_b u = (let (n, u) = get_uint u in map_loop (unat n) get_a get_b RBT.empty u)"

section \<open>What is relied on\<close>

text \<open>\<open>pack\<close> overwrites four bytes at the position, without growing a buffer that has them.\<close>

definition packs :: "(u32 \<Rightarrow> byte list) \<Rightarrow> (u32 \<Rightarrow> marshall \<Rightarrow> marshall) \<Rightarrow> bool" where
  "packs enc pack \<longleftrightarrow> (\<forall>i m. length (enc i) = 4 \<and> (m_ind m + 4 \<le> length (m_buf m) \<longrightarrow>
     pack i m = \<lparr>m_buf = take (m_ind m) (m_buf m) @ enc i @ drop (m_ind m + 4) (m_buf m), m_ind = m_ind m + 4\<rparr>))"

text \<open>A writer appends the bytes of the value to what is written, growing the buffer as needed; a
  reader that finds these bytes at its position gives the value and moves behind them, for the values
  of which \<open>P\<close> holds.\<close>

definition valid :: "marshall \<Rightarrow> bool" where
  "valid m \<longleftrightarrow> m_ind m \<le> length (m_buf m)"

definition written :: "marshall \<Rightarrow> byte list" where
  "written m = take (m_ind m) (m_buf m)"

definition puts :: "('a \<Rightarrow> byte list) \<Rightarrow> 'a putter \<Rightarrow> bool" where
  "puts enc put \<longleftrightarrow> (\<forall>x m. valid m \<longrightarrow> valid (put x m) \<and> written (put x m) = written m @ enc x)"

definition rest :: "unmarshall \<Rightarrow> byte list" where
  "rest u = drop (u_ind u) (take (u_sz u) (u_buf u))"

definition gets :: "('a \<Rightarrow> bool) \<Rightarrow> ('a \<Rightarrow> byte list) \<Rightarrow> 'a getter \<Rightarrow> bool" where
  "gets P enc get \<longleftrightarrow> (\<forall>x u bs. P x \<and> u_ok u \<and> rest u = enc x @ bs \<longrightarrow>
     get u = (x, u\<lparr>u_ind := u_ind u + length (enc x)\<rparr>))"

lemma putsD: "puts enc put \<Longrightarrow> valid m \<Longrightarrow> valid (put x m)"
  "puts enc put \<Longrightarrow> valid m \<Longrightarrow> written (put x m) = written m @ enc x"
  by (simp_all add: puts_def)

text \<open>A message read up to some position: its state has to be no more than readable, with the given
  bytes left.\<close>

definition reads :: "unmarshall \<Rightarrow> byte list \<Rightarrow> bool" where
  "reads u bs \<longleftrightarrow> u_ok u \<and> rest u = bs"

lemma getsD:
  "gets P enc get \<Longrightarrow> P x \<Longrightarrow> u_ok u \<Longrightarrow> rest u = enc x @ bs \<Longrightarrow>
   get u = (x, u\<lparr>u_ind := u_ind u + length (enc x)\<rparr>)"
  by (simp add: gets_def)

lemma getsE:
  assumes "gets P enc get" "P x" "reads u (enc x @ bs)"
  obtains u' where "get u = (x, u')" "reads u' bs"
proof
  let ?u = "u\<lparr>u_ind := u_ind u + length (enc x)\<rparr>"
  show "get u = (x, ?u)"
    using assms by (simp add: gets_def reads_def)
  have "rest ?u = drop (length (enc x)) (rest u)"
    by (simp add: rest_def add.commute)
  then show "reads ?u bs"
    using assms(3) by (simp add: reads_def)
qed

section \<open>Headers\<close>

lemma RPC_HEADER_SZ_eq: "RPC_HEADER_SZ = 24"
  by (simp add: RPC_HEADER_SZ_def static_max_def)

text \<open>Four-byte fields written one after the other from the fifth byte on.\<close>

lemma pack_next:
  assumes "packs enc pack" "length pre = n" "4 \<le> length post"
  shows "pack i \<lparr>m_buf = pre @ post, m_ind = n\<rparr> = \<lparr>m_buf = pre @ enc i @ drop 4 post, m_ind = n + 4\<rparr>"
  using assms by (simp add: packs_def)

lemma pack_req_header_eq:
  assumes p: "packs enc pack" and len: "24 \<le> length b"
  shows "pack_req_header pack h \<lparr>m_buf = b, m_ind = n\<rparr> =
    \<lparr>m_buf = take 4 b @ enc (rq_xid h) @ enc (rq_proc h) @ enc (rq_clt_nonce h) @ enc (rq_srv_nonce h) @
       enc (rq_xid_rep h) @ drop 24 b, m_ind = n\<rparr>"
proof -
  have e: "length (enc i) = 4" for i
    using p by (simp add: packs_def)
  let ?a = "enc (rq_xid h)" and ?b = "enc (rq_proc h)" and ?c = "enc (rq_clt_nonce h)" and ?d = "enc (rq_srv_nonce h)"
  have steps:
    "pack (rq_xid h) \<lparr>m_buf = b, m_ind = 4\<rparr> = \<lparr>m_buf = take 4 b @ ?a @ drop 8 b, m_ind = 8\<rparr>"
    "pack (rq_proc h) \<lparr>m_buf = take 4 b @ ?a @ drop 8 b, m_ind = 8\<rparr> =
      \<lparr>m_buf = take 4 b @ ?a @ ?b @ drop 12 b, m_ind = 12\<rparr>"
    "pack (rq_clt_nonce h) \<lparr>m_buf = take 4 b @ ?a @ ?b @ drop 12 b, m_ind = 12\<rparr> =
      \<lparr>m_buf = take 4 b @ ?a @ ?b @ ?c @ drop 16 b, m_ind = 16\<rparr>"
    "pack (rq_srv_nonce h) \<lparr>m_buf = take 4 b @ ?a @ ?b @ ?c @ drop 16 b, m_ind = 16\<rparr> =
      \<lparr>m_buf = take 4 b @ ?a @ ?b @ ?c @ ?d @ drop 20 b, m_ind = 20\<rparr>"
    "pack (rq_xid_rep h) \<lparr>m_buf = take 4 b @ ?a @ ?b @ ?c @ ?d @ drop 20 b, m_ind = 20\<rparr> =
      \<lparr>m_buf = take 4 b @ ?a @ ?b @ ?c @ ?d @ enc (rq_xid_rep h) @ drop 24 b, m_ind = 24\<rparr>"
    using len pack_next [OF p, of "take 4 b" 4 "drop 4 b" "rq_xid h"]
      pack_next [OF p, of "take 4 b @ ?a" 8 "drop 8 b" "rq_proc h"]
      pack_next [OF p, of "take 4 b @ ?a @ ?b" 12 "drop 12 b" "rq_clt_nonce h"]
      pack_next [OF p, of "take 4 b @ ?a @ ?b @ ?c" 16 "drop 16 b" "rq_srv_nonce h"]
      pack_next [OF p, of "take 4 b @ ?a @ ?b @ ?c @ ?d" 20 "drop 20 b" "rq_xid_rep h"]
    by (simp_all add: e)
  then show ?thesis
    by (simp add: pack_req_header_def Let_def)
qed

lemma pack_reply_header_eq:
  assumes p: "packs enc pack" and len: "24 \<le> length b"
  shows "pack_reply_header pack h \<lparr>m_buf = b, m_ind = n\<rparr> =
    \<lparr>m_buf = take 4 b @ enc (rp_xid h) @ enc (rp_ret h) @ drop 12 b, m_ind = n\<rparr>"
proof -
  have e: "length (enc i) = 4" for i
    using p by (simp add: packs_def)
  have "pack (rp_xid h) \<lparr>m_buf = b, m_ind = 4\<rparr> = \<lparr>m_buf = take 4 b @ enc (rp_xid h) @ drop 8 b, m_ind = 8\<rparr>"
    "pack (rp_ret h) \<lparr>m_buf = take 4 b @ enc (rp_xid h) @ drop 8 b, m_ind = 8\<rparr> =
      \<lparr>m_buf = take 4 b @ enc (rp_xid h) @ enc (rp_ret h) @ drop 12 b, m_ind = 12\<rparr>"
    using len pack_next [OF p, of "take 4 b" 4 "drop 4 b" "rp_xid h"]
      pack_next [OF p, of "take 4 b @ enc (rp_xid h)" 8 "drop 8 b" "rp_ret h"]
    by (simp_all add: e)
  then show ?thesis
    by (simp add: pack_reply_header_def Let_def)
qed

text \<open>Reading a field out of the middle of a message moves the position only.\<close>

lemma unpack_next:
  assumes "gets (\<lambda>_. True) enc unpack" "length (enc i) = 4" "length pre = k" "k + 4 \<le> n"
  shows "unpack \<lparr>u_buf = pre @ enc i @ post, u_sz = n, u_ind = k, u_ok = True\<rparr> =
    (i, \<lparr>u_buf = pre @ enc i @ post, u_sz = n, u_ind = k + 4, u_ok = True\<rparr>)"
proof -
  let ?u = "\<lparr>u_buf = pre @ enc i @ post, u_sz = n, u_ind = k, u_ok = True\<rparr>"
  have "rest ?u = enc i @ take (n - k - 4) post"
    using assms by (simp add: rest_def)
  then show ?thesis
    using getsD [OF assms(1), where x = i and u = ?u] assms(2) by simp
qed

lemma unpack_req_header_eq:
  assumes g: "gets (\<lambda>_. True) enc unpack" and e: "\<And>i. length (enc i) = 4" and n: "24 \<le> n" "length t = 4"
    and b: "b = t @ enc (rq_xid h) @ enc (rq_proc h) @ enc (rq_clt_nonce h) @ enc (rq_srv_nonce h) @ enc (rq_xid_rep h) @ r"
  shows "unpack_req_header unpack (unmarshall_of b n) = (h, \<lparr>u_buf = b, u_sz = n, u_ind = 24, u_ok = True\<rparr>)"
proof -
  let ?a = "enc (rq_xid h)" and ?b = "enc (rq_proc h)" and ?c = "enc (rq_clt_nonce h)" and ?d = "enc (rq_srv_nonce h)"
    and ?u = "\<lambda>k. \<lparr>u_buf = b, u_sz = n, u_ind = k, u_ok = True\<rparr>"
  have steps: "unpack (?u 4) = (rq_xid h, ?u 8)" "unpack (?u 8) = (rq_proc h, ?u 12)"
    "unpack (?u 12) = (rq_clt_nonce h, ?u 16)" "unpack (?u 16) = (rq_srv_nonce h, ?u 20)"
    "unpack (?u 20) = (rq_xid_rep h, ?u 24)"
    using n unpack_next [OF g e, of t 4 n "rq_xid h" "?b @ ?c @ ?d @ enc (rq_xid_rep h) @ r"]
      unpack_next [OF g e, of "t @ ?a" 8 n "rq_proc h" "?c @ ?d @ enc (rq_xid_rep h) @ r"]
      unpack_next [OF g e, of "t @ ?a @ ?b" 12 n "rq_clt_nonce h" "?d @ enc (rq_xid_rep h) @ r"]
      unpack_next [OF g e, of "t @ ?a @ ?b @ ?c" 16 n "rq_srv_nonce h" "enc (rq_xid_rep h) @ r"]
      unpack_next [OF g e, of "t @ ?a @ ?b @ ?c @ ?d" 20 n "rq_xid_rep h" r]
    by (simp_all add: b e)
  then show ?thesis
    by (simp add: unpack_req_header_def unmarshall_of_def RPC_HEADER_SZ_eq Let_def)
qed

lemma unpack_reply_header_eq:
  assumes g: "gets (\<lambda>_. True) enc unpack" and e: "\<And>i. length (enc i) = 4" and n: "24 \<le> n" "length t = 4"
    and b: "b = t @ enc (rp_xid h) @ enc (rp_ret h) @ r"
  shows "unpack_reply_header unpack (unmarshall_of b n) = (h, \<lparr>u_buf = b, u_sz = n, u_ind = 24, u_ok = True\<rparr>)"
proof -
  let ?u = "\<lambda>k. \<lparr>u_buf = b, u_sz = n, u_ind = k, u_ok = True\<rparr>"
  have steps: "unpack (?u 4) = (rp_xid h, ?u 8)" "unpack (?u 8) = (rp_ret h, ?u 12)"
    using n unpack_next [OF g e, of t 4 n "rp_xid h" "enc (rp_ret h) @ r"]
      unpack_next [OF g e, of "t @ enc (rp_xid h)" 8 n "rp_ret h" r]
    by (simp_all add: b e)
  then show ?thesis
    by (simp add: unpack_reply_header_def unmarshall_of_def RPC_HEADER_SZ_eq Let_def)
qed

text \<open>C18. A message carries its header: what \<open>pack_req_header\<close> or \<open>pack_reply_header\<close>
  puts in front of a message is read back by the receiver, and the content behind the header and the
  size are those of the message, so that writing the header, which is done last, never touches the
  content.\<close>

theorem header_roundtrip:
  assumes p: "packs enc pack" and g: "gets (\<lambda>_. True) enc unpack"
    and m: "RPC_HEADER_SZ \<le> m_ind m" "valid m"
  shows "(case fst (take_buf (pack_req_header pack h m)) of (b, sz) \<Rightarrow>
      sz = m_ind m \<and> (case unpack_req_header unpack (unmarshall_of b sz) of (h', u) \<Rightarrow>
        h' = h \<and> reads u (get_content m))) \<and>
    (case fst (take_buf (pack_reply_header pack r m)) of (b, sz) \<Rightarrow>
      sz = m_ind m \<and> (case unpack_reply_header unpack (unmarshall_of b sz) of (r', u) \<Rightarrow>
        r' = r \<and> reads u (get_content m)))"
proof -
  obtain b n where bn: "m = \<lparr>m_buf = b, m_ind = n\<rparr>"
    by (cases m) simp
  have len: "24 \<le> n" "n \<le> length b"
    using m by (simp_all add: bn RPC_HEADER_SZ_eq valid_def)
  then have l: "24 \<le> length b"
    by simp
  have e: "length (enc i) = 4" for i
    using p by (simp add: packs_def)
  have "take (n - 24) (drop 24 b) = drop 24 (take n b)"
    by (simp add: take_drop len)
  then show ?thesis
    using len unpack_req_header_eq [OF g e, of n "take 4 b"] unpack_reply_header_eq [OF g e, of n "take 4 b"]
    by (simp add: bn take_buf_def pack_req_header_eq [OF p l] pack_reply_header_eq [OF p l] get_content_def
        RPC_HEADER_SZ_eq reads_def rest_def e drop_drop take_drop)
qed

section \<open>Sample operators\<close>

text \<open>Operators for the basic types that satisfy what is relied on: bytes are appended at the position, a
  number in little-endian order, a string behind its length.\<close>

definition sample_put :: "('a \<Rightarrow> byte list) \<Rightarrow> 'a putter" where
  "sample_put enc x m = \<lparr>m_buf = take (m_ind m) (m_buf m) @ enc x @ drop (m_ind m + length (enc x)) (m_buf m),
     m_ind = m_ind m + length (enc x)\<rparr>"

definition sample_get :: "nat \<Rightarrow> (byte list \<Rightarrow> 'a) \<Rightarrow> 'a getter" where
  "sample_get n dec u = (if n \<le> length (rest u) then (dec (take n (rest u)), u\<lparr>u_ind := u_ind u + n\<rparr>)
     else (dec [], u\<lparr>u_ok := False\<rparr>))"

definition sample_u32 :: "byte list \<Rightarrow> u32" where
  "sample_u32 bs = u32_at bs 0"

lemma sample_puts: "puts enc (sample_put enc)"
  by (simp add: puts_def sample_put_def valid_def written_def)

lemma sample_packs: "(\<And>i. length (enc i) = 4) \<Longrightarrow> packs enc (sample_put enc)"
  by (simp add: packs_def sample_put_def)

lemma sample_gets:
  assumes "\<And>x. P x \<Longrightarrow> length (enc x) = n \<and> dec (enc x) = x"
  shows "gets P enc (sample_get n dec)"
  using assms by (auto simp: gets_def sample_get_def)

lemma sample_u32_ok: "packs u32_bytes (sample_put u32_bytes)" "puts u32_bytes (sample_put u32_bytes)"
  "gets (\<lambda>_. True) u32_bytes (sample_get 4 sample_u32)"
  using u32_at_bytes [of "[]" 0 _ "[]"]
  by (auto intro: sample_packs sample_puts sample_gets simp: sample_u32_def)

theorem header_roundtrip_witness:
  "\<exists>u. unpack_req_header (sample_get 4 sample_u32) (unmarshall_of
      (m_buf (pack_req_header (sample_put u32_bytes) \<lparr>rq_xid = 7, rq_proc = 0x6001, rq_clt_nonce = 1,
         rq_srv_nonce = 2, rq_xid_rep = 6\<rparr> (marshall_init (\<lambda>_. NUL)))) 24) =
     (\<lparr>rq_xid = 7, rq_proc = 0x6001, rq_clt_nonce = 1, rq_srv_nonce = 2, rq_xid_rep = 6\<rparr>, u)"
proof -
  have "RPC_HEADER_SZ \<le> m_ind (marshall_init (\<lambda>_. NUL))" "valid (marshall_init (\<lambda>_. NUL))"
    "m_ind (marshall_init (\<lambda>_. NUL)) = 24"
    by (simp_all add: marshall_init_def valid_def RPC_HEADER_SZ_eq)
  then show ?thesis
    using header_roundtrip [OF sample_u32_ok(1,3), of "marshall_init (\<lambda>_. NUL)"
        "\<lparr>rq_xid = 7, rq_proc = 0x6001, rq_clt_nonce = 1, rq_srv_nonce = 2, rq_xid_rep = 6\<rparr>"
        "\<lparr>rp_xid = 7, rp_ret = 0\<rparr>"]
    by (auto simp: take_buf_def split: prod.splits)
qed

section \<open>Vectors and maps\<close>

definition enc_vector :: "(u32 \<Rightarrow> byte list) \<Rightarrow> ('a \<Rightarrow> byte list) \<Rightarrow> 'a list \<Rightarrow> byte list" where
  "enc_vector enc_uint enc v = enc_uint (of_nat (length v)) @ concat (map enc v)"

lemma puts_fold:
  assumes "puts enc put" "valid m"
  shows "valid (fold put v m) \<and> written (fold put v m) = written m @ concat (map enc v)"
  using assms(2) by (induction v arbitrary: m) (simp_all add: putsD [OF assms(1)])

lemma puts_vector:
  assumes "puts enc_uint put_uint" "puts enc put"
  shows "puts (enc_vector enc_uint enc) (put_vector put_uint put)"
  unfolding puts_def enc_vector_def put_vector_def
  using puts_fold [OF assms(2)] putsD [OF assms(1)] by simp

lemma get_loop_ok:
  assumes "gets P enc get" "\<forall>x\<in>set v. P x" "reads u (concat (map enc v) @ bs)"
  shows "\<exists>u'. get_loop (length v) get w u = (w @ v, u') \<and> reads u' bs"
  using assms(2,3)
proof (induction v arbitrary: w u)
  case (Cons x v)
  then obtain u1 where "get u = (x, u1)" "reads u1 (concat (map enc v) @ bs)"
    using getsE [OF assms(1), of x u "concat (map enc v) @ bs"] by auto
  then show ?case
    using Cons.IH [of u1 "w @ [x]"] Cons.prems(1) by simp
qed simp

lemma unat_of_nat32: "n < 2 ^ 32 \<Longrightarrow> unat (of_nat n :: u32) = n"
  by (simp add: unat_of_nat)

lemma map_loop_ok:
  assumes a: "gets P enc_a get_a" and b: "gets Q enc_b get_b"
    and "\<forall>(x, y)\<in>set kvs. P x \<and> Q y" "reads u (concat (map (\<lambda>(x, y). enc_a x @ enc_b y) kvs) @ bs)"
  shows "\<exists>u'. map_loop (length kvs) get_a get_b d u = (fold (\<lambda>(x, y). RBT.insert x y) kvs d, u') \<and> reads u' bs"
  using assms(3,4)
proof (induction kvs arbitrary: d u)
  case (Cons kv kvs)
  obtain x y where kv: "kv = (x, y)"
    by (cases kv)
  let ?r = "concat (map (\<lambda>(x, y). enc_a x @ enc_b y) kvs) @ bs"
  have "reads u (enc_a x @ (enc_b y @ ?r))" "P x" "Q y"
    using Cons.prems by (simp_all add: kv)
  then obtain u1 u2 where "get_a u = (x, u1)" "get_b u1 = (y, u2)" "reads u2 ?r"
    using getsE [OF a, of x u "enc_b y @ ?r"] getsE [OF b, of y _ ?r] by metis
  then show ?case
    using Cons.IH [of u2 "RBT.insert x y d"] Cons.prems(1) by (simp add: kv)
qed simp

lemma lookup_fold_insert:
  "RBT.lookup (fold (\<lambda>(x, y). RBT.insert x y) kvs d) = RBT.lookup d ++ map_of (rev kvs)"
  by (induction kvs arbitrary: d) (auto simp: fun_eq_iff map_add_def split: option.splits)

lemma lookup_fold_entries:
  "RBT.lookup (fold (\<lambda>(x, y). RBT.insert x y) (RBT.entries d) RBT.empty) = RBT.lookup d"
proof -
  have "distinct (map fst (RBT.entries d))"
    by (rule RBT.distinct_entries)
  then have "map_of (rev (RBT.entries d)) = map_of (RBT.entries d)"
    by (intro map_of_inject_set [THEN iffD2]) (simp_all add: rev_map flip: rev_map)
  then show ?thesis
    by (simp add: lookup_fold_insert RBT.map_of_entries)
qed

lemma puts_entries:
  assumes a: "puts enc_a put_a" and b: "puts enc_b put_b" and "valid m"
  shows "valid (fold (\<lambda>(x, y) m. put_b y (put_a x m)) kvs m) \<and>
    written (fold (\<lambda>(x, y) m. put_b y (put_a x m)) kvs m) = written m @ concat (map (\<lambda>(x, y). enc_a x @ enc_b y) kvs)"
  using assms(3) by (induction kvs arbitrary: m) (auto simp: putsD [OF a] putsD [OF b])

text \<open>C19. A vector or a map that is written and read back is the same: the vector is added behind what the
  target already holds, the map replaces it and finds the same value for every key; what is
  behind it in the message is left.\<close>

theorem container_roundtrip:
  assumes i: "puts enc_uint put_uint" "gets (\<lambda>_. True) enc_uint get_uint"
    and a: "puts enc_a put_a" "gets P enc_a get_a" and b: "puts enc_b put_b" "gets Q enc_b get_b"
    and v: "\<forall>x\<in>set v. P x" "length v < 2 ^ 32"
    and d: "\<forall>(x, y)\<in>set (RBT.entries d). P x \<and> Q y" "length (RBT.entries d) < 2 ^ 32"
    and m: "valid m"
  shows "(\<exists>s. written (put_vector put_uint put_a v m) = written m @ s \<and>
      (\<forall>u bs w. reads u (s @ bs) \<longrightarrow> (\<exists>u'. get_vector get_uint get_a w u = (w @ v, u') \<and> reads u' bs))) \<and>
    (\<exists>s. written (put_map put_uint put_a put_b d m) = written m @ s \<and>
      (\<forall>u bs. reads u (s @ bs) \<longrightarrow> (\<exists>d' u'. get_map get_uint get_a get_b u = (d', u') \<and>
         RBT.lookup d' = RBT.lookup d \<and> reads u' bs)))"
proof -
  let ?v = "enc_uint (of_nat (length v)) @ concat (map enc_a v)"
  let ?es = "RBT.entries d"
  let ?kvs = "concat (map (\<lambda>(x, y). enc_a x @ enc_b y) ?es)"
  let ?d = "enc_uint (of_nat (length ?es)) @ ?kvs"
  have "written (put_vector put_uint put_a v m) = written m @ ?v"
    using puts_vector [OF i(1) a(1)] m by (simp add: puts_def enc_vector_def)
  moreover have "\<exists>u'. get_vector get_uint get_a w u = (w @ v, u') \<and> reads u' bs" if r: "reads u (?v @ bs)" for u bs w
  proof -
    obtain u1 where "get_uint u = (of_nat (length v), u1)" "reads u1 (concat (map enc_a v) @ bs)"
      using getsE [OF i(2) TrueI, of u "of_nat (length v)" "concat (map enc_a v) @ bs"] r by auto
    then show ?thesis
      using get_loop_ok [OF a(2) v(1)] by (simp add: get_vector_def unat_of_nat32 [OF v(2)])
  qed
  moreover have "written (put_map put_uint put_a put_b d m) = written m @ ?d"
    using puts_entries [OF a(1) b(1) putsD(1) [OF i(1) m]] by (simp add: put_map_def putsD(2) [OF i(1) m])
  moreover have "\<exists>d' u'. get_map get_uint get_a get_b u = (d', u') \<and> RBT.lookup d' = RBT.lookup d \<and> reads u' bs"
    if r: "reads u (?d @ bs)" for u bs
  proof -
    obtain u1 where u1: "get_uint u = (of_nat (length ?es), u1)" "reads u1 (?kvs @ bs)"
      using getsE [OF i(2) TrueI, of u "of_nat (length ?es)" "?kvs @ bs"] r by auto
    obtain u' where "map_loop (length ?es) get_a get_b RBT.empty u1 =
        (fold (\<lambda>(x, y). RBT.insert x y) ?es RBT.empty, u')" "reads u' bs"
      using map_loop_ok [OF a(2) b(2) d(1) u1(2)] by blast
    then show ?thesis
      using u1(1) lookup_fold_entries [of d] by (auto simp: get_map_def unat_of_nat32 [OF d(2)])
  qed
  ultimately show ?thesis
    by blast
qed

theorem container_roundtrip_witness:
  "\<exists>s. written (put_vector (sample_put u32_bytes) (sample_put u32_bytes) [5, 6] (marshall_init (\<lambda>_. NUL)))
     = written (marshall_init (\<lambda>_. NUL)) @ s \<and>
   (\<forall>u bs. reads u (s @ bs) \<longrightarrow>
      (\<exists>u'. get_vector (sample_get 4 sample_u32) (sample_get 4 sample_u32) [] u = ([5, 6], u') \<and> reads u' bs))"
proof -
  have "valid (marshall_init (\<lambda>_. NUL))"
    by (simp add: marshall_init_def valid_def RPC_HEADER_SZ_eq)
  moreover have "RBT.entries (RBT.empty :: (u32, u32) rbt) = []"
    by (simp add: RBT.entries.rep_eq RBT.empty.rep_eq)
  ultimately obtain s where
    "written (put_vector (sample_put u32_bytes) (sample_put u32_bytes) [5, 6] (marshall_init (\<lambda>_. NUL)))
      = written (marshall_init (\<lambda>_. NUL)) @ s"
    "\<forall>u bs w. reads u (s @ bs) \<longrightarrow>
      (\<exists>u'. get_vector (sample_get 4 sample_u32) (sample_get 4 sample_u32) w u = (w @ [5, 6], u') \<and> reads u' bs)"
    using container_roundtrip [OF sample_u32_ok(2,3) sample_u32_ok(2,3) sample_u32_ok(2,3), of "[5, 6]" RBT.empty
        "marshall_init (\<lambda>_. NUL)", THEN conjunct1] by auto
  then show ?thesis
    by (metis append_Nil)
qed

end
