(* ===== verification/Rpc.thy ===== *)
theory Rpc
  imports Marshal Client_Props
begin

text \<open>
  Remote calls: the templates \<open>call\<close> and \<open>call_m\<close> of the client and \<open>reg\<close> of the
  server in \<open>rpc/rpc.h\<close>, the wire format of \<open>extent_protocol::attr\<close>, and the extent
  server as \<open>extent_smain.cc\<close> registers it. The transport below them, \<open>rpcc::call1\<close> and
  the dispatcher of \<open>rpcs\<close>, is in a binary library: \<open>call1\<close> is an argument, and
  \<open>delivers\<close> says what it does when no message is lost.
\<close>

section \<open>The wire format of attributes\<close>

definition put_attr :: "u32 putter \<Rightarrow> attr putter" where
  "put_attr put_uint a m =
     (let m = put_uint (a_type a) m;
          m = put_uint (a_atime a) m;
          m = put_uint (a_mtime a) m;
          m = put_uint (a_ctime a) m
      in put_uint (a_size a) m)"

definition get_attr_msg :: "u32 getter \<Rightarrow> attr getter" where
  "get_attr_msg get_uint u =
     (let (ty, u) = get_uint u;
          (at, u) = get_uint u;
          (mt, u) = get_uint u;
          (ct, u) = get_uint u;
          (sz, u) = get_uint u
      in (\<lparr>a_type = ty, a_atime = at, a_mtime = mt, a_ctime = ct, a_size = sz\<rparr>, u))"

definition enc_attr :: "(u32 \<Rightarrow> byte list) \<Rightarrow> attr \<Rightarrow> byte list" where
  "enc_attr enc a = enc (a_type a) @ enc (a_atime a) @ enc (a_mtime a) @ enc (a_ctime a) @ enc (a_size a)"

lemma puts_attr:
  assumes "puts enc put"
  shows "puts (enc_attr enc) (put_attr put)"
  using assms by (simp add: puts_def put_attr_def enc_attr_def Let_def)

lemma gets_attr:
  assumes "gets (\<lambda>_. True) enc get"
  shows "gets (\<lambda>_. True) (enc_attr enc) (get_attr_msg get)"
  unfolding gets_def
proof (intro allI impI)
  fix a u bs
  assume a: "True \<and> u_ok u \<and> rest u = enc_attr enc a @ bs"
  let ?v = "\<lambda>k. u\<lparr>u_ind := u_ind u + k\<rparr>"
  have step: "get (?v k) = (x, ?v (k + length (enc x))) \<and> rest (?v (k + length (enc x))) = r"
    if "rest (?v k) = enc x @ r" for k x r
  proof -
    have "rest (?v (k + length (enc x))) = drop (length (enc x)) (rest (?v k))"
      by (simp add: rest_def ac_simps)
    then show ?thesis
      using getsD [OF assms, where x = x and u = "?v k" and bs = r] that a by (simp add: add.assoc)
  qed
  have "?v 0 = u"
    by simp
  then have "rest (?v 0) = enc_attr enc a @ bs"
    using a by (simp only:)
  note r1 = step [OF this [unfolded enc_attr_def append_assoc]]
  note r2 = step [OF r1 [THEN conjunct2]]
  note r3 = step [OF r2 [THEN conjunct2]]
  note r4 = step [OF r3 [THEN conjunct2]]
  note r5 = step [OF r4 [THEN conjunct2]]
  show "get_attr_msg get u = (a, u\<lparr>u_ind := u_ind u + length (enc_attr enc a)\<rparr>)"
    using r1 r2 r3 r4 r5 by (simp add: get_attr_msg_def enc_attr_def Let_def add.assoc)
qed

section \<open>The client\<close>

abbreviation timeout_failure :: int where "timeout_failure \<equiv> - 1"
abbreviation unmarshal_args_failure :: int where "unmarshal_args_failure \<equiv> - 2"

text \<open>\<open>call1\<close> sends a request and fills the reply in; a negative result is a failure of the call
  itself and the reply is not looked at. A reply that does not have the expected form is a failed
  assertion.\<close>

type_synonym transport = "u32 \<Rightarrow> marshall \<Rightarrow> unmarshall \<Rightarrow> int \<Rightarrow> (int \<times> unmarshall) io"

definition call_m ::
  "transport \<Rightarrow> (unmarshall \<Rightarrow> bool) \<Rightarrow> 'r getter \<Rightarrow> u32 \<Rightarrow> marshall \<Rightarrow> 'r \<Rightarrow> int \<Rightarrow> (int \<times> 'r) io" where
  "call_m call1 okdone get_r proc req r to =
     io_bind (call1 proc req unmarshall_init to) (\<lambda>(intret, u).
       if intret < 0 then io_return (intret, r)
       else let (r, u) = get_r u
            in if \<not> okdone u then (\<lambda>im. Inl Assert_failed)
               else io_return (intret, r))"

type_synonym 'r call = "u32 \<Rightarrow> marshall \<Rightarrow> 'r \<Rightarrow> int \<Rightarrow> (int \<times> 'r) io"

definition rpcc_call0 :: "'r call \<Rightarrow> (nat \<Rightarrow> byte) \<Rightarrow> u32 \<Rightarrow> 'r \<Rightarrow> int \<Rightarrow> (int \<times> 'r) io" where
  "rpcc_call0 cm heap proc r to = cm proc (marshall_init heap) r to"

definition rpcc_call1 :: "'r call \<Rightarrow> (nat \<Rightarrow> byte) \<Rightarrow> 'a putter \<Rightarrow> u32 \<Rightarrow> 'a \<Rightarrow> 'r \<Rightarrow> int \<Rightarrow> (int \<times> 'r) io" where
  "rpcc_call1 cm heap pa proc a r to =
     (let m = marshall_init heap;
          m = pa a m
      in cm proc m r to)"

definition rpcc_call2 ::
  "'r call \<Rightarrow> (nat \<Rightarrow> byte) \<Rightarrow> 'a putter \<Rightarrow> 'b putter \<Rightarrow> u32 \<Rightarrow> 'a \<Rightarrow> 'b \<Rightarrow> 'r \<Rightarrow> int \<Rightarrow> (int \<times> 'r) io" where
  "rpcc_call2 cm heap pa pb proc a b r to =
     (let m = marshall_init heap;
          m = pa a m;
          m = pb b m
      in cm proc m r to)"

definition rpcc_call3 ::
  "'r call \<Rightarrow> (nat \<Rightarrow> byte) \<Rightarrow> 'a putter \<Rightarrow> 'b putter \<Rightarrow> 'c putter \<Rightarrow>
   u32 \<Rightarrow> 'a \<Rightarrow> 'b \<Rightarrow> 'c \<Rightarrow> 'r \<Rightarrow> int \<Rightarrow> (int \<times> 'r) io" where
  "rpcc_call3 cm heap pa pb pc proc a b c r to =
     (let m = marshall_init heap;
          m = pa a m;
          m = pb b m;
          m = pc c m
      in cm proc m r to)"

definition rpcc_call4 ::
  "'r call \<Rightarrow> (nat \<Rightarrow> byte) \<Rightarrow> 'a putter \<Rightarrow> 'b putter \<Rightarrow> 'c putter \<Rightarrow> 'd putter \<Rightarrow>
   u32 \<Rightarrow> 'a \<Rightarrow> 'b \<Rightarrow> 'c \<Rightarrow> 'd \<Rightarrow> 'r \<Rightarrow> int \<Rightarrow> (int \<times> 'r) io" where
  "rpcc_call4 cm heap pa pb pc pd proc a b c d r to =
     (let m = marshall_init heap;
          m = pa a m;
          m = pb b m;
          m = pc c m;
          m = pd d m
      in cm proc m r to)"

definition rpcc_call5 ::
  "'r call \<Rightarrow> (nat \<Rightarrow> byte) \<Rightarrow> 'a putter \<Rightarrow> 'b putter \<Rightarrow> 'c putter \<Rightarrow> 'd putter \<Rightarrow> 'e putter \<Rightarrow>
   u32 \<Rightarrow> 'a \<Rightarrow> 'b \<Rightarrow> 'c \<Rightarrow> 'd \<Rightarrow> 'e \<Rightarrow> 'r \<Rightarrow> int \<Rightarrow> (int \<times> 'r) io" where
  "rpcc_call5 cm heap pa pb pc pd pe proc a b c d e r to =
     (let m = marshall_init heap;
          m = pa a m;
          m = pb b m;
          m = pc c m;
          m = pd d m;
          m = pe e m
      in cm proc m r to)"

definition rpcc_call6 ::
  "'r call \<Rightarrow> (nat \<Rightarrow> byte) \<Rightarrow> 'a putter \<Rightarrow> 'b putter \<Rightarrow> 'c putter \<Rightarrow> 'd putter \<Rightarrow> 'e putter \<Rightarrow> 'f putter \<Rightarrow>
   u32 \<Rightarrow> 'a \<Rightarrow> 'b \<Rightarrow> 'c \<Rightarrow> 'd \<Rightarrow> 'e \<Rightarrow> 'f \<Rightarrow> 'r \<Rightarrow> int \<Rightarrow> (int \<times> 'r) io" where
  "rpcc_call6 cm heap pa pb pc pd pe pf proc a b c d e f r to =
     (let m = marshall_init heap;
          m = pa a m;
          m = pb b m;
          m = pc c m;
          m = pd d m;
          m = pe e m;
          m = pf f m
      in cm proc m r to)"

definition rpcc_call7 ::
  "'r call \<Rightarrow> (nat \<Rightarrow> byte) \<Rightarrow> 'a putter \<Rightarrow> 'b putter \<Rightarrow> 'c putter \<Rightarrow> 'd putter \<Rightarrow> 'e putter \<Rightarrow> 'f putter \<Rightarrow> 'g putter \<Rightarrow>
   u32 \<Rightarrow> 'a \<Rightarrow> 'b \<Rightarrow> 'c \<Rightarrow> 'd \<Rightarrow> 'e \<Rightarrow> 'f \<Rightarrow> 'g \<Rightarrow> 'r \<Rightarrow> int \<Rightarrow> (int \<times> 'r) io" where
  "rpcc_call7 cm heap pa pb pc pd pe pf pg proc a b c d e f g r to =
     (let m = marshall_init heap;
          m = pa a m;
          m = pb b m;
          m = pc c m;
          m = pd d m;
          m = pe e m;
          m = pf f m;
          m = pg g m
      in cm proc m r to)"

section \<open>The server\<close>

text \<open>The method \<open>fn\<close> of the handler that \<open>reg\<close> makes for a member function: arguments are
  read, in order, into variables; if the message does not end behind them the call fails and nothing is
  run. The result variable \<open>r\<close> is not initialised; the member function may leave it so.\<close>

type_synonym handler = "unmarshall \<Rightarrow> marshall \<Rightarrow> (int \<times> marshall) io"

definition handler_fn1 ::
  "(unmarshall \<Rightarrow> bool) \<Rightarrow> 'a getter \<Rightarrow> 'r putter \<Rightarrow> ('a \<Rightarrow> 'r \<Rightarrow> (int \<times> 'r) io) \<Rightarrow> 'r \<Rightarrow> handler" where
  "handler_fn1 okdone ga pr meth r args ret =
     (let (a, args) = ga args
      in if \<not> okdone args then io_return (unmarshal_args_failure, ret)
         else io_bind (meth a r) (\<lambda>(b, r). io_return (b, pr r ret)))"

definition handler_fn2 ::
  "(unmarshall \<Rightarrow> bool) \<Rightarrow> 'a getter \<Rightarrow> 'b getter \<Rightarrow> 'r putter \<Rightarrow>
   ('a \<Rightarrow> 'b \<Rightarrow> 'r \<Rightarrow> (int \<times> 'r) io) \<Rightarrow> 'r \<Rightarrow> handler" where
  "handler_fn2 okdone ga gb pr meth r args ret =
     (let (a, args) = ga args;
          (b, args) = gb args
      in if \<not> okdone args then io_return (unmarshal_args_failure, ret)
         else io_bind (meth a b r) (\<lambda>(b, r). io_return (b, pr r ret)))"

definition handler_fn3 ::
  "(unmarshall \<Rightarrow> bool) \<Rightarrow> 'a getter \<Rightarrow> 'b getter \<Rightarrow> 'c getter \<Rightarrow> 'r putter \<Rightarrow>
   ('a \<Rightarrow> 'b \<Rightarrow> 'c \<Rightarrow> 'r \<Rightarrow> (int \<times> 'r) io) \<Rightarrow> 'r \<Rightarrow> handler" where
  "handler_fn3 okdone ga gb gc pr meth r args ret =
     (let (a, args) = ga args;
          (b, args) = gb args;
          (c, args) = gc args
      in if \<not> okdone args then io_return (unmarshal_args_failure, ret)
         else io_bind (meth a b c r) (\<lambda>(b, r). io_return (b, pr r ret)))"

definition handler_fn4 ::
  "(unmarshall \<Rightarrow> bool) \<Rightarrow> 'a getter \<Rightarrow> 'b getter \<Rightarrow> 'c getter \<Rightarrow> 'd getter \<Rightarrow> 'r putter \<Rightarrow>
   ('a \<Rightarrow> 'b \<Rightarrow> 'c \<Rightarrow> 'd \<Rightarrow> 'r \<Rightarrow> (int \<times> 'r) io) \<Rightarrow> 'r \<Rightarrow> handler" where
  "handler_fn4 okdone ga gb gc gd pr meth r args ret =
     (let (a, args) = ga args;
          (b, args) = gb args;
          (c, args) = gc args;
          (d, args) = gd args
      in if \<not> okdone args then io_return (unmarshal_args_failure, ret)
         else io_bind (meth a b c d r) (\<lambda>(b, r). io_return (b, pr r ret)))"

definition handler_fn5 ::
  "(unmarshall \<Rightarrow> bool) \<Rightarrow> 'a getter \<Rightarrow> 'b getter \<Rightarrow> 'c getter \<Rightarrow> 'd getter \<Rightarrow> 'e getter \<Rightarrow> 'r putter \<Rightarrow>
   ('a \<Rightarrow> 'b \<Rightarrow> 'c \<Rightarrow> 'd \<Rightarrow> 'e \<Rightarrow> 'r \<Rightarrow> (int \<times> 'r) io) \<Rightarrow> 'r \<Rightarrow> handler" where
  "handler_fn5 okdone ga gb gc gd ge pr meth r args ret =
     (let (a, args) = ga args;
          (b, args) = gb args;
          (c, args) = gc args;
          (d, args) = gd args;
          (e, args) = ge args
      in if \<not> okdone args then io_return (unmarshal_args_failure, ret)
         else io_bind (meth a b c d e r) (\<lambda>(b, r). io_return (b, pr r ret)))"

definition handler_fn6 ::
  "(unmarshall \<Rightarrow> bool) \<Rightarrow> 'a getter \<Rightarrow> 'b getter \<Rightarrow> 'c getter \<Rightarrow> 'd getter \<Rightarrow> 'e getter \<Rightarrow> 'f getter \<Rightarrow> 'r putter \<Rightarrow>
   ('a \<Rightarrow> 'b \<Rightarrow> 'c \<Rightarrow> 'd \<Rightarrow> 'e \<Rightarrow> 'f \<Rightarrow> 'r \<Rightarrow> (int \<times> 'r) io) \<Rightarrow> 'r \<Rightarrow> handler" where
  "handler_fn6 okdone ga gb gc gd ge gf pr meth r args ret =
     (let (a, args) = ga args;
          (b, args) = gb args;
          (c, args) = gc args;
          (d, args) = gd args;
          (e, args) = ge args;
          (f, args) = gf args
      in if \<not> okdone args then io_return (unmarshal_args_failure, ret)
         else io_bind (meth a b c d e f r) (\<lambda>(b, r). io_return (b, pr r ret)))"

definition handler_fn7 ::
  "(unmarshall \<Rightarrow> bool) \<Rightarrow> 'a getter \<Rightarrow> 'b getter \<Rightarrow> 'c getter \<Rightarrow> 'd getter \<Rightarrow> 'e getter \<Rightarrow> 'f getter \<Rightarrow> 'g getter \<Rightarrow> 'r putter \<Rightarrow>
   ('a \<Rightarrow> 'b \<Rightarrow> 'c \<Rightarrow> 'd \<Rightarrow> 'e \<Rightarrow> 'f \<Rightarrow> 'g \<Rightarrow> 'r \<Rightarrow> (int \<times> 'r) io) \<Rightarrow> 'r \<Rightarrow> handler" where
  "handler_fn7 okdone ga gb gc gd ge gf gg pr meth r args ret =
     (let (a, args) = ga args;
          (b, args) = gb args;
          (c, args) = gc args;
          (d, args) = gd args;
          (e, args) = ge args;
          (f, args) = gf args;
          (g, args) = gg args
      in if \<not> okdone args then io_return (unmarshal_args_failure, ret)
         else io_bind (meth a b c d e f g r) (\<lambda>(b, r). io_return (b, pr r ret)))"

section \<open>The extent server\<close>

text \<open>The operators of the library for the types that occur, and its test for the end of a message.\<close>

record rpc_lib =
  put_uint :: "u32 putter"
  get_uint :: "u32 getter"
  put_int :: "u32 putter"
  get_int :: "u32 getter"
  put_ull :: "u64 putter"
  get_ull :: "u64 getter"
  put_string :: "byte list putter"
  get_string :: "byte list getter"
  okdone :: "unmarshall \<Rightarrow> bool"

primrec status_code :: "xxstatus \<Rightarrow> int" where
  "status_code OK = 0"
| "status_code RPCERR = 1"
| "status_code NOENT = 2"
| "status_code IOERR = 3"
| "status_code EXIST = 4"

text \<open>The member functions, with the result parameter that they set or leave.\<close>

definition srv_get :: "u64 \<Rightarrow> byte list \<Rightarrow> (int \<times> byte list) io" where
  "srv_get eid buf = io_bind (es_get eid) (\<lambda>(st, buf). io_return (status_code st, buf))"

definition srv_getattr :: "u64 \<Rightarrow> attr \<Rightarrow> (int \<times> attr) io" where
  "srv_getattr eid a = io_bind (es_getattr eid) (\<lambda>(st, a). io_return (status_code st, a))"

definition srv_put :: "u64 \<Rightarrow> byte list \<Rightarrow> u32 \<Rightarrow> (int \<times> u32) io" where
  "srv_put eid buf r = io_bind (es_put eid buf) (\<lambda>st. io_return (status_code st, r))"

definition srv_remove :: "u64 \<Rightarrow> u32 \<Rightarrow> (int \<times> u32) io" where
  "srv_remove eid r = io_bind (es_remove eid) (\<lambda>st. io_return (status_code st, r))"

abbreviation RPC_PUT :: u32 where "RPC_PUT \<equiv> 0x6001"
abbreviation RPC_GET :: u32 where "RPC_GET \<equiv> 0x6002"
abbreviation RPC_GETATTR :: u32 where "RPC_GETATTR \<equiv> 0x6003"
abbreviation RPC_REMOVE :: u32 where "RPC_REMOVE \<equiv> 0x6004"

text \<open>The registrations of \<open>main\<close>; \<open>a\<close> and \<open>r\<close> are the uninitialised results.\<close>

definition extent_smain :: "rpc_lib \<Rightarrow> attr \<Rightarrow> u32 \<Rightarrow> (u32 \<times> handler) list" where
  "extent_smain L a r =
     [(RPC_GET, handler_fn1 (okdone L) (get_ull L) (put_string L) srv_get []),
      (RPC_GETATTR, handler_fn1 (okdone L) (get_ull L) (put_attr (put_uint L)) srv_getattr a),
      (RPC_PUT, handler_fn2 (okdone L) (get_ull L) (get_string L) (put_int L) srv_put r),
      (RPC_REMOVE, handler_fn1 (okdone L) (get_ull L) (put_int L) srv_remove r)]"

section \<open>What is relied on\<close>

definition lib_ok ::
  "(u32 \<Rightarrow> byte list) \<Rightarrow> (u64 \<Rightarrow> byte list) \<Rightarrow> (byte list \<Rightarrow> byte list) \<Rightarrow> rpc_lib \<Rightarrow> bool" where
  "lib_ok e4 e8 es L \<longleftrightarrow>
     puts e4 (put_uint L) \<and> gets (\<lambda>_. True) e4 (get_uint L) \<and>
     puts e4 (put_int L) \<and> gets (\<lambda>_. True) e4 (get_int L) \<and>
     puts e8 (put_ull L) \<and> gets (\<lambda>_. True) e8 (get_ull L) \<and>
     puts es (put_string L) \<and> gets (\<lambda>s. length s < 2 ^ 31) es (get_string L) \<and>
     (\<forall>u bs. reads u bs \<longrightarrow> okdone L u = (bs = []))"

text \<open>A call that is not lost: the handler of the number runs once on the content of the request, and
  its result and the content of its reply come back.\<close>

definition delivers :: "transport \<Rightarrow> (u32 \<times> handler) list \<Rightarrow> (nat \<Rightarrow> byte) \<Rightarrow> bool" where
  "delivers call1 regs heap \<longleftrightarrow> (\<forall>proc h req u to. map_of regs proc = Some h \<longrightarrow>
     call1 proc req u to =
       io_bind (h (unmarshall_string heap (get_content req)) (marshall_init heap))
         (\<lambda>(b, ret). io_return (b, unmarshall_string heap (get_content ret))))"

lemma reads_unmarshall_string: "reads (unmarshall_string heap s) s"
  by (simp add: reads_def rest_def unmarshall_string_def take_content_def unmarshall_init_def Let_def RPC_HEADER_SZ_eq min_def)

lemma marshall_init_simps:
  "valid (marshall_init heap)" "length (written (marshall_init heap)) = RPC_HEADER_SZ"
  by (simp_all add: marshall_init_def valid_def written_def RPC_HEADER_SZ_eq)

lemma get_content_written: "get_content m = drop RPC_HEADER_SZ (written m)"
  by (simp add: get_content_def written_def drop_take)

lemma content_put:
  assumes "puts enc put"
  shows "get_content (put x (marshall_init heap)) = enc x"
  using putsD [OF assms marshall_init_simps(1)] marshall_init_simps(2) [of heap] by (simp add: get_content_written)

lemma content_put2:
  assumes "puts ea pa" "puts eb pb"
  shows "get_content (pb b (pa a (marshall_init heap))) = ea a @ eb b"
  using putsD [OF assms(1) marshall_init_simps(1)] putsD [OF assms(2)] marshall_init_simps(2) [of heap]
  by (simp add: get_content_written)

section \<open>Calls are transparent\<close>

lemma io_bind_assoc: "io_bind (io_bind m f) g = io_bind m (\<lambda>x. io_bind (f x) g)"
  by (simp add: io_bind_def fun_eq_iff res_bind_def split: sum.splits prod.splits)

lemma io_bind_cong: "(\<And>x im'. m im = Inr (x, im') \<Longrightarrow> f x im' = g x im') \<Longrightarrow> io_bind m f im = io_bind m g im"
  by (auto simp: io_bind_def res_bind_def split: sum.splits prod.splits)

text \<open>What the client does with a reply that a handler wrote.\<close>

lemma call_m_reply:
  assumes cl: "call1 proc req unmarshall_init to =
      io_bind m (\<lambda>(b, r). io_return (b, unmarshall_string heap (get_content (pr r (marshall_init heap)))))"
    and r: "puts er pr" "gets R er gr" and fin: "\<forall>u bs. reads u bs \<longrightarrow> okd u = (bs = [])"
    and ok: "\<forall>b r im'. m im = Inr ((b, r), im') \<longrightarrow> 0 \<le> b \<and> R r"
  shows "call_m call1 okd gr proc req r0 to im = m im"
proof -
  let ?u = "\<lambda>r. unmarshall_string heap (get_content (pr r (marshall_init heap)))"
  have "reads (?u r) (er r @ [])" for r
    using reads_unmarshall_string [of heap] by (simp add: content_put [OF r(1)])
  then have "\<exists>u'. gr (?u r) = (r, u') \<and> okd u'" if "R r" for r
    using getsE [OF r(2) that] fin by blast
  then have "call_m call1 okd gr proc req r0 to im = io_bind m io_return im"
    unfolding call_m_def cl io_bind_assoc by (intro io_bind_cong) (use ok in fastforce)
  then show ?thesis
    by (simp add: io_bind_def io_return_def res_bind_def split: sum.splits)
qed

lemma bind_reply:
  "io_bind (io_bind m (\<lambda>(b, r). io_return (b, g r))) (\<lambda>(b, ret). io_return (b, f ret)) =
   io_bind m (\<lambda>(b, r). io_return (b, f (g r)))"
  by (auto simp: io_bind_def io_return_def fun_eq_iff res_bind_def split: sum.splits prod.splits)

lemma call1_transparent:
  assumes del: "delivers call1 regs heap" and reg: "map_of regs proc = Some (handler_fn1 okd ga pr meth r1)"
    and a: "puts ea pa" "gets (\<lambda>_. True) ea ga"
    and r: "puts er pr" "gets R er gr" and fin: "\<forall>u bs. reads u bs \<longrightarrow> okd u = (bs = [])"
    and ok: "\<forall>b r im'. meth a r1 im = Inr ((b, r), im') \<longrightarrow> 0 \<le> b \<and> R r"
  shows "rpcc_call1 (call_m call1 okd gr) heap pa proc a r0 to im = meth a r1 im"
proof -
  let ?req = "pa a (marshall_init heap)"
  let ?args = "unmarshall_string heap (get_content ?req)"
  have "reads ?args (ea a @ [])"
    using reads_unmarshall_string [of heap] by (simp add: content_put [OF a(1)])
  then obtain u where "ga ?args = (a, u)" "okd u"
    using getsE [OF a(2) TrueI] fin by blast
  then have "call1 proc ?req unmarshall_init to =
      io_bind (meth a r1) (\<lambda>(b, r). io_return (b, unmarshall_string heap (get_content (pr r (marshall_init heap)))))"
    using del reg by (simp add: delivers_def handler_fn1_def bind_reply)
  from call_m_reply [where ?call1.0 = call1 and pr = pr and okd = okd and R = R and im = im, OF this r fin ok] show ?thesis
    by (simp add: rpcc_call1_def)
qed

lemma call2_transparent:
  assumes del: "delivers call1 regs heap" and reg: "map_of regs proc = Some (handler_fn2 okd ga gb pr meth r1)"
    and a: "puts ea pa" "gets (\<lambda>_. True) ea ga" and b: "puts eb pb" "gets B eb gb" "B y"
    and r: "puts er pr" "gets R er gr" and fin: "\<forall>u bs. reads u bs \<longrightarrow> okd u = (bs = [])"
    and ok: "\<forall>b r im'. meth x y r1 im = Inr ((b, r), im') \<longrightarrow> 0 \<le> b \<and> R r"
  shows "rpcc_call2 (call_m call1 okd gr) heap pa pb proc x y r0 to im = meth x y r1 im"
proof -
  let ?req = "pb y (pa x (marshall_init heap))"
  let ?args = "unmarshall_string heap (get_content ?req)"
  have args: "reads ?args (ea x @ (eb y @ []))"
    using reads_unmarshall_string [of heap] by (simp add: content_put2 [OF a(1) b(1)])
  obtain u where u: "ga ?args = (x, u)" "reads u (eb y @ [])"
    using getsE [OF a(2) TrueI args] .
  then obtain v where "gb u = (y, v)" "okd v"
    using getsE [OF b(2,3) u(2)] fin by blast
  then have "call1 proc ?req unmarshall_init to =
      io_bind (meth x y r1) (\<lambda>(b, r). io_return (b, unmarshall_string heap (get_content (pr r (marshall_init heap)))))"
    using del reg u(1) by (simp add: delivers_def handler_fn2_def bind_reply)
  from call_m_reply [where ?call1.0 = call1 and pr = pr and okd = okd and R = R and im = im, OF this r fin ok] show ?thesis
    by (simp add: rpcc_call2_def)
qed

lemma status_code_nonneg: "0 \<le> status_code st"
  by (cases st) simp_all

text \<open>C17. The extent server behind the RPC layer is the extent server: when no message is lost, a remote
  \<open>get\<close>, \<open>getattr\<close>, \<open>put\<close> or \<open>remove\<close> has the effect, the result and the
  data of the local call, through both marshalled messages.\<close>

theorem remote_extent_transparent:
  assumes lib: "lib_ok e4 e8 es L" and del: "delivers call1 (extent_smain L a1 r1) heap"
    and inv: "fs_inv im" and buf: "length buf < 2 ^ 31"
  shows "rpcc_call1 (call_m call1 (okdone L) (get_string L)) heap (put_ull L) RPC_GET eid buf0 to im = srv_get eid [] im \<and>
    rpcc_call1 (call_m call1 (okdone L) (get_attr_msg (get_uint L))) heap (put_ull L) RPC_GETATTR eid a0 to im =
      srv_getattr eid a1 im \<and>
    rpcc_call2 (call_m call1 (okdone L) (get_int L)) heap (put_ull L) (put_string L) RPC_PUT eid buf r0 to im =
      srv_put eid buf r1 im \<and>
    rpcc_call1 (call_m call1 (okdone L) (get_int L)) heap (put_ull L) RPC_REMOVE eid r0 to im = srv_remove eid r1 im"
proof -
  note l = lib [unfolded lib_ok_def]
  have u: "puts e8 (put_ull L)" "gets (\<lambda>_. True) e8 (get_ull L)" and fin: "\<forall>u bs. reads u bs \<longrightarrow> okdone L u = (bs = [])"
    using l by blast+
  have str: "puts es (put_string L)" "gets (\<lambda>s. length s < 2 ^ 31) es (get_string L)"
    and int: "puts e4 (put_int L)" "gets (\<lambda>_. True) e4 (get_int L)"
    and attr: "puts (enc_attr e4) (put_attr (put_uint L))" "gets (\<lambda>_. True) (enc_attr e4) (get_attr_msg (get_uint L))"
    using l puts_attr gets_attr by blast+
  have size: "length c < 2 ^ 31" if "files im k = Some (t, c)" for k t c
    using files_size [OF inv that] by simp
  obtain im' where get: "es_get eid im =
      Inr ((OK, case files im (eid_inum eid) of None \<Rightarrow> [] | Some (t, c) \<Rightarrow> c), im')"
    using es_get_ok [OF inv] by blast
  have "0 \<le> b \<and> length c < 2 ^ 31" if "srv_get eid [] im = Inr ((b, c), im'')" for b c im''
    using that size get by (auto simp: srv_get_def split: option.splits)
  then have "rpcc_call1 (call_m call1 (okdone L) (get_string L)) heap (put_ull L) RPC_GET eid buf0 to im = srv_get eid [] im"
    by (intro call1_transparent [OF del _ u str fin]) (simp_all add: extent_smain_def)
  moreover have "rpcc_call1 (call_m call1 (okdone L) (get_attr_msg (get_uint L))) heap (put_ull L) RPC_GETATTR eid a0 to im =
      srv_getattr eid a1 im"
    by (intro call1_transparent [OF del _ u attr fin])
      (simp add: extent_smain_def, auto simp: srv_getattr_def io_bind_def io_return_def res_bind_eq_Inr status_code_nonneg)
  moreover have "rpcc_call2 (call_m call1 (okdone L) (get_int L)) heap (put_ull L) (put_string L) RPC_PUT eid buf r0 to im =
      srv_put eid buf r1 im"
    by (intro call2_transparent [OF del _ u str buf int fin])
      (simp add: extent_smain_def, auto simp: srv_put_def io_bind_def io_return_def res_bind_eq_Inr status_code_nonneg)
  moreover have "rpcc_call1 (call_m call1 (okdone L) (get_int L)) heap (put_ull L) RPC_REMOVE eid r0 to im = srv_remove eid r1 im"
    by (intro call1_transparent [OF del _ u int fin])
      (simp add: extent_smain_def, auto simp: srv_remove_def io_bind_def io_return_def res_bind_eq_Inr status_code_nonneg)
  ultimately show ?thesis
    by blast
qed

section \<open>A sample transport\<close>

definition sample_u64_bytes :: "u64 \<Rightarrow> byte list" where
  "sample_u64_bytes w = u32_bytes (ucast w) @ u32_bytes (ucast (drop_bit 32 w))"

definition sample_u64 :: "byte list \<Rightarrow> u64" where
  "sample_u64 bs = or (ucast (u32_at bs 0)) (push_bit 32 (ucast (u32_at bs 4)))"

definition sample_string_get :: "byte list getter" where
  "sample_string_get u = (let n = unat (u32_at (rest u) 0)
     in (take n (drop 4 (rest u)), u\<lparr>u_ind := u_ind u + 4 + n\<rparr>))"

definition sample_string_bytes :: "byte list \<Rightarrow> byte list" where
  "sample_string_bytes s = u32_bytes (of_nat (length s)) @ s"

definition sample_rpc_lib :: rpc_lib where
  "sample_rpc_lib =
     \<lparr>put_uint = sample_put u32_bytes, get_uint = sample_get 4 sample_u32,
      put_int = sample_put u32_bytes, get_int = sample_get 4 sample_u32,
      put_ull = sample_put sample_u64_bytes, get_ull = sample_get 8 sample_u64,
      put_string = sample_put sample_string_bytes, get_string = sample_string_get,
      okdone = (\<lambda>u. u_ok u \<and> rest u = [])\<rparr>"

lemma sample_u64_ok: "sample_u64 (sample_u64_bytes w) = w"
proof -
  have "u32_at (u32_bytes (ucast w) @ u32_bytes (ucast (drop_bit 32 w))) 4 = ucast (drop_bit 32 w)"
    using u32_at_bytes [of "u32_bytes (ucast w)" 4 "ucast (drop_bit 32 w)" "[]"] by simp
  moreover have "u32_at (u32_bytes (ucast w) @ u32_bytes (ucast (drop_bit 32 w))) 0 = ucast w"
    using u32_at_bytes [of "[]" 0 "ucast w"] by simp
  moreover have "or (ucast (ucast w :: u32)) (push_bit 32 (ucast (ucast (drop_bit 32 w) :: u32))) = w"
    by (rule bit_word_eqI) (auto simp: bit_simps)
  ultimately show ?thesis
    by (simp add: sample_u64_def sample_u64_bytes_def)
qed

lemma sample_lib_ok: "lib_ok u32_bytes sample_u64_bytes sample_string_bytes sample_rpc_lib"
proof -
  have "gets (\<lambda>_. True) sample_u64_bytes (sample_get 8 sample_u64)"
    by (intro sample_gets) (simp add: sample_u64_ok, simp add: sample_u64_bytes_def)
  moreover have "gets (\<lambda>s. length s < 2 ^ 31) sample_string_bytes sample_string_get"
    using u32_at_bytes [of "[]" 0]
    by (auto simp: gets_def sample_string_get_def sample_string_bytes_def unat_of_nat Let_def)
  ultimately show ?thesis
    using sample_u32_ok by (simp add: lib_ok_def sample_rpc_lib_def sample_puts reads_def)
qed

definition sample_transport :: "(u32 \<times> handler) list \<Rightarrow> transport" where
  "sample_transport regs proc req u to = (case map_of regs proc of
     None \<Rightarrow> io_return (timeout_failure, u)
   | Some h \<Rightarrow> io_bind (h (unmarshall_string (\<lambda>_. NUL) (get_content req)) (marshall_init (\<lambda>_. NUL)))
         (\<lambda>(b, ret). io_return (b, unmarshall_string (\<lambda>_. NUL) (get_content ret))))"

lemma sample_delivers: "delivers (sample_transport regs) regs (\<lambda>_. NUL)"
  by (auto simp: delivers_def sample_transport_def)

theorem remote_extent_transparent_witness:
  "\<exists>im'. rpcc_call2 (call_m (sample_transport (extent_smain sample_rpc_lib
        \<lparr>a_type = 0, a_atime = 0, a_mtime = 0, a_ctime = 0, a_size = 0\<rparr> 7)) (okdone sample_rpc_lib) (get_int sample_rpc_lib))
      (\<lambda>_. NUL) (put_ull sample_rpc_lib) (put_string sample_rpc_lib) RPC_PUT 1 ''hi'' 0 1000 (root_im sample_env)
    = Inr ((0, 7), im') \<and> files im' 1 = Some (1, ''hi'')"
proof -
  let ?a = "\<lparr>a_type = 0, a_atime = 0, a_mtime = 0, a_ctime = 0, a_size = 0\<rparr> :: attr"
  have "length ''hi'' < 2 ^ 31"
    by simp
  note remote = remote_extent_transparent [OF sample_lib_ok sample_delivers sample_root(1) this,
      THEN conjunct2, THEN conjunct2, THEN conjunct1]
  obtain im' where "ec_put 1 ''hi'' (root_im sample_env) = Inr (OK, im')" "files im' = [1 \<mapsto> (1, ''hi'')]"
    using es.put_ok [OF sample_root(1), of 1 1 "[]" "''hi''"]
    by (auto simp: sample_root cost_def total_def nblk_def)
  then have "srv_put 1 ''hi'' 7 (root_im sample_env) = Inr ((0, 7), im')" "files im' 1 = Some (1, ''hi'')"
    by (simp_all add: srv_put_def ec_es)
  then show ?thesis
    using remote [of ?a 7 1 0 1000] by auto
qed

end
