(* ===== verification/Extent_Main.thy ===== *)
theory Extent_Main
  imports Rpc
begin

text \<open>
  \<open>main\<close> of \<open>extent_smain.cc\<close>: the port and the number in \<open>RPC_COUNT\<close> are read,
  the extent server is constructed and its member functions are registered. Then the process sleeps for
  ever, and the library serves the calls.
\<close>

section \<open>The program\<close>

text \<open>\<open>atoi\<close>: white space, a sign and digits; the rest is not read, and a number that is not an
  \<open>int\<close> is undefined.\<close>

definition atoi :: "string \<Rightarrow> int res" where
  "atoi str =
     (let cs = dropWhile is_space str;
          neg = (cs \<noteq> [] \<and> hd cs = CHR ''-'');
          ds = takeWhile is_digit (if neg \<or> cs \<noteq> [] \<and> hd cs = CHR ''+'' then tl cs else cs);
          n = (if neg then - int (number ds) else int (number ds))
      in if - (2 ^ 31) \<le> n \<and> n < 2 ^ 31 then Inr n else Inl Signed_overflow)"

text \<open>The object \<open>rpcs server\<close>, as far as \<open>main\<close> sets it.\<close>

record rpcs =
  rpcs_port :: u32
  rpcs_counting :: int
  rpcs_procs :: "(u32 \<times> handler) list"

text \<open>The server and the state of the extent server when the process starts to sleep; \<open>count_env\<close> is the
  variable \<open>RPC_COUNT\<close> of the environment.\<close>

definition extent_main ::
  "rpc_lib \<Rightarrow> attr \<Rightarrow> u32 \<Rightarrow> u32 \<Rightarrow> env \<Rightarrow> string option \<Rightarrow> string list \<Rightarrow> (rpcs \<times> inode_manager) res" where
  "extent_main L a r junk e count_env argv =
     (if length argv \<noteq> 2 then Inl Exit_called
      else res_bind (case count_env of None \<Rightarrow> Inr 0 | Some str \<Rightarrow> atoi str) (\<lambda>count.
        res_bind (atoi (argv ! 1)) (\<lambda>port.
        res_bind (extent_server_init junk e) (\<lambda>ls.
          Inr (\<lparr>rpcs_port = word_of_int port, rpcs_counting = count, rpcs_procs = extent_smain L a r\<rparr>, ls)))))"

section \<open>What is started\<close>

lemma atoi_decimal: "n < 2 ^ 31 \<Longrightarrow> atoi (decimal n) = Inr (int n)"
proof -
  assume n: "n < 2 ^ 31"
  obtain c cs where c: "decimal n = c # cs"
    by (cases "decimal n") auto
  have digits: "\<forall>x\<in>set (c # cs). is_digit x"
    using decimal_digits [of _ n] c by auto
  then have first: "\<not> is_space c" "c \<noteq> CHR ''-''" "c \<noteq> CHR ''+''"
    and all: "takeWhile is_digit (c # cs) = c # cs"
    using digit_not_space [of c] by (simp_all add: takeWhile_eq_all_conv)
  have val: "number (c # cs) = n"
    using number_decimal [of n] by (simp add: c)
  show "atoi (decimal n) = Inr (int n)"
    using n by (simp add: atoi_def c Let_def first all val del: takeWhile.simps)
qed

text \<open>With a port in decimal and enough memory the process serves the four calls of the wire protocol, and no
  others (a file cannot be created by a remote call), on a file system that holds the empty root.\<close>

theorem extent_main_starts:
  assumes "length argv = 2" "argv ! 1 = decimal port" "port < 2 ^ 16"
    and "count_env = None \<or> (\<exists>n < 2 ^ 31. count_env = Some (decimal n))"
    and "extent_server_init junk e = Inr ls"
  shows "\<exists>server. extent_main L a r junk e count_env argv = Inr (server, ls) \<and>
    unat (rpcs_port server) = port \<and>
    dom (map_of (rpcs_procs server)) = {RPC_GET, RPC_GETATTR, RPC_PUT, RPC_REMOVE} \<and>
    fs_inv ls \<and> files ls = [1 \<mapsto> (1, [])]"
proof -
  have "ls = root_im e"
    using assms(5) by (auto simp: extent_server_init_def inode_manager_init_eq split: if_splits)
  then have "fs_inv ls" "files ls = [1 \<mapsto> (1, [])]"
    by (simp_all add: root_im_facts)
  moreover have "unat (word_of_int (int port) :: u32) = port"
    using assms(3) by (simp add: unsigned_of_nat take_bit_nat_eq_self)
  ultimately show ?thesis
    using assms(1-5) atoi_decimal by (auto simp: extent_main_def extent_smain_def)
qed

theorem extent_main_usage: "length argv \<noteq> 2 \<Longrightarrow> extent_main L a r junk e count_env argv = Inl Exit_called"
  by (simp add: extent_main_def)

end
