(* ===== verification/Tester.thy ===== *)
theory Tester
  imports Chfs_Client
begin

text \<open>
  The test program \<open>part1_tester.cc\<close>, test by test, over the extent client. A test takes the
  score so far and returns its error code (0 for success) and the new score. What \<open>rand()\<close>
  returns after the n-th call of \<open>srand\<close> is a stream of 31-bit numbers, and local arrays start
  with arbitrary values; the result holds for all of them. Messages on the console are left out, but
  for the score that \<open>main\<close> prints.
\<close>

section \<open>The program\<close>

abbreviation FILE_NUM :: nat where "FILE_NUM \<equiv> 50"
abbreviation LARGE_FILE_SIZE_MIN :: nat where "LARGE_FILE_SIZE_MIN \<equiv> 512 * 10"
abbreviation LARGE_FILE_SIZE_MAX :: nat where "LARGE_FILE_SIZE_MAX \<equiv> 512 * 200"

type_synonym rand = "nat \<Rightarrow> 31 word"

record tester_env =
  te_rand :: "nat \<Rightarrow> rand"
  te_contents :: "nat \<Rightarrow> int"
  te_id_list :: "nat \<Rightarrow> u64"

definition io_res :: "'a res \<Rightarrow> 'a io" where
  "io_res r = (\<lambda>im. res_bind r (\<lambda>x. Inr (x, im)))"

text \<open>\<open>std::string(buf)\<close>: the bytes before the first NUL.\<close>

definition c_string :: "byte list \<Rightarrow> byte list res" where
  "c_string buf = res_bind (strlen buf) (\<lambda>n. Inr (take n buf))"

text \<open>\<open>sprintf(buf, ''%d'', n)\<close>.\<close>

definition sprintf_d :: "byte list \<Rightarrow> int \<Rightarrow> byte list res" where
  "sprintf_d buf n =
     memcpy_at buf 0 ((if n < 0 then CHR ''-'' # decimal (nat (- n)) else decimal (nat n)) @ [NUL])"

subsection \<open>\<open>test_create_and_getattr\<close>\<close>

text \<open>The body of a turn; the two branches of the code differ in the type only. The argument
  \<open>rest\<close> is the rest of the loop.\<close>

definition create_one :: "u32 \<Rightarrow> nat io \<Rightarrow> nat io" where
  "create_one type rest = io_bind (ec_create type) (\<lambda>(_, eid).
     if (ucast eid :: u32) = 0 then io_return 1
     else io_bind (ec_getattr eid) (\<lambda>(ret, a).
       if ret \<noteq> OK then io_return 2
       else if a_type a \<noteq> type then io_return 3
       else rest))"

function create_loop :: "rand \<Rightarrow> nat \<Rightarrow> nat io" where
  "create_loop rnd i =
     (if i < FILE_NUM
      then let rnum = unat (rnd i) mod 10
           in if rnum < 3 then create_one T_DIR (create_loop rnd (i + 1))
              else create_one T_FILE (create_loop rnd (i + 1))
      else io_return 0)"
  by pat_completeness auto
termination
  by (relation "measure (\<lambda>(rnd, i). FILE_NUM - i)") auto

definition test_create_and_getattr :: "tester_env \<Rightarrow> nat \<Rightarrow> (nat \<times> nat) io" where
  "test_create_and_getattr te total_score =
     io_bind (create_loop (te_rand te 0) 0) (\<lambda>r.
       if r \<noteq> 0 then io_return (r, total_score) else io_return (0, total_score + 40))"

subsection \<open>\<open>test_put_and_get\<close>\<close>

text \<open>The cast of \<open>i + 2\<close> to an identifier.\<close>

definition id_of :: "nat \<Rightarrow> u64" where
  "id_of i = word_of_nat (i + 2)"

text \<open>The first loop; \<open>p\<close> is the number of calls of \<open>rand\<close> so far.\<close>

function put_loop :: "rand \<Rightarrow> nat \<Rightarrow> int list \<Rightarrow> nat \<Rightarrow> (nat \<times> int list) io" where
  "put_loop rnd p contents i =
     (if i < FILE_NUM
      then let eid = id_of i
           in io_bind (ec_getattr eid) (\<lambda>(ret, a).
              if ret \<noteq> OK then io_return (1, contents)
              else if a_type a = T_FILE
              then let rnum = int (unat (rnd p) mod 10000)
                   in io_bind (io_res (res_bind (sprintf_d (zeros 10) rnum) c_string)) (\<lambda>buf.
                      io_bind (ec_put eid buf) (\<lambda>ret.
                      if ret \<noteq> OK then io_return (2, contents)
                      else put_loop rnd (p + 1) (contents[i := rnum]) (i + 1)))
              else put_loop rnd p contents (i + 1))
      else io_return (0, contents))"
  by pat_completeness auto
termination
  by (relation "measure (\<lambda>(rnd, p, contents, i). FILE_NUM - i)") auto

function check_loop :: "int list \<Rightarrow> nat \<Rightarrow> nat io" where
  "check_loop contents i =
     (if i < FILE_NUM
      then let eid = id_of i
           in io_bind (ec_getattr eid) (\<lambda>(ret, a).
              if ret \<noteq> OK then io_return 3
              else if a_type a = T_FILE
              then io_bind (ec_get eid) (\<lambda>(ret, buf).
                   if ret \<noteq> OK then io_return 4
                   else io_bind (io_res (res_bind (sprintf_d (zeros 10) (contents ! i)) c_string)) (\<lambda>buf2.
                        if buf \<noteq> buf2 then io_return 5 else check_loop contents (i + 1)))
              else check_loop contents (i + 1))
      else io_return 0)"
  by pat_completeness auto
termination
  by (relation "measure (\<lambda>(contents, i). FILE_NUM - i)") auto

definition test_put_and_get :: "tester_env \<Rightarrow> nat \<Rightarrow> (nat \<times> nat) io" where
  "test_put_and_get te total_score =
     io_bind (put_loop (te_rand te 1) 0 (map (te_contents te) [0..<FILE_NUM]) 0) (\<lambda>(r, contents).
       if r \<noteq> 0 then io_return (r, total_score)
       else io_bind (check_loop contents 0) (\<lambda>r.
            if r \<noteq> 0 then io_return (r, total_score) else io_return (0, total_score + 30)))"

subsection \<open>\<open>test_remove\<close>\<close>

function remove_loop :: "nat \<Rightarrow> nat io" where
  "remove_loop i =
     (if i < FILE_NUM
      then let eid = id_of i
           in io_bind (ec_remove eid) (\<lambda>ret.
              if ret \<noteq> OK then io_return 1
              else io_bind (ec_getattr eid) (\<lambda>(_, a).
                   if a_type a \<noteq> 0 then io_return 2 else remove_loop (i + 1)))
      else io_return 0)"
  by pat_completeness auto
termination
  by (relation "measure (\<lambda>i. FILE_NUM - i)") auto

definition test_remove :: "nat \<Rightarrow> (nat \<times> nat) io" where
  "test_remove total_score =
     io_bind (remove_loop 0) (\<lambda>r.
       if r \<noteq> 0 then io_return (r, total_score) else io_return (0, total_score + 20))"

subsection \<open>\<open>test_indirect\<close>\<close>

function create_files :: "u64 list \<Rightarrow> nat \<Rightarrow> (nat \<times> u64 list) io" where
  "create_files id_list i =
     (if i < FILE_NUM
      then io_bind (ec_create T_FILE) (\<lambda>(ret, eid).
           if ret \<noteq> OK then io_return (1, id_list[i := eid])
           else create_files (id_list[i := eid]) (i + 1))
      else io_return (0, id_list))"
  by pat_completeness auto
termination
  by (relation "measure (\<lambda>(id_list, i). FILE_NUM - i)") auto

text \<open>\<open>sz\<close> random letters in \<open>temp\<close>.\<close>

function fill_loop :: "rand \<Rightarrow> nat \<Rightarrow> byte list \<Rightarrow> nat \<Rightarrow> nat \<Rightarrow> (byte list \<times> nat) res" where
  "fill_loop rnd p temp k sz =
     (if k < sz
      then let rnum = unat (rnd p) mod 26
           in res_bind (memcpy_at temp k [char_of (97 + rnum)]) (\<lambda>temp. fill_loop rnd (p + 1) temp (k + 1) sz)
      else Inr (temp, p))"
  by pat_completeness auto
termination
  by (relation "measure (\<lambda>(rnd, p, temp, k, sz). sz - k)") auto

function put_files :: "rand \<Rightarrow> nat \<Rightarrow> u64 list \<Rightarrow> byte list list \<Rightarrow> nat \<Rightarrow> (nat \<times> byte list list \<times> nat) io" where
  "put_files rnd p id_list contents i =
     (if i < FILE_NUM
      then let sz = unat (rnd p) mod (LARGE_FILE_SIZE_MAX - LARGE_FILE_SIZE_MIN) + LARGE_FILE_SIZE_MIN
           in io_bind (io_res (fill_loop rnd (p + 1) (zeros LARGE_FILE_SIZE_MAX) 0 sz)) (\<lambda>(temp, p).
              io_bind (io_res (c_string temp)) (\<lambda>s.
              io_bind (ec_put (id_list ! i) s) (\<lambda>ret.
              if ret \<noteq> OK then io_return (1, contents[i := s], p)
              else put_files rnd p id_list (contents[i := s]) (i + 1))))
      else io_return (0, contents, p))"
  by pat_completeness auto
termination
  by (relation "measure (\<lambda>(rnd, p, id_list, contents, i). FILE_NUM - i)") auto

function get_files :: "u64 list \<Rightarrow> byte list list \<Rightarrow> nat \<Rightarrow> nat io" where
  "get_files id_list contents i =
     (if i < FILE_NUM
      then io_bind (ec_get (id_list ! i)) (\<lambda>(ret, buf).
           if ret \<noteq> OK then io_return 2
           else if buf \<noteq> contents ! i then io_return 3
           else get_files id_list contents (i + 1))
      else io_return 0)"
  by pat_completeness auto
termination
  by (relation "measure (\<lambda>(id_list, contents, i). FILE_NUM - i)") auto

function rounds :: "rand \<Rightarrow> nat \<Rightarrow> u64 list \<Rightarrow> byte list list \<Rightarrow> nat \<Rightarrow> nat io" where
  "rounds rnd p id_list contents j =
     (if j < 10
      then io_bind (put_files rnd p id_list contents 0) (\<lambda>(r, contents, p).
           if r \<noteq> 0 then io_return r
           else io_bind (get_files id_list contents 0) (\<lambda>r.
                if r \<noteq> 0 then io_return r else rounds rnd p id_list contents (j + 1)))
      else io_return 0)"
  by pat_completeness auto
termination
  by (relation "measure (\<lambda>(rnd, p, id_list, contents, j). 10 - j)") auto

function remove_files :: "u64 list \<Rightarrow> nat \<Rightarrow> nat io" where
  "remove_files id_list i =
     (if i < FILE_NUM
      then io_bind (ec_remove (id_list ! i)) (\<lambda>ret.
           if ret \<noteq> OK then io_return 4 else remove_files id_list (i + 1))
      else io_return 0)"
  by pat_completeness auto
termination
  by (relation "measure (\<lambda>(id_list, i). FILE_NUM - i)") auto

definition test_indirect :: "tester_env \<Rightarrow> nat \<Rightarrow> (nat \<times> nat) io" where
  "test_indirect te total_score =
     io_bind (create_files (map (te_id_list te) [0..<FILE_NUM]) 0) (\<lambda>(r, id_list).
     if r \<noteq> 0 then io_return (r, total_score)
     else io_bind (rounds (te_rand te 2) 0 id_list (replicate FILE_NUM []) 0) (\<lambda>r.
     if r \<noteq> 0 then io_return (r, total_score)
     else io_bind (remove_files id_list 0) (\<lambda>r.
     if r \<noteq> 0 then io_return (r, total_score) else io_return (0, total_score + 10))))"

subsection \<open>\<open>main\<close>\<close>

text \<open>The score that is printed, after the first test that fails or after all of them.\<close>

definition run_tests :: "tester_env \<Rightarrow> nat io" where
  "run_tests te =
     io_bind (test_create_and_getattr te 0) (\<lambda>(r, total_score).
     if r \<noteq> 0 then io_return total_score
     else io_bind (test_put_and_get te total_score) (\<lambda>(r, total_score).
     if r \<noteq> 0 then io_return total_score
     else io_bind (test_remove total_score) (\<lambda>(r, total_score).
     if r \<noteq> 0 then io_return total_score
     else io_bind (test_indirect te total_score) (\<lambda>(r, total_score). io_return total_score))))"

text \<open>The exit status of \<open>main\<close> and the score it prints, if any.\<close>

definition tester_main :: "nat \<Rightarrow> u32 \<Rightarrow> env \<Rightarrow> tester_env \<Rightarrow> (nat \<times> nat option) res" where
  "tester_main argc junk e te =
     (if argc \<noteq> 1 then Inr (1, None)
      else res_bind (extent_client_init junk e) (\<lambda>im.
           res_bind (run_tests te im) (\<lambda>(score, im'). Inr (0, Some score))))"

declare create_loop.simps [simp del] put_loop.simps [simp del] check_loop.simps [simp del]
  remove_loop.simps [simp del] create_files.simps [simp del] fill_loop.simps [simp del]
  put_files.simps [simp del] get_files.simps [simp del] rounds.simps [simp del] remove_files.simps [simp del]

section \<open>Running an operation\<close>

text \<open>The operation returns, with a result and a state that satisfy \<open>Q\<close>.\<close>

definition runs :: "'a io \<Rightarrow> inode_manager \<Rightarrow> ('a \<Rightarrow> inode_manager \<Rightarrow> bool) \<Rightarrow> bool" where
  "runs m im Q \<longleftrightarrow> (\<exists>x im'. m im = Inr (x, im') \<and> Q x im')"

lemma runs_simps [simp]:
  "runs (io_return x) im Q = Q x im"
  "runs (io_bind m f) im Q = runs m im (\<lambda>x im'. runs (f x) im' Q)"
  "runs (io_res (Inr x)) im Q = Q x im"
  "runs (\<lambda>im. Inr (x, im)) im Q = Q x im"
  by (auto simp: runs_def io_bind_def io_return_def io_res_def res_bind_eq_Inr)

lemma runs_mono: "runs m im P \<Longrightarrow> (\<And>x im'. P x im' \<Longrightarrow> Q x im') \<Longrightarrow> runs m im Q"
  by (auto simp: runs_def)

text \<open>The operations of the extent client, from the laws of the store.\<close>

abbreviation room :: "inode_manager \<Rightarrow> nat" where
  "room im \<equiv> bm_free (im_bm im)"

definition type_of :: "inode_manager \<Rightarrow> u64 \<Rightarrow> u32" where
  "type_of im eid = (case files im (eid_inum eid) of None \<Rightarrow> 0 | Some (t, c) \<Rightarrow> scast t)"

lemma runs_getattr:
  assumes "fs_inv im" "\<And>a. a_type a = type_of im eid \<Longrightarrow> Q (OK, a) im"
  shows "runs (ec_getattr eid) im Q"
  using es.getattr_ok [OF assms(1), of eid] assms(2)
  by (auto simp: runs_def type_of_def split: option.splits)

lemma runs_get:
  assumes "fs_inv im" "files im (eid_inum eid) = Some (t, c)"
    "\<And>im'. fs_inv im' \<Longrightarrow> files im' = files im \<Longrightarrow> room im' = room im \<Longrightarrow> Q (OK, c) im'"
  shows "runs (ec_get eid) im Q"
  using es.get_file [OF assms(1,2)] assms(3) by (metis runs_def)

lemma runs_put:
  assumes "fs_inv im" "files im (eid_inum eid) = Some (t, c)" "length buf \<le> BLOCK_SIZE * MAXFILE"
    "cost (length buf) \<le> room im"
    "\<And>im'. fs_inv im' \<Longrightarrow> files im' = (files im)(eid_inum eid \<mapsto> (t, buf)) \<Longrightarrow>
       room im + cost (length c) \<le> room im' + cost (max 1 (length buf)) \<Longrightarrow> Q OK im'"
  shows "runs (ec_put eid buf) im Q"
proof -
  have "cost (length buf) - cost (length c) \<le> room im"
    using assms(4) by simp
  from es.put_ok [OF assms(1-3) this] assms(5) show ?thesis
    by (metis runs_def)
qed

lemma runs_remove:
  assumes "fs_inv im" "\<And>im'. fs_inv im' \<Longrightarrow> files im' = (files im)(eid_inum eid := None) \<Longrightarrow>
    room im \<le> room im' \<Longrightarrow> Q OK im'"
  shows "runs (ec_remove eid) im Q"
  using es.remove_ok [OF assms(1), of eid] assms(2) by (auto simp: runs_def)

text \<open>While fewer than 1023 inodes are in use there is a number for a new one.\<close>

lemma free_number:
  assumes "card (dom m) < 1023"
  shows "\<exists>j :: u32. j \<noteq> 0 \<and> j < 1024 \<and> m j = None"
proof (rule ccontr)
  assume "\<not> ?thesis"
  then have used: "\<forall>j :: u32. j \<noteq> 0 \<longrightarrow> j < 1024 \<longrightarrow> m j \<noteq> None"
    by auto
  have "(of_nat n :: u32) \<in> dom m" if "1 \<le> n" "n < 1024" for n
    using used [rule_format, of "of_nat n"] that by (auto simp: word_less_nat_alt unat_of_nat word_unat_eq_iff)
  then have "(of_nat ` {1..<1024} :: u32 set) \<subseteq> dom m"
    by (intro image_subsetI) simp
  then have "card (of_nat ` {1..<1024} :: u32 set) \<le> card (dom m)"
    by (intro card_mono) simp_all
  moreover have "inj_on (of_nat :: nat \<Rightarrow> u32) {1..<1024}"
    by (rule inj_onI) (simp add: word_unat_eq_iff unat_of_nat)
  ultimately show False
    using assms by (simp add: card_image)
qed

lemma runs_create:
  assumes "fs_inv im" "type \<in> {T_DIR, T_FILE}" "card (dom (files im)) < 1023"
    "\<And>eid im'. fs_inv im' \<Longrightarrow> room im' = room im \<Longrightarrow> (ucast eid :: u32) \<noteq> 0 \<Longrightarrow>
       files im (eid_inum eid) = None \<Longrightarrow>
       files im' = (files im)(eid_inum eid \<mapsto> (ucast type, [])) \<Longrightarrow> type_of im' eid = type \<Longrightarrow> Q (OK, eid) im'"
  shows "runs (ec_create type) im Q"
proof -
  obtain eid im' where c: "ec_create type im = Inr ((OK, eid), im')" "fs_inv im'" "room im' = room im"
    "if eid = 0 then files im' = files im \<and> (\<forall>j. j \<noteq> 0 \<and> j < 1024 \<longrightarrow> files im j \<noteq> None)
     else eid \<le> 1024 \<and> files im (eid_inum eid) = None \<and> files im' = (files im)(eid_inum eid \<mapsto> (ucast type, []))"
    using es.create_ok [OF assms(1), of type] assms(2) by auto
  have "eid \<noteq> 0"
    using c(4) free_number [OF assms(3)] by (metis (full_types))
  moreover from this c(4) have "(ucast eid :: u32) \<noteq> 0"
    by (auto simp: word_unat_eq_iff unsigned_ucast_eq take_bit_eq_mod word_le_nat_alt)
  moreover have "type_of im' eid = type"
    using assms(2) c(4) \<open>eid \<noteq> 0\<close> by (auto simp: type_of_def)
  ultimately show ?thesis
    using c assms(4) by (auto simp: runs_def)
qed

lemma card_dom_upd: "card (dom (m(k :: u32 \<mapsto> v))) \<le> Suc (card (dom m))"
  by (simp add: card_insert_if)

section \<open>The first three tests\<close>

lemma create_one_runs:
  assumes "fs_inv im" "type \<in> {T_DIR, T_FILE}" "card (dom (files im)) < 1023"
    "\<And>im'. fs_inv im' \<Longrightarrow> room im' = room im \<Longrightarrow> card (dom (files im')) \<le> Suc (card (dom (files im))) \<Longrightarrow>
       runs rest im' Q"
  shows "runs (create_one type rest) im Q"
  unfolding create_one_def using assms
  by (auto intro!: runs_create runs_getattr simp del: dom_fun_upd simp: card_dom_upd)

lemma create_loop_runs:
  assumes "fs_inv im" "card (dom (files im)) \<le> i + 1" "i \<le> FILE_NUM"
  shows "runs (create_loop rnd i) im (\<lambda>r im'. r = 0 \<and> fs_inv im' \<and> room im' = room im \<and>
    card (dom (files im')) \<le> FILE_NUM + 1)"
  using assms
proof (induction "FILE_NUM - i" arbitrary: i im)
  case 0
  then show ?case
    by (simp add: create_loop.simps)
next
  case (Suc n)
  then have i: "i < FILE_NUM"
    by simp
  have "runs (create_loop rnd (i + 1)) im' (\<lambda>r im'. r = 0 \<and> fs_inv im' \<and> room im' = room im \<and>
      card (dom (files im')) \<le> FILE_NUM + 1)"
    if "fs_inv im'" "room im' = room im" "card (dom (files im')) \<le> Suc (card (dom (files im)))" for im'
    using Suc(1) [of "i + 1" im'] Suc.hyps(2) Suc.prems that by simp
  then have "runs (create_one type (create_loop rnd (i + 1))) im (\<lambda>r im'. r = 0 \<and> fs_inv im' \<and>
      room im' = room im \<and> card (dom (files im')) \<le> FILE_NUM + 1)" if "type \<in> {T_DIR, T_FILE}" for type
    using that Suc.prems i by (intro create_one_runs) simp_all
  then show ?case
    using i by (subst create_loop.simps) (simp add: Let_def)
qed

text \<open>The number that \<open>sprintf\<close> writes fits the buffer and is read as a string.\<close>

lemma no_NUL_decimal: "NUL \<notin> set (decimal n)"
  using decimal_digits [of NUL n] by (auto simp: is_digit_def)

lemma takeWhile_id: "NUL \<notin> set xs \<Longrightarrow> takeWhile (\<lambda>c. c \<noteq> NUL) xs = xs"
  by (auto simp: takeWhile_eq_all_conv)

lemma sprintf_string:
  assumes "0 \<le> n" "n < 10000"
  shows "res_bind (sprintf_d (zeros 10) n) c_string = Inr (decimal (nat n))"
proof -
  have len: "length (decimal (nat n)) \<le> 4"
    using assms by (intro length_decimal) auto
  have "strlen (decimal (nat n) @ NUL # ys) = Inr (length (decimal (nat n)))" for ys
    by (simp add: strlen_prefix takeWhile_id no_NUL_decimal)
  then show ?thesis
    using assms(1) len by (simp add: sprintf_d_def memcpy_at_def c_string_def)
qed

lemma cost_small: "n \<le> 512 \<Longrightarrow> cost n \<le> 1"
  using cost_mono [of n 512] by (simp add: cost_def total_def nblk_def)

abbreviation key :: "nat \<Rightarrow> u32" where
  "key i \<equiv> eid_inum (id_of i)"

lemma unat_id: "i < FILE_NUM \<Longrightarrow> unat (id_of i) = i + 2"
  unfolding id_of_def by (subst unat_of_nat) simp

lemma key_eq: "i < FILE_NUM \<Longrightarrow> j < FILE_NUM \<Longrightarrow> key i = key j \<longleftrightarrow> i = j"
  by (simp add: word_unat_eq_iff eid_inum_unat unat_id)

text \<open>What the first loop of \<open>test_put_and_get\<close> has stored after \<open>i\<close> turns.\<close>

definition stored :: "int list \<Rightarrow> nat \<Rightarrow> inode_manager \<Rightarrow> bool" where
  "stored contents i im \<longleftrightarrow> (\<forall>j < i. type_of im (id_of j) = T_FILE \<longrightarrow>
     0 \<le> contents ! j \<and> contents ! j < 10000 \<and> (\<exists>t. files im (key j) = Some (t, decimal (nat (contents ! j)))))"

lemma stored_skip:
  "stored contents i im \<Longrightarrow> type_of im (id_of i) \<noteq> T_FILE \<Longrightarrow> stored contents (Suc i) im"
  by (auto simp: stored_def less_Suc_eq)

lemma stored_put:
  assumes "stored contents i im" "i < FILE_NUM" "length contents = FILE_NUM" "0 \<le> n" "n < 10000"
    "files im (key i) = Some (t, c)" "files im' = (files im)(key i \<mapsto> (t, decimal (nat n)))"
  shows "stored (contents[i := n]) (Suc i) im'"
  unfolding stored_def
proof (intro allI impI)
  fix j
  assume j: "j < Suc i" "type_of im' (id_of j) = T_FILE"
  show "0 \<le> contents[i := n] ! j \<and> contents[i := n] ! j < 10000 \<and>
      (\<exists>t. files im' (key j) = Some (t, decimal (nat (contents[i := n] ! j))))"
  proof (cases "j = i")
    case False
    then have "j < i" "key j \<noteq> key i"
      using j(1) assms(2) by (auto simp: key_eq)
    then show ?thesis
      using assms(1,7) j(2) by (auto simp: stored_def type_of_def)
  qed (use assms in simp)
qed

lemma put_loop_runs:
  assumes "fs_inv im" "card (dom (files im)) \<le> FILE_NUM + 1" "FILE_NUM + k \<le> room im + i" "i \<le> FILE_NUM"
    "length contents = FILE_NUM" "stored contents i im"
  shows "runs (put_loop rnd p contents i) im (\<lambda>(r, contents) im'. r = 0 \<and> fs_inv im' \<and>
    card (dom (files im')) \<le> FILE_NUM + 1 \<and> k \<le> room im' \<and> stored contents FILE_NUM im')"
  using assms
proof (induction "FILE_NUM - i" arbitrary: i im p contents)
  case 0
  then show ?case
    by (simp add: put_loop.simps)
next
  case (Suc n)
  let ?n = "int (unat (rnd p) mod 10000)" and ?eid = "id_of i"
  have i: "i < FILE_NUM" "n = FILE_NUM - (i + 1)"
    using Suc.hyps(2) by simp_all
  note next' = Suc.hyps(1) [OF i(2)]
  have skip: "runs (put_loop rnd p contents (i + 1)) im (\<lambda>(r, contents) im'. r = 0 \<and> fs_inv im' \<and>
      card (dom (files im')) \<le> FILE_NUM + 1 \<and> k \<le> room im' \<and> stored contents FILE_NUM im')"
    if "type_of im ?eid \<noteq> T_FILE"
    using Suc.prems i that stored_skip by (intro next') auto
  have put: "runs (ec_put ?eid (decimal (nat ?n))) im (\<lambda>ret im'. ret = OK \<and> runs (put_loop rnd (p + 1) (contents[i := ?n])
      (i + 1)) im' (\<lambda>(r, contents) im'. r = 0 \<and> fs_inv im' \<and> card (dom (files im')) \<le> FILE_NUM + 1 \<and>
        k \<le> room im' \<and> stored contents FILE_NUM im'))"
    if type: "type_of im ?eid = T_FILE"
  proof -
    obtain t c where f: "files im (key i) = Some (t, c)"
      using type by (auto simp: type_of_def split: option.splits)
    have len: "length (decimal (nat ?n)) \<le> 4"
      by (rule length_decimal) auto
    show ?thesis
    proof (rule runs_put [OF Suc.prems(1) f])
      show "cost (length (decimal (nat ?n))) \<le> room im"
        using cost_small [of "length (decimal (nat ?n))"] len Suc.prems(3) i(1) by simp
      fix im'
      assume im': "fs_inv im'" "files im' = (files im)(key i \<mapsto> (t, decimal (nat ?n)))"
        "room im + cost (length c) \<le> room im' + cost (max 1 (length (decimal (nat ?n))))"
      have "room im \<le> room im' + 1"
        using im'(3) cost_small [of "max 1 (length (decimal (nat ?n)))"] len by simp
      moreover have "dom (files im') = dom (files im)"
        using im'(2) f by auto
      ultimately show "OK = OK \<and> runs (put_loop rnd (p + 1) (contents[i := ?n]) (i + 1)) im'
          (\<lambda>(r, contents) im'. r = 0 \<and> fs_inv im' \<and> card (dom (files im')) \<le> FILE_NUM + 1 \<and> k \<le> room im' \<and>
            stored contents FILE_NUM im')"
        using Suc.prems i im' f stored_put [of contents i im ?n t c im'] by (intro conjI refl next') auto
    qed (use len in simp)
  qed
  show ?case
    using i(1) Suc.prems(1) skip put
    by (subst put_loop.simps) (auto simp: Let_def sprintf_string intro!: runs_getattr elim!: runs_mono)
qed

lemma check_loop_runs:
  assumes "fs_inv im" "stored contents FILE_NUM im" "i \<le> FILE_NUM" "card (dom (files im)) \<le> c" "k \<le> room im"
  shows "runs (check_loop contents i) im (\<lambda>r im'. r = 0 \<and> fs_inv im' \<and> card (dom (files im')) \<le> c \<and> k \<le> room im')"
  using assms
proof (induction "FILE_NUM - i" arbitrary: i im)
  case 0
  then show ?case
    by (simp add: check_loop.simps)
next
  case (Suc n)
  let ?Q = "\<lambda>r im'. r = 0 \<and> fs_inv im' \<and> card (dom (files im')) \<le> c \<and> k \<le> room im'"
  have i: "i < FILE_NUM" "n = FILE_NUM - (i + 1)"
    using Suc.hyps(2) by simp_all
  have rest: "runs (check_loop contents (i + 1)) im' ?Q"
    if "fs_inv im'" "files im' = files im" "room im' = room im" for im'
    using Suc.hyps(1) [OF i(2), of im'] Suc.prems i(1) that by (simp add: stored_def type_of_def)
  have get: "runs (ec_get (id_of i)) im (\<lambda>(ret, buf) im'. ret = OK \<and> 0 \<le> contents ! i \<and> contents ! i < 10000 \<and>
      buf = decimal (nat (contents ! i)) \<and> runs (check_loop contents (i + 1)) im' ?Q)"
    if type: "type_of im (id_of i) = T_FILE"
  proof -
    obtain t where "0 \<le> contents ! i" "contents ! i < 10000" "files im (key i) = Some (t, decimal (nat (contents ! i)))"
      using Suc.prems(2) type i(1) by (auto simp: stored_def)
    then show ?thesis
      using rest by (intro runs_get [OF Suc.prems(1)]) auto
  qed
  show ?case
    using i(1) Suc.prems(1) rest get
    by (subst check_loop.simps) (auto simp: Let_def sprintf_string intro!: runs_getattr elim!: runs_mono)
qed

lemma remove_loop_runs:
  assumes "fs_inv im" "card (dom (files im)) \<le> c" "k \<le> room im"
  shows "runs (remove_loop i) im (\<lambda>r im'. r = 0 \<and> fs_inv im' \<and> card (dom (files im')) \<le> c \<and> k \<le> room im')"
  using assms
proof (induction "FILE_NUM - i" arbitrary: i im)
  case 0
  then show ?case
    by (simp add: remove_loop.simps)
next
  case (Suc n)
  let ?Q = "\<lambda>r im'. r = 0 \<and> fs_inv im' \<and> card (dom (files im')) \<le> c \<and> k \<le> room im'"
  have i: "i < FILE_NUM" "n = FILE_NUM - (i + 1)"
    using Suc.hyps(2) by simp_all
  have rest: "type_of im' (id_of i) = 0 \<and> runs (remove_loop (i + 1)) im' ?Q"
    if im': "fs_inv im'" "files im' = (files im)(key i := None)" "room im \<le> room im'" for im'
  proof -
    have "card (dom (files im')) \<le> card (dom (files im))"
      using im'(2) by (intro card_mono) auto
    then show ?thesis
      using Suc.hyps(1) [OF i(2), of im'] Suc.prems im' by (simp add: type_of_def)
  qed
  show ?case
    using i(1) Suc.prems(1) rest
    by (subst remove_loop.simps) (auto simp: Let_def intro!: runs_remove runs_getattr)
qed

section \<open>The test of large files\<close>

lemma fill_loop_ok:
  assumes "length s \<le> sz" "sz \<le> length s + m" "NUL \<notin> set s"
  shows "\<exists>s' p'. fill_loop rnd p (s @ zeros m) (length s) sz = Inr (s' @ zeros (length s + m - sz), p') \<and>
    length s' = sz \<and> NUL \<notin> set s'"
  using assms
proof (induction "sz - length s" arbitrary: s m p)
  case 0
  then show ?case
    by (simp add: fill_loop.simps)
next
  case (Suc n)
  let ?c = "char_of (97 + unat (rnd p) mod 26)"
  obtain m' where m: "m = Suc m'"
    using Suc.hyps(2) Suc.prems by (cases m) auto
  have "(of_char ?c :: nat) \<noteq> of_char NUL"
    by (simp add: of_char_of)
  then have c: "?c \<noteq> NUL"
    by metis
  have "memcpy_at (s @ zeros m) (length s) [?c] = Inr ((s @ [?c]) @ zeros m')"
    by (simp add: memcpy_at_def m)
  moreover have "length s < sz"
    using Suc.hyps(2) by simp
  moreover have "\<exists>s' p'. fill_loop rnd (p + 1) ((s @ [?c]) @ zeros m') (length (s @ [?c])) sz =
      Inr (s' @ zeros (length (s @ [?c]) + m' - sz), p') \<and> length s' = sz \<and> NUL \<notin> set s'"
    using Suc.hyps(2) Suc.prems m c by (intro Suc.hyps(1)) auto
  ultimately show ?case
    by (subst fill_loop.simps) (simp add: m)
qed

lemma c_string_ok: "NUL \<notin> set s \<Longrightarrow> 0 < m \<Longrightarrow> c_string (s @ zeros m) = Inr s"
  by (cases m) (simp_all add: c_string_def strlen_prefix takeWhile_id)

text \<open>The files of the test, and the blocks they take up.\<close>

definition spent :: "u32 set \<Rightarrow> inode_manager \<Rightarrow> nat" where
  "spent K im = (\<Sum>k\<in>K. cost (length (snd (the (files im k)))))"

lemma spent_upd:
  assumes "k \<in> K" "files im k = Some (t, c)" "files im' = (files im)(k \<mapsto> (t, c'))"
  shows "spent K im' + cost (length c) = spent K im + cost (length c')"
proof -
  have "spent (K - {k}) im' = spent (K - {k}) im"
    unfolding spent_def using assms(3) by (intro sum.cong) auto
  moreover have "spent K x = cost (length (snd (the (files x k)))) + spent (K - {k}) x" for x
    unfolding spent_def using assms(1) by (intro sum.remove) simp_all
  ultimately show ?thesis
    using assms(2,3) by simp
qed

definition large_inv :: "u32 set \<Rightarrow> inode_manager \<Rightarrow> bool" where
  "large_inv K im \<longleftrightarrow> fs_inv im \<and> 10251 \<le> room im + spent K im \<and>
     (\<forall>k\<in>K. \<exists>t c. files im k = Some (t, c) \<and> length c \<le> LARGE_FILE_SIZE_MAX)"

lemma cost_large: "n \<le> LARGE_FILE_SIZE_MAX \<Longrightarrow> cost n \<le> 201"
  using cost_mono [of n LARGE_FILE_SIZE_MAX] by (simp add: cost_def total_def nblk_def)

lemma large_room:
  assumes "large_inv K im" "card K \<le> FILE_NUM"
  shows "201 \<le> room im"
proof -
  have "spent K im \<le> of_nat (card K) * 201"
    unfolding spent_def using assms(1) by (intro sum_bounded_above cost_large) (force simp: large_inv_def)
  then show ?thesis
    using assms by (simp add: large_inv_def)
qed

lemma large_put:
  assumes "large_inv K im" "card K \<le> FILE_NUM" "eid_inum eid \<in> K" "0 < length s" "length s \<le> LARGE_FILE_SIZE_MAX"
    "\<And>t c im'. large_inv K im' \<Longrightarrow> files im' = (files im)(eid_inum eid \<mapsto> (t, s)) \<Longrightarrow> Q OK im'"
  shows "runs (ec_put eid s) im Q"
proof -
  obtain t c where f: "files im (eid_inum eid) = Some (t, c)"
    using assms(1,3) by (auto simp: large_inv_def)
  show ?thesis
  proof (rule runs_put [OF _ f])
    show "cost (length s) \<le> room im"
      using large_room [OF assms(1,2)] cost_large [OF assms(5)] by simp
    fix im'
    assume im': "fs_inv im'" "files im' = (files im)(eid_inum eid \<mapsto> (t, s))"
      "room im + cost (length c) \<le> room im' + cost (max 1 (length s))"
    have "max 1 (length s) = length s"
      using assms(4) by (cases s) simp_all
    then have "room im + spent K im \<le> room im' + spent K im'"
      using im'(3) spent_upd [OF assms(3) f im'(2)] by simp
    then have "large_inv K im'"
      using assms(1,5) im'(1,2) by (auto simp: large_inv_def)
    then show "Q OK im'"
      using im'(2) by (rule assms(6))
  qed (use assms in \<open>auto simp: large_inv_def\<close>)
qed

abbreviation keys :: "u64 list \<Rightarrow> u32 list" where
  "keys id_list \<equiv> map eid_inum id_list"

definition kept :: "u64 list \<Rightarrow> byte list list \<Rightarrow> nat \<Rightarrow> inode_manager \<Rightarrow> bool" where
  "kept id_list contents i im \<longleftrightarrow>
     (\<forall>j < i. \<exists>t. files im (eid_inum (id_list ! j)) = Some (t, contents ! j))"

text \<open>What \<open>create_files\<close> leaves: different files, as many as the test needs.\<close>

definition ids_ok :: "u64 list \<Rightarrow> bool" where
  "ids_ok id_list \<longleftrightarrow> length id_list = FILE_NUM \<and> distinct (keys id_list)"

lemma ids_okD:
  assumes "ids_ok id_list"
  shows "card (set (keys id_list)) \<le> FILE_NUM" "i < FILE_NUM \<Longrightarrow> eid_inum (id_list ! i) \<in> set (keys id_list)"
    "i < FILE_NUM \<Longrightarrow> j < FILE_NUM \<Longrightarrow> eid_inum (id_list ! i) = eid_inum (id_list ! j) \<longleftrightarrow> i = j"
proof -
  show "card (set (keys id_list)) \<le> FILE_NUM"
    using card_length [of "keys id_list"] assms by (simp add: ids_ok_def)
  show "i < FILE_NUM \<Longrightarrow> eid_inum (id_list ! i) \<in> set (keys id_list)"
    using assms by (simp add: ids_ok_def)
  show "i < FILE_NUM \<Longrightarrow> j < FILE_NUM \<Longrightarrow> eid_inum (id_list ! i) = eid_inum (id_list ! j) \<longleftrightarrow> i = j"
    using assms nth_eq_iff_index_eq [of "keys id_list" i j] by (simp add: ids_ok_def)
qed

lemma kept_put:
  assumes "kept id_list contents i im" "i < FILE_NUM" "ids_ok id_list" "length contents = FILE_NUM"
    "files im' = (files im)(eid_inum (id_list ! i) \<mapsto> (t, s))"
  shows "kept id_list (contents[i := s]) (Suc i) im'"
  using assms(1,2,4,5) ids_okD(3) [OF assms(3)] by (auto simp: kept_def less_Suc_eq nth_list_update)

lemma put_files_runs:
  assumes "large_inv (set (keys id_list)) im" "ids_ok id_list" "i \<le> FILE_NUM" "length contents = FILE_NUM"
    "kept id_list contents i im"
  shows "runs (put_files rnd p id_list contents i) im (\<lambda>(r, contents, p) im'. r = 0 \<and>
    large_inv (set (keys id_list)) im' \<and> length contents = FILE_NUM \<and> kept id_list contents FILE_NUM im')"
  using assms
proof (induction "FILE_NUM - i" arbitrary: i im p contents)
  case 0
  then show ?case
    by (simp add: put_files.simps)
next
  case (Suc n)
  let ?sz = "unat (rnd p) mod (LARGE_FILE_SIZE_MAX - LARGE_FILE_SIZE_MIN) + LARGE_FILE_SIZE_MIN"
  let ?Q = "\<lambda>(r, contents, p) im'. r = 0 \<and>
    large_inv (set (keys id_list)) im' \<and> length contents = FILE_NUM \<and> kept id_list contents FILE_NUM im'"
  have i: "i < FILE_NUM" "n = FILE_NUM - (i + 1)"
    using Suc.hyps(2) by simp_all
  have sz: "?sz < LARGE_FILE_SIZE_MAX"
    using mod_less_divisor [of "LARGE_FILE_SIZE_MAX - LARGE_FILE_SIZE_MIN" "unat (rnd p)"] by simp
  then obtain s p' where s: "fill_loop rnd (p + 1) (zeros LARGE_FILE_SIZE_MAX) 0 ?sz =
      Inr (s @ zeros (LARGE_FILE_SIZE_MAX - ?sz), p')" "length s = ?sz" "NUL \<notin> set s"
    using fill_loop_ok [of "[]" ?sz LARGE_FILE_SIZE_MAX rnd "p + 1"] by auto
  have str: "c_string (s @ zeros (LARGE_FILE_SIZE_MAX - ?sz)) = Inr s"
    using s(3) sz by (intro c_string_ok) simp_all
  have "runs (ec_put (id_list ! i) s) im (\<lambda>ret im'. ret = OK \<and>
      runs (put_files rnd p' id_list (contents[i := s]) (i + 1)) im' ?Q)"
  proof (rule large_put [OF Suc.prems(1)])
    fix t im'
    assume im': "large_inv (set (keys id_list)) im'" "files im' = (files im)(eid_inum (id_list ! i) \<mapsto> (t, s))"
    show "OK = OK \<and> runs (put_files rnd p' id_list (contents[i := s]) (i + 1)) im' ?Q"
      using Suc.prems i(1) im' kept_put [of id_list contents i im im' t s]
      by (intro conjI refl Suc.hyps(1) [OF i(2)]) simp_all
  qed (use ids_okD [OF Suc.prems(2)] i(1) s(2) sz in simp_all)
  then show ?case
    using i(1) s(1) str by (subst put_files.simps) (auto simp: Let_def elim!: runs_mono)
qed

lemma get_files_runs:
  assumes "large_inv K im" "kept id_list contents FILE_NUM im" "i \<le> FILE_NUM"
  shows "runs (get_files id_list contents i) im (\<lambda>r im'. r = 0 \<and> large_inv K im')"
  using assms
proof (induction "FILE_NUM - i" arbitrary: i im)
  case 0
  then show ?case
    by (simp add: get_files.simps)
next
  case (Suc n)
  have i: "i < FILE_NUM" "n = FILE_NUM - (i + 1)"
    using Suc.hyps(2) by simp_all
  obtain t where f: "files im (eid_inum (id_list ! i)) = Some (t, contents ! i)"
    using Suc.prems(2) i(1) by (auto simp: kept_def)
  have rest: "runs (get_files id_list contents (i + 1)) im' (\<lambda>r im'. r = 0 \<and> large_inv K im')"
    if "fs_inv im'" "files im' = files im" "room im' = room im" for im'
    using Suc.hyps(1) [OF i(2), of im'] Suc.prems i(1) that by (simp add: large_inv_def spent_def kept_def)
  show ?case
    using i(1) Suc.prems(1) rest
    by (subst get_files.simps) (auto simp: large_inv_def intro!: runs_get [OF _ f])
qed

lemma rounds_runs:
  assumes "large_inv (set (keys id_list)) im" "ids_ok id_list" "length contents = FILE_NUM"
  shows "runs (rounds rnd p id_list contents j) im (\<lambda>r im'. r = 0 \<and> fs_inv im')"
  using assms
proof (induction "10 - j" arbitrary: j im p contents)
  case 0
  then show ?case
    by (simp add: rounds.simps large_inv_def)
next
  case (Suc n)
  have j: "j < 10" "n = 10 - (j + 1)"
    using Suc.hyps(2) by simp_all
  have "kept id_list contents 0 im"
    by (simp add: kept_def)
  note put = put_files_runs [OF Suc.prems(1,2) _ Suc.prems(3) this, of rnd p]
  have get: "runs (get_files id_list contents' 0) im' (\<lambda>r im''. r = 0 \<and> runs (rounds rnd p' id_list contents' (j + 1)) im''
      (\<lambda>r im'. r = 0 \<and> fs_inv im'))"
    if "large_inv (set (keys id_list)) im'" "length contents' = FILE_NUM" "kept id_list contents' FILE_NUM im'"
    for contents' p' im'
    using get_files_runs [OF that(1,3), of 0] Suc.hyps(1) [OF j(2) _ Suc.prems(2) that(2)]
    by (auto elim!: runs_mono)
  show ?case
    using j(1) put by (subst rounds.simps) (auto elim!: runs_mono intro!: runs_mono [OF get])
qed

lemma create_files_runs:
  assumes "fs_inv im" "card (dom (files im)) \<le> FILE_NUM + 1 + i" "10251 \<le> room im" "length id_list = FILE_NUM"
    "i \<le> FILE_NUM" "distinct (keys (take i id_list))"
    "\<forall>k \<in> set (keys (take i id_list)). \<exists>t. files im k = Some (t, [])"
  shows "runs (create_files id_list i) im (\<lambda>(r, id_list) im'. r = 0 \<and> ids_ok id_list \<and>
    large_inv (set (keys id_list)) im')"
  using assms
proof (induction "FILE_NUM - i" arbitrary: i im id_list)
  case 0
  then show ?case
    by (auto simp: create_files.simps ids_ok_def large_inv_def)
next
  case (Suc n)
  have i: "i < FILE_NUM" "n = FILE_NUM - (i + 1)"
    using Suc.hyps(2) by simp_all
  have rest: "runs (create_files (id_list[i := eid]) (i + 1)) im' (\<lambda>(r, id_list) im'. r = 0 \<and> ids_ok id_list \<and>
      large_inv (set (keys id_list)) im')"
    if im': "fs_inv im'" "room im' = room im" "files im (eid_inum eid) = None"
      "files im' = (files im)(eid_inum eid \<mapsto> (ucast T_FILE, []))" for eid im'
  proof (rule Suc.hyps(1) [OF i(2)])
    have t: "take (i + 1) (id_list[i := eid]) = take i id_list @ [eid]"
      using i(1) Suc.prems(4) by (simp add: take_Suc_conv_app_nth)
    show "distinct (keys (take (i + 1) (id_list[i := eid])))"
      "\<forall>k \<in> set (keys (take (i + 1) (id_list[i := eid]))). \<exists>t. files im' k = Some (t, [])"
      unfolding t using Suc.prems(6,7) im'(3,4) by auto
    show "card (dom (files im')) \<le> FILE_NUM + 1 + (i + 1)"
      unfolding im'(4) using card_dom_upd [of "files im" "eid_inum eid" "(ucast T_FILE, [])"] Suc.prems(2)
      by linarith
  qed (use Suc.prems i(1) im' in simp_all)
  show ?case
    using i(1) Suc.prems(1,2) by (subst create_files.simps) (auto intro!: runs_create rest [simplified])
qed

lemma remove_files_runs:
  assumes "fs_inv im"
  shows "runs (remove_files id_list i) im (\<lambda>r im'. r = 0 \<and> fs_inv im')"
  using assms
proof (induction "FILE_NUM - i" arbitrary: i im)
  case 0
  then show ?case
    by (simp add: remove_files.simps)
next
  case (Suc n)
  then show ?case
    by (subst remove_files.simps) (auto intro!: runs_remove)
qed

section \<open>The score\<close>

text \<open>What the tests need of the state, with \<open>k\<close> free blocks.\<close>

definition ready :: "nat \<Rightarrow> inode_manager \<Rightarrow> bool" where
  "ready k im \<longleftrightarrow> fs_inv im \<and> card (dom (files im)) \<le> FILE_NUM + 1 \<and> k \<le> room im"

lemma test_create_and_getattr_runs:
  assumes "fs_inv im" "card (dom (files im)) \<le> 1" "k \<le> room im"
  shows "runs (test_create_and_getattr te s) im (\<lambda>(r, s') im'. r = 0 \<and> s' = s + 40 \<and> ready k im')"
  unfolding test_create_and_getattr_def using create_loop_runs [of im 0 "te_rand te 0"] assms
  by (auto simp: ready_def elim!: runs_mono)

lemma test_put_and_get_runs:
  assumes "ready (FILE_NUM + k) im"
  shows "runs (test_put_and_get te s) im (\<lambda>(r, s') im'. r = 0 \<and> s' = s + 30 \<and> ready k im')"
proof -
  have "stored contents 0 im" for contents
    by (simp add: stored_def)
  then have "runs (put_loop (te_rand te 1) 0 (map (te_contents te) [0..<FILE_NUM]) 0) im (\<lambda>(r, contents) im'.
      r = 0 \<and> ready k im' \<and> stored contents FILE_NUM im')"
    using put_loop_runs [of im k 0 "map (te_contents te) [0..<FILE_NUM]" "te_rand te 1" 0] assms
    by (auto simp: ready_def elim!: runs_mono)
  moreover have "runs (check_loop contents 0) im' (\<lambda>r im'. r = 0 \<and> ready k im')"
    if "ready k im'" "stored contents FILE_NUM im'" for contents im'
    using check_loop_runs [of im' contents 0 "FILE_NUM + 1" k] that by (simp add: ready_def)
  ultimately show ?thesis
    unfolding test_put_and_get_def by (fastforce elim!: runs_mono)
qed

lemma test_remove_runs:
  assumes "ready k im"
  shows "runs (test_remove s) im (\<lambda>(r, s') im'. r = 0 \<and> s' = s + 20 \<and> ready k im')"
  unfolding test_remove_def using remove_loop_runs [of im "FILE_NUM + 1" k 0] assms
  by (auto simp: ready_def elim!: runs_mono)

lemma test_indirect_runs:
  assumes "ready 10251 im"
  shows "runs (test_indirect te s) im (\<lambda>(r, s') im'. r = 0 \<and> s' = s + 10 \<and> fs_inv im')"
proof -
  have "runs (create_files (map (te_id_list te) [0..<FILE_NUM]) 0) im (\<lambda>(r, id_list) im'. r = 0 \<and> ids_ok id_list \<and>
      large_inv (set (keys id_list)) im')"
    using assms by (intro create_files_runs) (simp_all add: ready_def)
  moreover have "runs (rounds (te_rand te 2) 0 id_list (replicate FILE_NUM []) 0) im'
      (\<lambda>r im'. r = 0 \<and> runs (remove_files id_list 0) im' (\<lambda>r im'. r = 0 \<and> fs_inv im'))"
    if "ids_ok id_list" "large_inv (set (keys id_list)) im'" for id_list im'
    using that by (auto intro!: runs_mono [OF rounds_runs] remove_files_runs)
  ultimately show ?thesis
    unfolding test_indirect_def by (fastforce elim!: runs_mono)
qed

lemma run_tests_runs:
  assumes "fs_inv im" "card (dom (files im)) \<le> 1" "FILE_NUM + 10251 \<le> room im"
  shows "runs (run_tests te) im (\<lambda>score im'. score = 100)"
  unfolding run_tests_def using assms
  by (auto intro!: runs_mono [OF test_create_and_getattr_runs] runs_mono [OF test_put_and_get_runs [of 10251, simplified]]
      runs_mono [OF test_remove_runs] runs_mono [OF test_indirect_runs])

text \<open>C6. The tester prints a score of 100 of 100, whatever \<open>rand\<close> returns and whatever its arrays
  hold at the start: fifty files and directories can be created with the type that \<open>getattr\<close> reports,
  small contents and, in ten rounds, large contents with an indirect block are read back as they were put,
  and removed files report type 0; the fifty large files and what the earlier tests leave in use fit the disk.
  Whether it gets that far depends on the uninitialised \<open>_last_alloced\<close>: for most values the
  construction of the inode manager ends the process. With arguments on the command line it only
  reports status 1.\<close>

theorem tester_score:
  "tester_main argc junk e te =
     (if argc \<noteq> 1 then Inr (1, None)
      else if junk = 0 \<or> junk mod 1024 = 1023 \<and> junk \<noteq> - 1 then Inr (0, Some 100)
      else Inl Exit_called)"
proof (cases "junk = 0 \<or> junk mod 1024 = 1023 \<and> junk \<noteq> - 1")
  case True
  then obtain im where im: "extent_client_init junk e = Inr im" "fs_inv im" "files im = [1 \<mapsto> (1, [])]"
    "room im = 31732"
    using inode_manager_init_ok [of junk e]
    by (auto simp: extent_client_init_def extent_server_init_def bm_free_init)
  then have "runs (run_tests te) im (\<lambda>score im'. score = 100)"
    by (intro run_tests_runs) simp_all
  then show ?thesis
    using True im(1) by (auto simp: tester_main_def runs_def)
next
  case False
  then have "extent_client_init junk e = Inl Exit_called"
    using inode_manager_init_ok [of junk e] by (auto simp: extent_client_init_def extent_server_init_def)
  then show ?thesis
    using False by (auto simp: tester_main_def)
qed

end
