(* ===== verification/Gettime.thy ===== *)
theory Gettime
  imports Prelude
begin

text \<open>
  \<open>gettime.cc\<close>: the replacement of \<open>clock_gettime\<close> for macOS. The calls of the Mach kernel
  are arguments of the model. The conversion of nanoseconds to seconds goes through the type
  \<open>double\<close>, whose roundings are written out on integers.
\<close>

section \<open>Arithmetic of the type \<open>double\<close>\<close>

text \<open>The number of binary digits, and the rounding to 53 of them, to the nearest and to the even one of two
  that are as near. Without overflow and subnormal numbers, which do not occur here, this is the rounding of
  every operation of IEEE 754 in binary64: it does not depend on the power of two that scales the operand.\<close>

fun bits :: "nat \<Rightarrow> nat" where
  "bits n = (if n = 0 then 0 else Suc (bits (n div 2)))"

declare bits.simps [simp del]

definition round53 :: "nat \<Rightarrow> nat" where
  "round53 n =
     (if bits n \<le> 53 then n
      else let u = 2 ^ (bits n - 53); q = n div u; r = n mod u
        in (if u < 2 * r \<or> 2 * r = u \<and> odd q then q + 1 else q) * u)"

text \<open>The constant \<open>1e-9\<close> is stored as \<open>nano_mantissa / 2 ^ 82\<close>, a little more than
  a billionth.\<close>

definition nano_mantissa :: nat where
  "nano_mantissa = 4835703278458517"

section \<open>The program\<close>

record timespec =
  tv_sec :: int
  tv_nsec :: int

datatype clockid_t = CLOCK_REALTIME | CLOCK_MONOTONIC | CLOCK_PROCESS_CPUTIME_ID | CLOCK_THREAD_CPUTIME_ID
  | Other_clock int

datatype clock_serv = CALENDAR_CLOCK | SYSTEM_CLOCK

datatype sys_call = Getpid | Sched_yield

text \<open>What the kernel returns: a status, with 0 for \<open>KERN_SUCCESS\<close>, and the clock, or its time; the
  readings of the absolute time, by their number; numerator and denominator of its unit in
  nanoseconds.\<close>

record 'c mach =
  host_get_clock_service :: "clock_serv \<Rightarrow> int \<times> 'c"
  clock_get_time :: "'c \<Rightarrow> int \<times> u32 \<times> int"
  mach_absolute_time :: "nat \<Rightarrow> u64"
  mach_timebase_info :: "u32 \<times> u32"

text \<open>The static variable \<open>__clock_gettime_inf\<close>, \<open>errno\<close>, the number of readings so far and
  the other calls.\<close>

record clock_state =
  inf_numer :: u32
  inf_denom :: u32
  errno :: int
  readings :: nat
  sys_calls :: "sys_call list"

abbreviation EINVAL :: int where
  "EINVAL \<equiv> 22"

text \<open>\<open>tp->tv_sec = nano * 1e-9\<close> and \<open>tp->tv_nsec = nano - (tp->tv_sec * 1e9)\<close>: the
  operands are converted to \<open>double\<close>, and the results are cut off to integers.\<close>

definition nano_timespec :: "u64 \<Rightarrow> timespec" where
  "nano_timespec nano =
     (let d = round53 (unat nano);
          sec = round53 (d * nano_mantissa) div 2 ^ 82;
          rest = int d - int (round53 (round53 sec * 10 ^ 9))
      in \<lparr>tv_sec = int sec, tv_nsec = sgn rest * int (round53 (nat \<bar>rest\<bar>))\<rparr>)"

text \<open>The return value, the time and the state; \<open>None\<close> is a division by zero.\<close>

definition clock_gettime ::
  "'c mach \<Rightarrow> clockid_t \<Rightarrow> timespec \<Rightarrow> clock_state \<Rightarrow> (int \<times> timespec \<times> clock_state) option" where
  "clock_gettime m clk_id tp s =
     (if clk_id = CLOCK_REALTIME \<or> clk_id = CLOCK_MONOTONIC
      then let clk_serv_id = if clk_id = CLOCK_REALTIME then CALENDAR_CLOCK else SYSTEM_CLOCK;
               (ret, clk) = host_get_clock_service m clk_serv_id
           in if ret = 0
              then let (ret, sec, nsec) = clock_get_time m clk
                   in if ret = 0 then Some (0, \<lparr>tv_sec = uint sec, tv_nsec = nsec\<rparr>, s)
                      else Some (- 1, tp, s\<lparr>errno := EINVAL\<rparr>)
              else Some (- 1, tp, s\<lparr>errno := EINVAL\<rparr>)
      else if clk_id = CLOCK_PROCESS_CPUTIME_ID \<or> clk_id = CLOCK_THREAD_CPUTIME_ID
      then let start = mach_absolute_time m (readings s);
               call = if clk_id = CLOCK_PROCESS_CPUTIME_ID then Getpid else Sched_yield;
               end_time = mach_absolute_time m (readings s + 1);
               delta = end_time - start;
               (numer, denom) = if inf_denom s = 0 then mach_timebase_info m else (inf_numer s, inf_denom s);
               s' = s\<lparr>inf_numer := numer, inf_denom := denom, readings := readings s + 2,
                 sys_calls := sys_calls s @ [call]\<rparr>
           in if denom = 0 then None
              else Some (0, nano_timespec (delta * ucast numer div ucast denom), s')
      else Some (- 1, tp, s\<lparr>errno := EINVAL\<rparr>))"

section \<open>Rounding\<close>

lemma bits_bounds: "n \<noteq> 0 \<Longrightarrow> 2 ^ (bits n - 1) \<le> n \<and> n < 2 ^ bits n"
proof (induction n rule: bits.induct)
  case (1 n)
  show ?case
  proof (cases "n div 2 = 0")
    case True
    then have "n = 1"
      using 1(2) by linarith
    then show ?thesis
      by (simp add: bits.simps)
  next
    case False
    then obtain k where k: "bits (n div 2) = Suc k"
      by (simp add: bits.simps [of "n div 2"])
    then have "bits n = Suc (Suc k)"
      using 1(2) by (subst bits.simps) simp
    then show ?thesis
      using 1(1) [OF 1(2) False] k by simp linarith
  qed
qed

lemma bits_le: "n < 2 ^ k \<Longrightarrow> bits n \<le> k"
proof (rule ccontr)
  assume n: "n < 2 ^ k" and "\<not> bits n \<le> k"
  then have "n \<noteq> 0" "(2::nat) ^ k \<le> 2 ^ (bits n - 1)"
    by (auto intro!: power_increasing intro: ccontr simp: bits.simps [of 0])
  then show False
    using bits_bounds [of n] n by linarith
qed

lemma bits_eqI: "2 ^ (k - 1) \<le> n \<Longrightarrow> n < 2 ^ k \<Longrightarrow> bits n = k"
proof (rule ccontr)
  assume n: "2 ^ (k - 1) \<le> n" "n < 2 ^ k" and "bits n \<noteq> k"
  then have "bits n \<le> k - 1"
    using bits_le [of n k] by simp
  then have "(2::nat) ^ bits n \<le> 2 ^ (k - 1)"
    by (intro power_increasing) simp_all
  moreover have "n \<noteq> 0"
    using n(1) by (intro notI) simp
  ultimately show False
    using bits_bounds [of n] n(1) by linarith
qed

lemma round53_exact [simp]: "n < 2 ^ 53 \<Longrightarrow> round53 n = n"
  using bits_le [of n 53] by (simp add: round53_def)

text \<open>A number that has 53 digits and is not above \<open>n\<close> is not above its rounding.\<close>

lemma round53_lower:
  assumes "c * 2 ^ j \<le> n" "bits n - 53 \<le> j"
  shows "c * 2 ^ j \<le> round53 n"
proof (cases "bits n \<le> 53")
  case False
  let ?u = "(2::nat) ^ (bits n - 53)"
  have "c * 2 ^ j = (c * 2 ^ (j - (bits n - 53))) * ?u"
    using assms(2) by (simp add: power_add [symmetric])
  also have "\<dots> \<le> (n div ?u) * ?u"
    using assms(1) unfolding calculation by (intro mult_le_mono1) (simp add: less_eq_div_iff_mult_less_eq)
  also have "\<dots> \<le> round53 n"
    using False by (simp add: round53_def Let_def)
  finally show ?thesis .
qed (use assms in \<open>simp add: round53_def\<close>)

lemma half_ulp: "2 * x \<le> 2 * n + u \<Longrightarrow> u * 2 ^ 52 \<le> n \<Longrightarrow> x * 2 ^ 53 \<le> n * (2 ^ 53 + 1)" for n :: nat
  by simp

text \<open>The relative error is at most \<open>2 ^ -53\<close>.\<close>

lemma round53_upper: "round53 n * 2 ^ 53 \<le> n * (2 ^ 53 + 1)"
proof (cases "bits n \<le> 53")
  case False
  let ?e = "bits n - 53"
  let ?u = "(2::nat) ^ ?e"
  define q r where "q = n div ?u" and "r = n mod ?u"
  have "n = q * ?u + r" "r < ?u"
    unfolding q_def r_def by (rule div_mult_mod_eq [symmetric]) simp
  moreover have "round53 n = (if ?u < 2 * r \<or> 2 * r = ?u \<and> odd q then q + 1 else q) * ?u"
    using False by (simp add: round53_def Let_def q_def r_def)
  ultimately have "2 * round53 n \<le> 2 * n + ?u"
    by (auto simp: algebra_simps)
  moreover have "n \<noteq> 0"
    using False by (intro notI) (simp add: bits.simps [of 0])
  moreover have "bits n - 1 = ?e + 52"
    using False by simp
  then have "?u * 2 ^ 52 = 2 ^ (bits n - 1)"
    by (simp only: power_add)
  ultimately show ?thesis
    using half_ulp bits_bounds [of n] by metis
qed (simp add: round53_def)

section \<open>Seconds and nanoseconds\<close>

lemma seconds:
  assumes "n < 2 ^ 52"
  shows "round53 (n * nano_mantissa) div 2 ^ 82 = n div 10 ^ 9"
proof (rule div_nat_eqI)
  let ?q = "n div 10 ^ 9"
  have q: "?q * 10 ^ 9 \<le> n" "n + 1 \<le> (?q + 1) * 10 ^ 9" "?q \<le> 4503599"
    using assms div_mult_mod_eq [of n "10 ^ 9"] mod_less_divisor [of "10 ^ 9" n]
    by (simp_all add: algebra_simps)
  have "?q * 2 ^ 82 \<le> ?q * 10 ^ 9 * nano_mantissa"
    by (simp add: nano_mantissa_def)
  also have "\<dots> \<le> n * nano_mantissa"
    using q(1) by (intro mult_le_mono1)
  finally have low: "?q * 2 ^ 82 \<le> n * nano_mantissa" .
  have "n * nano_mantissa < 2 ^ 52 * 2 ^ 53"
    using assms by (simp add: nano_mantissa_def)
  then have "bits (n * nano_mantissa) \<le> 105"
    by (intro bits_le) simp
  then have "?q * 2 ^ 82 \<le> round53 (n * nano_mantissa)"
    using low by (intro round53_lower) simp_all
  then show "2 ^ 82 * ?q \<le> round53 (n * nano_mantissa)"
    by (simp add: mult.commute)
  have "round53 (n * nano_mantissa) * 2 ^ 53 \<le> n * (nano_mantissa * (2 ^ 53 + 1))"
    using round53_upper [of "n * nano_mantissa"] by (simp only: mult.assoc)
  also have "\<dots> < (?q + 1) * 2 ^ 82 * 2 ^ 53"
    using q(2,3) unfolding nano_mantissa_def by simp
  finally show "round53 (n * nano_mantissa) < 2 ^ 82 * Suc ?q"
    by (simp add: mult.commute)
qed

lemma nano_timespec_split:
  assumes "unat nano < 2 ^ 52"
  shows "nano_timespec nano = \<lparr>tv_sec = int (unat nano div 10 ^ 9), tv_nsec = int (unat nano mod 10 ^ 9)\<rparr>"
proof -
  let ?n = "unat nano"
  let ?q = "?n div 10 ^ 9"
  have b: "?n < 2 ^ 53" "?q < 2 ^ 53" "?q * 10 ^ 9 < 2 ^ 53" "?n mod 10 ^ 9 < 2 ^ 53"
    using assms by simp_all
  have rest: "int ?n - int (?q * 10 ^ 9) = int (?n mod 10 ^ 9)"
    using minus_div_mult_eq_mod [of ?n "10 ^ 9"] div_times_less_eq_dividend [of ?n "10 ^ 9"] by linarith
  show ?thesis
    unfolding nano_timespec_def Let_def round53_exact [OF b(1)] seconds [OF assms] round53_exact [OF b(2)]
      round53_exact [OF b(3)] rest
    using round53_exact [OF b(4)] by (simp add: sgn_if)
qed

lemma sec_nsec: "int (n div 10 ^ 9) * 10 ^ 9 + int (n mod 10 ^ 9) = int n" "int (n mod 10 ^ 9) < 10 ^ 9"
  by (simp_all add: zdiv_int zmod_int)

section \<open>The clocks\<close>

text \<open>The two clocks of the host: the time of the clock, or the error \<open>EINVAL\<close>.\<close>

theorem host_clocks:
  assumes "clk_id = CLOCK_REALTIME \<and> serv = CALENDAR_CLOCK \<or> clk_id = CLOCK_MONOTONIC \<and> serv = SYSTEM_CLOCK"
    and "host_get_clock_service m serv = (ret1, clk)" "clock_get_time m clk = (ret2, sec, nsec)"
  shows "clock_gettime m clk_id tp s =
    (if ret1 = 0 \<and> ret2 = 0 then Some (0, \<lparr>tv_sec = uint sec, tv_nsec = nsec\<rparr>, s)
     else Some (- 1, tp, s\<lparr>errno := EINVAL\<rparr>))"
  using assms by (auto simp: clock_gettime_def Let_def)

lemma other_clocks: "clock_gettime m (Other_clock c) tp s = Some (- 1, tp, s\<lparr>errno := EINVAL\<rparr>)"
  by (simp add: clock_gettime_def)

text \<open>C33. The clocks of CPU time give the time that passes between two consecutive readings of the absolute
  time, in the unit of the kernel; the unit is asked for only once. When the readings are less than
  \<open>2 ^ 52\<close> nanoseconds apart (52 days) and the product does not overflow, the roundings of
  \<open>double\<close> do no harm: seconds and nanoseconds make up exactly this time, and the nanoseconds are
  less than a second.\<close>

theorem cputime_clocks:
  fixes s :: clock_state and m :: "'c mach"
  defines "unit \<equiv> (if inf_denom s = 0 then mach_timebase_info m else (inf_numer s, inf_denom s))"
    and "t0 \<equiv> mach_absolute_time m (readings s)" and "t1 \<equiv> mach_absolute_time m (readings s + 1)"
  assumes clk: "clk_id = CLOCK_PROCESS_CPUTIME_ID \<or> clk_id = CLOCK_THREAD_CPUTIME_ID"
    and unit: "snd unit \<noteq> 0" and order: "t0 \<le> t1" and prod: "(unat t1 - unat t0) * unat (fst unit) < 2 ^ 64"
    and small: "(unat t1 - unat t0) * unat (fst unit) div unat (snd unit) < 2 ^ 52"
  shows "\<exists>tp' s'. clock_gettime m clk_id tp s = Some (0, tp', s') \<and>
    tv_sec tp' * 10 ^ 9 + tv_nsec tp' = int ((unat t1 - unat t0) * unat (fst unit) div unat (snd unit)) \<and>
    0 \<le> tv_nsec tp' \<and> tv_nsec tp' < 10 ^ 9 \<and>
    (inf_numer s', inf_denom s') = unit \<and> errno s' = errno s \<and> readings s' = readings s + 2"
proof -
  let ?nano = "(t1 - t0) * ucast (fst unit) div ucast (snd unit) :: u64"
  have cast: "unat (ucast (w :: u32) :: u64) = unat w" for w
    by transfer (simp add: take_bit_take_bit)
  have nano: "unat ?nano = (unat t1 - unat t0) * unat (fst unit) div unat (snd unit)"
  proof -
    have "unat (t1 - t0) = unat t1 - unat t0"
      using order by (rule unat_sub)
    then have "unat ((t1 - t0) * ucast (fst unit)) = (unat t1 - unat t0) * unat (fst unit)"
      using prod by (simp add: unat_word_ariths cast)
    then show ?thesis
      by (simp add: unat_div cast)
  qed
  note split = nano_timespec_split [of ?nano, unfolded nano, OF small]
  have "clock_gettime m clk_id tp s = Some (0, nano_timespec ?nano,
      s\<lparr>inf_numer := fst unit, inf_denom := snd unit, readings := readings s + 2,
        sys_calls := sys_calls s @ [if clk_id = CLOCK_PROCESS_CPUTIME_ID then Getpid else Sched_yield]\<rparr>)"
    using clk unit by (auto simp: clock_gettime_def unit_def t0_def t1_def Let_def split: prod.split)
  then show ?thesis
    unfolding split using sec_nsec unit by simp
qed

text \<open>A processor of which the unit is one third of 125 nanoseconds.\<close>

definition sample_mach :: "unit mach" where
  "sample_mach = \<lparr>host_get_clock_service = (\<lambda>_. (0, ())), clock_get_time = (\<lambda>_. (0, 5, 6)),
     mach_absolute_time = (\<lambda>k. of_nat (100 + 24000030 * k)), mach_timebase_info = (125, 3)\<rparr>"

definition clock_start :: clock_state where
  "clock_start = \<lparr>inf_numer = 0, inf_denom = 0, errno = 0, readings = 0, sys_calls = []\<rparr>"

theorem cputime_clocks_witness:
  "\<exists>tp' s'. clock_gettime sample_mach CLOCK_PROCESS_CPUTIME_ID \<lparr>tv_sec = 0, tv_nsec = 0\<rparr> clock_start = Some (0, tp', s') \<and>
     tv_sec tp' * 10 ^ 9 + tv_nsec tp' = 1000001250 \<and> inf_denom s' = 3"
  using cputime_clocks [of CLOCK_PROCESS_CPUTIME_ID clock_start sample_mach "\<lparr>tv_sec = 0, tv_nsec = 0\<rparr>"]
  by (auto simp: sample_mach_def clock_start_def)

text \<open>Beyond the bound the nanoseconds can be negative: the product with \<open>1e-9\<close> is rounded up to
  the next second.\<close>

lemma nsec_negative: "nano_timespec 9007198999999999 = \<lparr>tv_sec = 9007199, tv_nsec = - 1\<rparr>"
proof -
  have "bits (9007198999999999 * nano_mantissa) = 106"
    by (intro bits_eqI) (simp_all add: nano_mantissa_def)
  then have sec: "round53 (9007198999999999 * nano_mantissa) div 2 ^ 82 = 9007199"
    by (simp add: round53_def nano_mantissa_def Let_def)
  have "unat (9007198999999999 :: u64) = 9007198999999999"
    by simp
  then show ?thesis
    unfolding nano_timespec_def Let_def by (simp add: sec [simplified])
qed

end
