(* ===== verification/Spec2Isabelle.thy ===== *)
theory Spec2Isabelle
  imports Fuse_Spec Timestamps Oversize Disk_Full Overread Fuse_Main Fifo Method_Thread Extent_Main Tester Gettime
begin

text \<open>
  A verification of CHFS, an inode-based file system in user space: C++ code that stores files in
  an array of blocks in memory and serves the requests of the kernel through FUSE.

  \<^bold>\<open>The program.\<close> From the bottom: \<open>disk\<close> is an array of 32768 blocks of 512
  bytes; \<open>block_manager\<close> keeps a superblock and a map of used blocks and allocates the
  first free one; \<open>inode_manager\<close> keeps 1024 inodes, one per block, each with 100 direct block
  numbers and one indirect block, and reads, writes and removes whole files;
  \<open>extent_server\<close> and \<open>extent_client\<close> make of it a store from numbers to byte
  strings; \<open>chfs_client\<close> implements directories (as the text \<open>inum/name/inum/name/\<close>
  in a file), regular files and symbolic links; \<open>fuse.cc\<close> answers the requests of the
  kernel. The calls go down directly, in one thread. Beside this stands an RPC library
  (\<open>rpc/\<close>), of which the repository has the headers and a binary: the message buffers, the
  templates of remote calls, a blocking queue; and \<open>extent_smain.cc\<close>, which offers the extent
  server through it.

  \<^bold>\<open>Theories and sources.\<close>
  \<^item> \<open>Prelude\<close>: faults as values (\<open>res\<close>), C division, byte buffers with bounds,
    little-endian integers.
  \<^item> \<open>Disk\<close>, \<open>Block_Manager\<close>, \<open>Inode_Layout\<close>, \<open>Inode_Manager\<close>:
    \<open>inode_manager.h\<close> and \<open>inode_manager.cc\<close>, function by function; the record
    \<open>inode_manager\<close> holds the block manager, the last allocated number and what the code
    takes from outside (clock, fresh heap memory, fresh stack memory) as streams with a
    position.
  \<^item> \<open>Inode_Inv\<close>: the invariant \<open>fs_inv\<close> (every block has at most one owner, owned blocks
    are marked as used, sizes and block lists agree) and the abstraction \<open>files\<close>, the map from
    inode numbers to type and content.
  \<^item> \<open>Inode_Alloc\<close>, \<open>Read_File\<close>, \<open>Block_Lists\<close>, \<open>Write_Loops\<close>,
    \<open>Write_File\<close>, \<open>Remove_File\<close>, \<open>Disk_Full\<close>: one operation each, what it does
    to \<open>files\<close> and to the number of free blocks. \<open>Timestamps\<close>: the times they set.
  \<^item> \<open>Extent\<close>: \<open>extent_server.cc\<close>, \<open>extent_client.cc\<close>. The locale
    \<open>extent_store\<close> is the promise of the store to its client; it is interpreted (\<open>es\<close>) on
    the operations of the extent client, and everything above uses only that.
    \<open>Overread\<close>: the memory behind the string that \<open>put\<close> reads.
  \<^item> \<open>Dir_Format\<close>: the text of a directory, its printer and its parser, decimal numbers, and the
    functions of \<open>std::string\<close> that occur. \<open>Chfs_Client\<close>: \<open>chfs_client.cc\<close>.
  \<^item> \<open>Client_Dir\<close>, \<open>Client_Data\<close>: every client operation as an equation on
    \<open>files\<close>; \<open>Client_Inv\<close>: the invariant \<open>client_inv\<close> of directories, the step
    relation \<open>client_step\<close> and safety; \<open>Client_Props\<close>, \<open>Data_Props\<close>: the
    promises to a caller.
  \<^item> \<open>Abstract_Fs\<close>: the specification of the client, a file system of nodes (directories as
    lists of entries, files, links) with the relation \<open>fs_step\<close>, and its refinement by the client
    (\<open>run_op\<close> under \<open>abs_fs\<close>). \<open>Namespace\<close>: the tree invariant of the
    specification, unique paths, and what follows for every state of a session of the client.
  \<^item> \<open>Oversize\<close>: files larger than the blocks of an inode hold.
  \<^item> \<open>Fuse\<close>: the handlers of \<open>fuse.cc\<close> as functions to the list of replies, the table of
    handlers and the session. \<open>Fuse_Inv\<close>, \<open>Fuse_Dir\<close>, \<open>Fuse_Props\<close>,
    \<open>Fuse_Session\<close>: one reply per request, listings, the content of the replies, whole
    sessions. \<open>Fuse_Spec\<close>: the service as a relation between requests, replies and the nodes
    of \<open>Abstract_Fs\<close>, and its refinement by the handlers and by every session from the mount on.
    \<open>Fuse_Main\<close>: \<open>main\<close>, from the command line to the unmount.
  \<^item> \<open>Fifo\<close>: \<open>rpc/fifo.h\<close> with \<open>rpc/slock.h\<close>, threads as a step relation.
    \<open>Method_Thread\<close>: \<open>rpc/method_thread.h\<close> and the template of
    \<open>rpc/thr_pool.h\<close>, with the heap of the wrappers.
  \<^item> \<open>Marshal\<close>: \<open>rpc/marshall.h\<close>; \<open>Rpc\<close>: the templates of \<open>rpc/rpc.h\<close>,
    the attributes on the wire (\<open>extent_protocol.h\<close>) and the registrations of
    \<open>extent_smain.cc\<close>; \<open>Extent_Main\<close>: its \<open>main\<close>.
  \<^item> \<open>Tester\<close>: \<open>part1_tester.cc\<close>, a client of the extent client that uses the
    inode numbers and the blocks of the disk at scale. \<open>Gettime\<close>: \<open>gettime.cc\<close>, the clocks
    on macOS, with the roundings of \<open>double\<close>.

  \<^bold>\<open>Conventions.\<close> Machine integers are words of their width; where the code mixes signed and
  unsigned values the conversions are written out. A failed \<open>assert\<close> or \<open>VERIFY\<close>, a call
  of \<open>exit\<close>, an access outside an array and an uncaught \<open>std::out_of_range\<close> are faults; a
  theorem that an operation gives \<open>Inr\<close> says that none of them happens, with one exception: the
  read behind the string that is put. \<open>write_file\<close> copies a last direct block of fewer than 512
  bytes as a whole block, and \<open>extent_server::put\<close> passes it a string, of which C++ guarantees
  the terminating NUL and no byte after it. In the program practically every \<open>put\<close> of a small file
  therefore reads outside the string, by up to 510 bytes. \<open>es_put\<close>, and with it every operation
  above it, is stated under the assumption that 511 bytes may be read there, of arbitrary values (what
  happens on a real machine, where the heap goes on); the theorems hold for all of these values, so no
  result depends on them, but \<open>Inr\<close> does not exclude this read. \<open>es_put_with\<close> is the same
  function with the readable bytes as an argument, and \<open>put_overread\<close> in \<open>Overread\<close>
  states for which contents it faults: with \<open>es_put_with []\<close>, which is all that C++ promises, nearly
  every content below 51200 bytes does. The theorems on \<open>write_file\<close> itself have the length of the
  buffer as a hypothesis. Uninitialised memory
  is an argument or comes from a stream of arbitrary values, and the theorems hold for all of them.
  Output on the console is left out. Allocation of memory, and taking and releasing a mutex, are taken
  to succeed.

  \<^bold>\<open>What the lemmas show.\<close> The inode layer keeps \<open>fs_inv\<close> and implements the map
  \<open>files\<close>; the number of free blocks is accounted for exactly, including the blocks that removal
  leaks. The client implements directories, files and links over it: results, errors and the
  effect on every other file are stated for each operation, and any sequence of operations is a behaviour
  of the abstract file system and keeps its directories a tree. A directory with any other text in it is read
  without a fault and left alone. Each request of an admissible FUSE session is answered exactly once, and requests
  and replies together are a behaviour of the abstract file system, so the layers below cannot be seen
  through them. The printed directory, the headers, the containers and the attributes are read
  back as they were written; the remote extent server equals the local one. The queue delivers in
  order and loses no wake-up, and a call in another thread is made once. The tester always reaches
  its full score. The clocks of CPU time split a time into seconds and nanoseconds exactly, up to
  \<open>2 ^ 52\<close> nanoseconds.

  \<^bold>\<open>Bounds.\<close> No fuel is used: every loop of the code is bounded and is a function with a
  measure or a structural recursion. The conditions of the theorems are those of the code: a file of at
  most 116736 bytes (100 direct and 128 indirect blocks) and enough free blocks (\<open>cost\<close>, with one
  block of slack where an emptied file keeps its block). What happens without the space is
  stated in \<open>Disk_Full\<close>, without inode numbers in \<open>Inode_Alloc\<close> and \<open>Data_Props\<close>, beyond the largest file in
  \<open>Oversize\<close>.

  \<^bold>\<open>Parameters.\<close> The results of the calls in \<open>main\<close> are the record \<open>fuse_lib\<close>,
  \<open>rand()\<close> is a stream, the calls of the Mach kernel are the record \<open>mach\<close>. The library functions \<open>fuse_dirent_size\<close> and
  \<open>fuse_add_dirent\<close> are arguments, with the condition \<open>dirent_lib\<close> that an entry has the
  length that is reported for it. The operators of the RPC library for the basic types, the test
  for the end of a message and the transport \<open>call1\<close> are arguments, with the conditions
  \<open>puts\<close>, \<open>gets\<close>, \<open>packs\<close>, \<open>lib_ok\<close> and \<open>delivers\<close>: what is written is
  read back, and a call that is not lost runs its handler once. Each condition is shown to hold for
  concrete functions.

  \<^bold>\<open>Not modelled.\<close> The inside of the FUSE library; of the RPC library everything that is only
  declared in the headers (connections, polling, the thread pool, the reply window, the dispatcher),
  since its code is in a binary; the destructors and the
  one-line accessors of the message buffers and of the classes in \<open>rpc.h\<close>, the constructors of the small
  structures there and the setters of its test switches; \<open>ScopedLock\<close> other than as the scope of a
  step; the messages on the console; the test scripts.
\<close>

end
